(* ===== verification/Prelude.thy ===== *)
theory Prelude
  imports Complex_Main "HOL-Library.Sublist" "HOL-Library.Char_ord" "HOL-Library.List_Lexorder"
    "HOL-Library.AList" "HOL-Library.Monad_Syntax"
begin

text \<open>
  What the components share: the collections of simplification rules, Go's signed 64-bit
  integers, Go's maps as association lists, the functions of Go's \<^verbatim>\<open>strings\<close> and
  \<^verbatim>\<open>strconv\<close> packages the source calls, and generic lemmas about them.

  A Go string is a sequence of bytes, here a \<^typ>\<open>string\<close>. A Go map is an association list
  with distinct keys; its order is the order in which one execution ranges over the map, which
  Go leaves open, so a statement about every list is a statement about every iteration order.
\<close>

named_theorems go_eval \<open>equations that evaluate the model on concrete inputs\<close>

section \<open>Signed 64-bit integers\<close>

definition wrap64 :: "int \<Rightarrow> int" where
  "wrap64 x = signed_take_bit 63 x"

definition int64_min :: int where "int64_min = - (2 ^ 63)"

definition int64_max :: int where "int64_max = 2 ^ 63 - 1"

definition in64 :: "int \<Rightarrow> bool" where
  "in64 x \<longleftrightarrow> int64_min \<le> x \<and> x \<le> int64_max"

lemma in64_iff: "in64 x \<longleftrightarrow> - (2 ^ 63) \<le> x \<and> x < 2 ^ 63"
  by (auto simp: in64_def int64_min_def int64_max_def)

lemma wrap64_id: "in64 x \<Longrightarrow> wrap64 x = x"
  by (simp add: wrap64_def in64_iff signed_take_bit_int_eq_self_iff)

lemma in64_wrap64: "in64 (wrap64 x)"
  using signed_take_bit_int_greater_eq_minus_exp [of 63 x] signed_take_bit_int_less_exp [of 63 x]
  by (simp add: wrap64_def in64_iff)

section \<open>Maps\<close>

type_synonym 'v smap = "(string \<times> 'v) list"

lemma map_of_update_eq [simp]: "map_of (AList.update k v m) k' = (if k' = k then Some v else map_of m k')"
  by (simp add: AList.update_conv')

lemma distinct_update_keys: "distinct (map fst m) \<Longrightarrow> distinct (map fst (AList.update k v m))"
  by (rule distinct_update)

section \<open>Strings\<close>

definition HasPrefix :: "string \<Rightarrow> string \<Rightarrow> bool" where
  "HasPrefix s p \<longleftrightarrow> take (length p) s = p"

definition HasSuffix :: "string \<Rightarrow> string \<Rightarrow> bool" where
  "HasSuffix s p \<longleftrightarrow> length p \<le> length s \<and> drop (length s - length p) s = p"

definition TrimPrefix :: "string \<Rightarrow> string \<Rightarrow> string" where
  "TrimPrefix s p = (if HasPrefix s p then drop (length p) s else s)"

definition TrimSuffix :: "string \<Rightarrow> string \<Rightarrow> string" where
  "TrimSuffix s p = (if HasSuffix s p then take (length s - length p) s else s)"

fun Contains :: "string \<Rightarrow> string \<Rightarrow> bool" where
  "Contains [] sub \<longleftrightarrow> sub = []"
| "Contains (c # s) sub \<longleftrightarrow> HasPrefix (c # s) sub \<or> Contains s sub"

text \<open>\<open>strings.Index\<close> and \<open>strings.LastIndex\<close>: \<open>-1\<close> when there is no occurrence.\<close>

fun Index :: "string \<Rightarrow> string \<Rightarrow> int" where
  "Index [] sub = (if sub = [] then 0 else - 1)"
| "Index (c # s) sub = (if HasPrefix (c # s) sub then 0
     else let i = Index s sub in if i < 0 then - 1 else i + 1)"

fun LastIndex :: "string \<Rightarrow> string \<Rightarrow> int" where
  "LastIndex [] sub = (if sub = [] then 0 else - 1)"
| "LastIndex (c # s) sub = (let i = LastIndex s sub in
     if 0 \<le> i then i + 1 else if HasPrefix (c # s) sub then 0 else - 1)"

text \<open>\<open>strings.Split\<close> for a separator that is not empty, the only case the source has.\<close>

function Split :: "string \<Rightarrow> string \<Rightarrow> string list" where
  "Split s sep = (let i = Index s sep in
     if i < 0 \<or> sep = [] then [s]
     else take (nat i) s # Split (drop (nat i + length sep) s) sep)"
  by pat_completeness auto

lemma Index_less_length: "0 \<le> Index s sep \<Longrightarrow> sep \<noteq> [] \<Longrightarrow> nat (Index s sep) < length s"
  by (induction s) (auto simp: Let_def split: if_splits)

termination Split
proof (relation "measure (\<lambda>(s, sep). length s)")
  fix s sep :: string and i
  assume i: "i = Index s sep" and c: "\<not> (i < 0 \<or> sep = [])"
  then have "nat i < length s" using Index_less_length by auto
  with c show "((drop (nat i + length sep) s, sep), s, sep) \<in> measure (\<lambda>(s, sep). length s)"
    by (cases sep) auto
qed simp

declare Split.simps [simp del]

fun Join :: "string list \<Rightarrow> string \<Rightarrow> string" where
  "Join [] sep = []"
| "Join [s] sep = s"
| "Join (s # ss) sep = s @ sep @ Join ss sep"

text \<open>
  White space of \<^verbatim>\<open>strings.TrimSpace\<close>, in UTF-8: the ASCII ones and Unicode's
  \<^verbatim>\<open>White_Space\<close> code points.
\<close>

definition space_runes :: "string list" where
  "space_runes =
     [[CHR 0x09], [CHR 0x0A], [CHR 0x0B], [CHR 0x0C], [CHR 0x0D], [CHR 0x20],
      [CHR 0xC2, CHR 0x85], [CHR 0xC2, CHR 0xA0], [CHR 0xE1, CHR 0x9A, CHR 0x80]]
     @ map (\<lambda>c. [CHR 0xE2, CHR 0x80, c])
         [CHR 0x80, CHR 0x81, CHR 0x82, CHR 0x83, CHR 0x84, CHR 0x85, CHR 0x86, CHR 0x87,
          CHR 0x88, CHR 0x89, CHR 0x8A, CHR 0xA8, CHR 0xA9, CHR 0xAF]
     @ [[CHR 0xE2, CHR 0x81, CHR 0x9F], [CHR 0xE3, CHR 0x80, CHR 0x80]]"

function trim_left :: "string list \<Rightarrow> string \<Rightarrow> string" where
  "trim_left ws s = (case find (\<lambda>w. w \<noteq> [] \<and> HasPrefix s w) ws of
     None \<Rightarrow> s | Some w \<Rightarrow> trim_left ws (drop (length w) s))"
  by pat_completeness auto

termination trim_left
proof (relation "measure (\<lambda>(ws, s). length s)")
  fix ws s w
  assume "find (\<lambda>w. w \<noteq> [] \<and> HasPrefix s w) ws = Some w"
  then have "w \<noteq> []" and "HasPrefix s w" by (auto simp: find_Some_iff)
  then show "((ws, drop (length w) s), ws, s) \<in> measure (\<lambda>(ws, s). length s)"
    by (cases s) (auto simp: HasPrefix_def)
qed simp

declare trim_left.simps [simp del]

definition TrimSpace :: "string \<Rightarrow> string" where
  "TrimSpace s = rev (trim_left (map rev space_runes) (rev (trim_left space_runes s)))"

text \<open>
  ASCII case folding, with the two code points outside ASCII that Unicode's simple folding
  maps to an ASCII letter: the Kelvin sign and the long s. \<open>strings.ToLower\<close> maps the
  Kelvin sign only.
\<close>

definition lower_byte :: "char \<Rightarrow> char" where
  "lower_byte c = (if CHR ''A'' \<le> c \<and> c \<le> CHR ''Z'' then char_of (of_char c + (32::nat)) else c)"

fun ToLower :: "string \<Rightarrow> string" where
  "ToLower [] = []"
| "ToLower (c # s) =
     (if c = CHR 0xE2 \<and> take 2 s = [CHR 0x84, CHR 0xAA] then CHR ''k'' # ToLower (drop 2 s)
      else lower_byte c # ToLower s)"

fun fold_case :: "string \<Rightarrow> string" where
  "fold_case [] = []"
| "fold_case (c # s) =
     (if c = CHR 0xE2 \<and> take 2 s = [CHR 0x84, CHR 0xAA] then CHR ''k'' # fold_case (drop 2 s)
      else if c = CHR 0xC5 \<and> take 1 s = [CHR 0xBF] then CHR ''s'' # fold_case (drop 1 s)
      else lower_byte c # fold_case s)"

definition EqualFold :: "string \<Rightarrow> string \<Rightarrow> bool" where
  "EqualFold s t \<longleftrightarrow> fold_case s = fold_case t"

section \<open>Decimal numbers\<close>

definition digit_char :: "nat \<Rightarrow> char" where
  "digit_char d = char_of (48 + d)"

definition digit_val :: "char \<Rightarrow> nat option" where
  "digit_val c = (let n = of_char c in if 48 \<le> n \<and> n \<le> 57 then Some (n - 48) else None)"

fun digits10 :: "nat \<Rightarrow> string" where
  "digits10 n = (if n < 10 then [digit_char n] else digits10 (n div 10) @ [digit_char (n mod 10)])"

declare digits10.simps [simp del]

text \<open>\<open>fmt.Sprintf("%d", i)\<close>\<close>

definition itoa :: "int \<Rightarrow> string" where
  "itoa i = (if i < 0 then CHR ''-'' # digits10 (nat (- i)) else digits10 (nat i))"

text \<open>The longest prefix of digits: its value (with what was read before) and the rest.\<close>

fun read_digits :: "nat \<Rightarrow> string \<Rightarrow> nat \<times> string" where
  "read_digits acc [] = (acc, [])"
| "read_digits acc (c # s) = (case digit_val c of
     None \<Rightarrow> (acc, c # s) | Some d \<Rightarrow> read_digits (10 * acc + d) s)"

fun is_digit :: "string \<Rightarrow> bool" where
  "is_digit [] \<longleftrightarrow> False"
| "is_digit (c # s) \<longleftrightarrow> digit_val c \<noteq> None"

fun read_sign :: "string \<Rightarrow> int \<times> string" where
  "read_sign [] = (1, [])"
| "read_sign (c # s) =
     (if c = CHR ''-'' then (- 1, s) else if c = CHR ''+'' then (1, s) else (1, c # s))"

text \<open>A signed decimal \<open>int\<close> at the front of a string, and what follows it.\<close>

definition read_int :: "string \<Rightarrow> (int \<times> string) option" where
  "read_int s = (case read_sign s of (sg, r) \<Rightarrow>
     if is_digit r then
       (case read_digits 0 r of (n, r') \<Rightarrow>
         if in64 (sg * int n) then Some (sg * int n, r') else None)
     else None)"

definition Atoi :: "string \<Rightarrow> int option" where
  "Atoi s = (case read_int s of Some (n, []) \<Rightarrow> Some n | _ \<Rightarrow> None)"

subsection \<open>Reading back what was printed\<close>

lemma digit_val_char [simp]: "d < 10 \<Longrightarrow> digit_val (digit_char d) = Some d"
  by (simp add: digit_val_def digit_char_def)

lemma digits10_nonempty: "digits10 n \<noteq> []"
  by (subst digits10.simps) simp

lemma digits10_is_digit: "is_digit (digits10 n @ s)"
proof (induction n arbitrary: s rule: digits10.induct)
  case (1 n)
  then show ?case by (cases "n < 10") (subst digits10.simps, simp)+
qed

lemma read_digits_digits10:
  "read_digits acc (digits10 n @ s) = read_digits (acc * 10 ^ length (digits10 n) + n) s"
proof (induction n arbitrary: s rule: digits10.induct)
  case (1 n)
  show ?case
  proof (cases "n < 10")
    case True
    then show ?thesis by (simp add: digits10.simps [of n] mult.commute)
  next
    case False
    then have d: "digits10 n = digits10 (n div 10) @ [digit_char (n mod 10)]"
      by (simp add: digits10.simps [of n])
    have "read_digits acc (digits10 n @ s)
        = read_digits (acc * 10 ^ length (digits10 (n div 10)) + n div 10) (digit_char (n mod 10) # s)"
      unfolding d using "1.IH" [OF False, of "digit_char (n mod 10) # s"] by simp
    then show ?thesis by (simp add: d algebra_simps)
  qed
qed

lemma read_digits_stop: "\<not> is_digit s \<Longrightarrow> read_digits acc s = (acc, s)"
  by (cases s) auto

lemma read_sign_digit: "is_digit r \<Longrightarrow> read_sign r = (1, r)"
  by (cases r) (auto simp: digit_val_def)

lemma read_int_itoa:
  assumes "in64 i" and "\<not> is_digit s"
  shows "read_int (itoa i @ s) = Some (i, s)"
  using assms by (simp add: read_int_def itoa_def read_sign_digit digits10_is_digit
      read_digits_digits10 read_digits_stop)

lemma Atoi_itoa: "in64 i \<Longrightarrow> Atoi (itoa i) = Some i"
  using read_int_itoa [of i "[]"] by (simp add: Atoi_def)

lemma itoa_nonempty: "itoa i \<noteq> []"
  by (simp add: itoa_def digits10_nonempty)

subsection \<open>Substrings\<close>

lemma HasPrefix_append [simp]: "HasPrefix (p @ s) p"
  by (simp add: HasPrefix_def)

lemma HasPrefix_iff: "HasPrefix s p \<longleftrightarrow> (\<exists>r. s = p @ r)"
  by (metis HasPrefix_append HasPrefix_def append_take_drop_id)

lemma HasSuffix_append [simp]: "HasSuffix (s @ p) p"
  by (simp add: HasSuffix_def)

lemma HasSuffix_iff: "HasSuffix s p \<longleftrightarrow> (\<exists>r. s = r @ p)"
  by (metis HasSuffix_append HasSuffix_def append_take_drop_id)

lemma TrimPrefix_append [simp]: "TrimPrefix (p @ s) p = s"
  by (simp add: TrimPrefix_def)

lemma TrimSuffix_append [simp]: "TrimSuffix (s @ p) p = s"
  by (simp add: TrimSuffix_def)

lemma Contains_iff: "Contains s sub \<longleftrightarrow> sublist sub s"
  by (induction s) (auto simp: HasPrefix_iff sublist_Cons_right prefix_def)

text \<open>Evaluating the string functions on literals.\<close>

lemmas [go_eval] = HasPrefix_def HasSuffix_def TrimPrefix_def TrimSuffix_def Split.simps
  trim_left.simps TrimSpace_def space_runes_def lower_byte_def EqualFold_def digit_char_def
  digit_val_def digits10.simps itoa_def read_int_def Atoi_def in64_def int64_min_def int64_max_def
  wrap64_def char_of_def bit_Suc_0_iff

end
