(* ===== verification/Effects.thy ===== *)
theory Effects
  imports Prelude "HOL-Library.State_Monad"
begin

text \<open>
  Effects. A call to the API server, to the Git provider or to the clock is answered by an
  environment the controller does not control. A program is a computation of the library's
  state monad over a world that keeps the list of the calls made so far, each with its answer;
  the environment is a function of that list, so that it may answer anything at any moment:
  other writers, failures and slow clocks are included. Memory of the process extends the world.

  \<open>ensures m Q\<close>: whatever the environment and the memory, \<open>m\<close> returns a result and extends the
  list of calls by some \<open>s\<close>, and \<open>Q\<close> holds of both. A program is a total function, so there
  is always a result.
\<close>

named_theorems ensures_intro \<open>one rule per construct, read backwards\<close>

section \<open>Errors\<close>

text \<open>
  The errors the source tells apart. \<open>Errorf\<close> is an error made by \<^verbatim>\<open>fmt.Errorf\<close>, with what it
  wraps by \<^verbatim>\<open>%w\<close>.
\<close>

datatype error =
    NotFound
  | AlreadyExists
  | Conflict
  | ErrFileNotFound
  | StatusError int
  | OtherError string
  | Errorf string "error list"

text \<open>\<^verbatim>\<open>errors.Is\<close> and \<^verbatim>\<open>errors.As\<close>: the error or one it wraps.\<close>

fun err_is :: "(error \<Rightarrow> bool) \<Rightarrow> error \<Rightarrow> bool" where
  "err_is p (Errorf msg es) \<longleftrightarrow> p (Errorf msg es) \<or> list_ex (err_is p) es"
| "err_is p e \<longleftrightarrow> p e"

type_synonym 'a result = "error + 'a"

section \<open>Calls\<close>

record 'e world =
  calls :: "'e list"

type_synonym ('e, 'm, 'a) io = "(('e, 'm) world_scheme, 'a) state"

definition ask :: "('e list \<Rightarrow> 'r) \<Rightarrow> ('r \<Rightarrow> 'e) \<Rightarrow> ('e, 'm, 'r) io" where
  "ask answer entry = State (\<lambda>w. let r = answer (calls w) in (r, w\<lparr>calls := calls w @ [entry r]\<rparr>))"

lemma run_state_ask [simp]:
  "run_state (ask answer entry) w = (answer (calls w), w\<lparr>calls := calls w @ [entry (answer (calls w))]\<rparr>)"
  by (simp add: ask_def Let_def)

abbreviation return :: "'a \<Rightarrow> ('e, 'm, 'a) io" where
  "return \<equiv> State_Monad.return"

text \<open>\<^verbatim>\<open>if err != nil { return err }\<close>\<close>

definition or_fail :: "('e, 'm, 'a result) io \<Rightarrow> ('a \<Rightarrow> ('e, 'm, 'b result) io) \<Rightarrow> ('e, 'm, 'b result) io" where
  "or_fail m f = m \<bind> (\<lambda>r. case r of Inl e \<Rightarrow> return (Inl e) | Inr x \<Rightarrow> f x)"

text \<open>A loop over a list for its effects and an accumulator.\<close>

fun foldM :: "('x \<Rightarrow> 'a \<Rightarrow> ('e, 'm, 'a) io) \<Rightarrow> 'x list \<Rightarrow> 'a \<Rightarrow> ('e, 'm, 'a) io" where
  "foldM f [] a = return a"
| "foldM f (x # xs) a = f x a \<bind> foldM f xs"

text \<open>Evaluating a program on a concrete client.\<close>

lemma run_or_fail: "run_state (or_fail m f) w = (case run_state m w of (r, w') \<Rightarrow>
    (case r of Inl e \<Rightarrow> (Inl e, w') | Inr x \<Rightarrow> run_state (f x) w'))"
  by (simp add: or_fail_def split: sum.split prod.split)

section \<open>Postconditions\<close>

definition ensures :: "('e, 'm, 'a) io \<Rightarrow> ('a \<Rightarrow> 'e list \<Rightarrow> bool) \<Rightarrow> bool" where
  "ensures m Q \<longleftrightarrow> (\<forall>w. \<exists>s. calls (snd (run_state m w)) = calls w @ s \<and> Q (fst (run_state m w)) s)"

lemma ensures_return [ensures_intro]: "Q a [] \<Longrightarrow> ensures (return a) Q"
  by (simp add: ensures_def)

lemma ensures_ask [ensures_intro]: "(\<And>r. Q r [entry r]) \<Longrightarrow> ensures (ask answer entry) Q"
  by (simp add: ensures_def ask_def Let_def)

lemma ensures_bind:
  assumes "ensures m R" and "\<And>x s. R x s \<Longrightarrow> ensures (f x) (\<lambda>y s'. Q y (s @ s'))"
  shows "ensures (m \<bind> f) Q"
  unfolding ensures_def
proof
  fix w
  obtain x w' where r: "run_state m w = (x, w')" by force
  from assms(1) obtain s where s: "calls w' = calls w @ s" "R x s" unfolding ensures_def by (metis r fst_conv snd_conv)
  from assms(2) [OF s(2)] obtain s' where
    "calls (snd (run_state (f x) w')) = calls w' @ s'" "Q (fst (run_state (f x) w')) (s @ s')"
    unfolding ensures_def by blast
  with r s(1) show "\<exists>s. calls (snd (run_state (m \<bind> f) w)) = calls w @ s \<and> Q (fst (run_state (m \<bind> f) w)) s"
    by auto
qed

lemma ensures_weaken: "ensures m R \<Longrightarrow> (\<And>x s. R x s \<Longrightarrow> Q x s) \<Longrightarrow> ensures m Q"
  unfolding ensures_def by meson

lemma ensures_ask_bind [ensures_intro]:
  "(\<And>r. ensures (f r) (\<lambda>y s. Q y (entry r # s))) \<Longrightarrow> ensures (ask answer entry \<bind> f) Q"
  by (rule ensures_bind [where R = "\<lambda>r s. s = [entry r]"]) (auto intro: ensures_ask)

lemma ensures_bind_return: "ensures m (\<lambda>x s. Q (f x) s) \<Longrightarrow> ensures (m \<bind> (\<lambda>x. return (f x))) Q"
  by (erule ensures_bind) (simp add: ensures_return)

lemma ensures_or_fail:
  assumes "ensures m R" and "\<And>e s. R (Inl e) s \<Longrightarrow> Q (Inl e) s"
    and "\<And>x s. R (Inr x) s \<Longrightarrow> ensures (f x) (\<lambda>y s'. Q y (s @ s'))"
  shows "ensures (or_fail m f) Q"
  unfolding or_fail_def by (rule ensures_bind [OF assms(1)]) (auto split: sum.split intro!: ensures_return simp: assms(2,3))

lemma ensures_ask_or_fail [ensures_intro]:
  assumes "\<And>e. Q (Inl e) [entry (Inl e)]" and "\<And>x. ensures (f x) (\<lambda>y s. Q y (entry (Inr x) # s))"
  shows "ensures (or_fail (ask answer entry) f) Q"
  by (rule ensures_or_fail [where R = "\<lambda>r s. s = [entry r]"]) (auto intro: ensures_ask assms)

lemma ensures_if [ensures_intro]:
  "(b \<Longrightarrow> ensures m Q) \<Longrightarrow> (\<not> b \<Longrightarrow> ensures n Q) \<Longrightarrow> ensures (if b then m else n) Q"
  by simp

lemma ensures_sum [ensures_intro]:
  "(\<And>e. r = Inl e \<Longrightarrow> ensures (m e) Q) \<Longrightarrow> (\<And>x. r = Inr x \<Longrightarrow> ensures (n x) Q)
    \<Longrightarrow> ensures (case r of Inl e \<Rightarrow> m e | Inr x \<Rightarrow> n x) Q"
  by (cases r) simp_all

lemma ensures_option [ensures_intro]:
  "(r = None \<Longrightarrow> ensures m Q) \<Longrightarrow> (\<And>x. r = Some x \<Longrightarrow> ensures (n x) Q)
    \<Longrightarrow> ensures (case r of None \<Rightarrow> m | Some x \<Rightarrow> n x) Q"
  by (cases r) simp_all

lemma ensures_prod [ensures_intro]: "(\<And>x y. r = (x, y) \<Longrightarrow> ensures (m x y) Q) \<Longrightarrow> ensures (case r of (x, y) \<Rightarrow> m x y) Q"
  by (cases r) simp

text \<open>An invariant of the calls: each satisfies \<open>A\<close>.\<close>

abbreviation only :: "('e \<Rightarrow> bool) \<Rightarrow> ('e, 'm, 'a) io \<Rightarrow> bool" where
  "only A m \<equiv> ensures m (\<lambda>_ s. list_all A s)"

lemma only_bind: "only A m \<Longrightarrow> (\<And>x. only A (f x)) \<Longrightarrow> only A (m \<bind> f)"
  by (erule ensures_bind) (auto elim: ensures_weaken)

lemma only_or_fail: "only A m \<Longrightarrow> (\<And>x. only A (f x)) \<Longrightarrow> only A (or_fail m f)"
  by (erule ensures_or_fail) (auto elim: ensures_weaken)

lemma only_foldM: "(\<And>x a. only A (f x a)) \<Longrightarrow> only A (foldM f xs a)"
  by (induction xs arbitrary: a) (auto intro!: only_bind ensures_return)

text \<open>A loop whose accumulator keeps an invariant relative to the calls made.\<close>

lemma ensures_foldM:
  assumes "\<And>x a s. x \<in> set xs \<Longrightarrow> I a s \<Longrightarrow> ensures (f x a) (\<lambda>a' s'. I a' (s @ s'))" and "I a s"
  shows "ensures (foldM f xs a) (\<lambda>a' s'. I a' (s @ s'))"
  using assms
proof (induction xs arbitrary: a s)
  case (Cons x xs)
  have "ensures (f x a) (\<lambda>a' s'. I a' (s @ s'))" using Cons.prems by simp
  then have "ensures (f x a \<bind> foldM f xs) (\<lambda>a' s'. I a' (s @ s'))"
  proof (rule ensures_bind)
    fix a' s' assume "I a' (s @ s')"
    from Cons.IH [OF _ this] Cons.prems(1) show "ensures (foldM f xs a') (\<lambda>y s''. I y (s @ s' @ s''))" by simp
  qed
  then show ?case by simp
qed (simp add: ensures_return)

text \<open>What holds after every run holds of a given one.\<close>

lemma ensuresD:
  assumes "ensures m Q" and "run_state m w = (r, w')"
  shows "\<exists>s. calls w' = calls w @ s \<and> Q r s"
  using assms unfolding ensures_def by (metis fst_conv snd_conv)

section \<open>Memory\<close>

text \<open>Reading and changing the memory of the process, which extends the world.\<close>

definition look :: "(('e, 'm) world_scheme \<Rightarrow> 'a) \<Rightarrow> ('e, 'm, 'a) io" where
  "look f = State (\<lambda>w. (f w, w))"

definition modify :: "(('e, 'm) world_scheme \<Rightarrow> ('e, 'm) world_scheme) \<Rightarrow> ('e, 'm, unit) io" where
  "modify f = State (\<lambda>w. ((), f w))"

lemma run_state_look [simp]: "run_state (look f) w = (f w, w)"
  by (simp add: look_def)

lemma run_state_modify [simp]: "run_state (modify f) w = ((), f w)"
  by (simp add: modify_def)

lemma ensures_look: "(\<And>x. Q x []) \<Longrightarrow> ensures (look f) Q"
  by (simp add: ensures_def)

lemma ensures_look_bind [ensures_intro]: "(\<And>x. ensures (m x) Q) \<Longrightarrow> ensures (look f \<bind> m) Q"
  by (rule ensures_bind [where R = "\<lambda>_ s. s = []"]) (simp_all add: ensures_look)

lemma ensures_modify: "(\<And>w. calls (f w) = calls w) \<Longrightarrow> Q () [] \<Longrightarrow> ensures (modify f) Q"
  by (simp add: ensures_def)

text \<open>Programs that leave the memory alone.\<close>

definition keeps :: "('e, 'm, 'a) io \<Rightarrow> bool" where
  "keeps m \<longleftrightarrow> (\<forall>w. \<exists>s. snd (run_state m w) = w\<lparr>calls := calls w @ s\<rparr>)"

lemma keeps_return [simp]: "keeps (return a)"
  by (auto simp: keeps_def intro!: exI [of _ "[]"])

lemma keeps_ask [simp]: "keeps (ask f g)"
  by (auto simp: keeps_def)

lemma keeps_bind: "keeps m \<Longrightarrow> (\<And>x. keeps (f x)) \<Longrightarrow> keeps (m \<bind> f)"
  unfolding keeps_def
proof
  fix w
  assume m: "\<forall>w. \<exists>s. snd (run_state m w) = w\<lparr>calls := calls w @ s\<rparr>"
    and f: "\<And>x. \<forall>w. \<exists>s. snd (run_state (f x) w) = w\<lparr>calls := calls w @ s\<rparr>"
  obtain x w' where r: "run_state m w = (x, w')" by force
  obtain s where s: "w' = w\<lparr>calls := calls w @ s\<rparr>" using m r by (metis snd_conv)
  obtain s' where "snd (run_state (f x) w') = w'\<lparr>calls := calls w' @ s'\<rparr>" using f by blast
  then show "\<exists>s. snd (run_state (m \<bind> f) w) = w\<lparr>calls := calls w @ s\<rparr>"
    using s r by (auto intro!: exI [of _ "s @ s'"])
qed

lemma keeps_or_fail: "keeps m \<Longrightarrow> (\<And>x. keeps (f x)) \<Longrightarrow> keeps (or_fail m f)"
  unfolding or_fail_def by (rule keeps_bind) (auto split: sum.split)

lemma keeps_run: "keeps m \<Longrightarrow> run_state m w = (x, w') \<Longrightarrow> w' = w\<lparr>calls := calls w'\<rparr>"
proof -
  assume "keeps m" and r: "run_state m w = (x, w')"
  then obtain s where "snd (run_state m w) = w\<lparr>calls := calls w @ s\<rparr>" unfolding keeps_def by blast
  with r show ?thesis by simp
qed

section \<open>Retrying on conflicts\<close>

text \<open>
  \<^verbatim>\<open>retry.RetryOnConflict\<close> of client-go is a parameter of the programs that use it.
  Documented: the function runs at least once and again while it returns a conflict, at most a
  fixed number of times; the last result is returned. \<open>attempts n\<close> is that behaviour.
\<close>

type_synonym ('e, 'm) retrier = "('e, 'm, unit result) io \<Rightarrow> ('e, 'm, unit result) io"

fun attempts :: "nat \<Rightarrow> ('e, 'm) retrier" where
  "attempts 0 m = m"
| "attempts (Suc n) m = m \<bind> (\<lambda>r. if r = Inl Conflict then attempts n m else return r)"

definition retries_on_conflict :: "('e, 'm) retrier \<Rightarrow> bool" where
  "retries_on_conflict R \<longleftrightarrow> (\<exists>n. \<forall>m. R m = attempts n m)"

lemma only_attempts: "only A m \<Longrightarrow> only A (attempts n m)"
  by (induction n) (auto intro!: only_bind ensures_if ensures_return)

lemma only_retry: "retries_on_conflict R \<Longrightarrow> only A m \<Longrightarrow> only A (R m)"
  unfolding retries_on_conflict_def using only_attempts by force

lemma keeps_attempts: "keeps m \<Longrightarrow> keeps (attempts n m)"
  by (induction n) (auto intro!: keeps_bind)

lemma keeps_retry: "retries_on_conflict R \<Longrightarrow> keeps m \<Longrightarrow> keeps (R m)"
  unfolding retries_on_conflict_def using keeps_attempts by force

text \<open>A final attempt after some that ended in a conflict.\<close>

lemma ensures_attempts:
  assumes "ensures m Q"
  shows "ensures (attempts n m) (\<lambda>r s. \<exists>ss s'. s = concat ss @ s' \<and> (\<forall>t \<in> set ss. Q (Inl Conflict) t) \<and> Q r s' \<and> length ss \<le> n)"
proof (induction n)
  case 0
  show ?case unfolding attempts.simps by (rule ensures_weaken [OF assms]) (rule exI [of _ "[]"], simp)
next
  case (Suc n)
  show ?case unfolding attempts.simps
  proof (rule ensures_bind [OF assms], rule ensures_if)
    fix r s assume "Q r s" and "r = Inl Conflict"
    then have c: "Q (Inl Conflict) s" by simp
    show "ensures (attempts n m) (\<lambda>y t. \<exists>ss s'. s @ t = concat ss @ s' \<and> (\<forall>t \<in> set ss. Q (Inl Conflict) t) \<and> Q y s' \<and> length ss \<le> Suc n)"
    proof (rule ensures_weaken [OF Suc])
      fix y t assume "\<exists>ss s'. t = concat ss @ s' \<and> (\<forall>t \<in> set ss. Q (Inl Conflict) t) \<and> Q y s' \<and> length ss \<le> n"
      then obtain ss s' where "t = concat ss @ s'" "\<forall>t \<in> set ss. Q (Inl Conflict) t" "Q y s'" "length ss \<le> n" by blast
      with c show "\<exists>ss s'. s @ t = concat ss @ s' \<and> (\<forall>t \<in> set ss. Q (Inl Conflict) t) \<and> Q y s' \<and> length ss \<le> Suc n"
        by (intro exI [of _ "s # ss"] exI [of _ s']) simp
    qed
  next
    fix r s assume "Q r s"
    then show "ensures (return r) (\<lambda>y t. \<exists>ss s'. s @ t = concat ss @ s' \<and> (\<forall>t \<in> set ss. Q (Inl Conflict) t) \<and> Q y s' \<and> length ss \<le> Suc n)"
      by (intro ensures_return exI [of _ "[]"] exI [of _ s]) simp
  qed
qed

end
