(* ===== verification/Go_Float.thy ===== *)
theory Go_Float
  imports Prelude
begin

text \<open>
  Go's \<^verbatim>\<open>float64\<close>: IEEE 754 binary64 with rounding to nearest, ties to even.
\<close>

section \<open>Executable arithmetic\<close>

fun blen :: "int \<Rightarrow> int" where
  "blen n = (if n \<le> 0 then 0 else 1 + blen (n div 2))"

declare blen.simps [simp del]

definition rne_div :: "int \<Rightarrow> int \<Rightarrow> int" where
  "rne_div a b = (let f = a div b; r = a mod b in
     if 2 * r < b then f else if b < 2 * r then f + 1 else if even f then f else f + 1)"

definition frac_log2 :: "int \<Rightarrow> int \<Rightarrow> int" where
  "frac_log2 p q = (let k = blen p - blen q in
     if (if k \<ge> 0 then p < q * 2 ^ nat k else p * 2 ^ nat (- k) < q) then k - 1 else k)"

definition frac_exponent :: "int \<Rightarrow> int \<Rightarrow> int" where
  "frac_exponent p q = max (frac_log2 \<bar>p\<bar> q - 52) (- 1074)"

definition round_frac :: "int \<Rightarrow> int \<Rightarrow> int \<times> int" where
  "round_frac p q = (if p = 0 then (0, 1) else
     let e = frac_exponent p q in
     if e \<ge> 0 then (rne_div p (q * 2 ^ nat e) * 2 ^ nat e, 1)
     else (rne_div (p * 2 ^ nat (- e)) q, 2 ^ nat (- e)))"

section \<open>Rounding on the reals\<close>

definition rne :: "real \<Rightarrow> int" where
  "rne x = (let f = \<lfloor>x\<rfloor>; d = x - of_int f in
     if d < 1/2 then f else if 1/2 < d then f + 1 else if even f then f else f + 1)"

definition flexp :: "real \<Rightarrow> int" where
  "flexp x = max (\<lfloor>log 2 \<bar>x\<bar>\<rfloor> - 52) (- 1074)"

definition rnd :: "real \<Rightarrow> real" where
  "rnd x = (if x = 0 then 0 else of_int (rne (x / 2 powi flexp x)) * 2 powi flexp x)"

lemma blen_nonneg: "0 \<le> blen n"
  by (induction n rule: blen.induct) (subst blen.simps, simp)

lemma blen_pos: "0 < n \<Longrightarrow> 0 < blen n"
  using blen_nonneg [of "n div 2"] by (subst blen.simps) simp

lemma blen_bounds:
  assumes "0 < n"
  shows "2 ^ nat (blen n - 1) \<le> n \<and> n < 2 ^ nat (blen n)"
  using assms
proof (induction n rule: blen.induct)
  case (1 n)
  show ?case
  proof (cases "n = 1")
    case True
    then show ?thesis by (simp add: blen.simps)
  next
    case False
    with "1.prems" have h: "0 < n div 2" by simp
    with "1.IH" "1.prems" have IH: "2 ^ nat (blen (n div 2) - 1) \<le> n div 2"
      "n div 2 < 2 ^ nat (blen (n div 2))"
      by auto
    have "blen n = 1 + blen (n div 2)" using "1.prems" by (simp add: blen.simps)
    with blen_pos [OF h] have "nat (blen n - 1) = Suc (nat (blen (n div 2) - 1))"
      "nat (blen n) = Suc (nat (blen (n div 2)))"
      by auto
    then have eqs: "(2::int) ^ nat (blen n - 1) = 2 * 2 ^ nat (blen (n div 2) - 1)"
      "(2::int) ^ nat (blen n) = 2 * 2 ^ nat (blen (n div 2))"
      by simp_all
    show ?thesis unfolding eqs using IH by linarith
  qed
qed

lemma rne_div_eq:
  assumes b: "0 < b"
  shows "rne_div a b = rne (of_int a / of_int b)"
proof -
  have f: "\<lfloor>(of_int a / of_int b :: real)\<rfloor> = a div b" by (simp add: floor_divide_of_int_eq)
  have "(of_int a :: real) = of_int (b * (a div b) + a mod b)" by simp
  then have "(of_int a :: real) = of_int b * of_int (a div b) + of_int (a mod b)"
    by (simp only: of_int_add of_int_mult)
  with b have d: "of_int a / of_int b - (of_int (a div b) :: real) = of_int (a mod b) / of_int b"
    by (simp add: field_simps)
  have "(of_int (a mod b) / of_int b < (1/2 :: real)) = (of_int (2 * (a mod b)) < (of_int b :: real))"
    using b by (simp add: field_simps)
  then have lt: "(of_int (a mod b) / of_int b < (1/2 :: real)) = (2 * (a mod b) < b)"
    by (simp only: of_int_less_iff)
  have "((1/2 :: real) < of_int (a mod b) / of_int b) = ((of_int b :: real) < of_int (2 * (a mod b)))"
    using b by (simp add: field_simps)
  then have gt: "((1/2 :: real) < of_int (a mod b) / of_int b) = (b < 2 * (a mod b))"
    by (simp only: of_int_less_iff)
  show ?thesis unfolding rne_div_def rne_def Let_def f d lt gt ..
qed

lemma powi2_powr: "(2::real) powi k = 2 powr of_int k"
  by (simp add: powr_real_of_int')

lemma powi2_pos [simp]: "0 < (2::real) powi k"
  by (simp add: powi2_powr)

lemma powi2_add: "(2::real) powi (j + k) = 2 powi j * 2 powi k"
  by (simp add: power_int_add)

lemma powi2_mono: "j \<le> k \<Longrightarrow> (2::real) powi j \<le> 2 powi k"
  by (simp add: powi2_powr)

lemma powi2_less_iff: "(2::real) powi j < 2 powi k \<longleftrightarrow> j < k"
  by (simp add: powi2_powr)

lemma powi2_of_nat: "0 \<le> k \<Longrightarrow> (2::real) powi k = 2 ^ nat k"
  by (simp add: power_int_def)

lemma powi2_neg_nat: "k \<le> 0 \<Longrightarrow> (2::real) powi k = 1 / 2 ^ nat (- k)"
  by (cases "k = 0") (simp_all add: power_int_def field_simps)

lemma blen_bounds_real:
  assumes "0 < n"
  shows "2 powi (blen n - 1) \<le> (of_int n :: real)" and "(of_int n :: real) < 2 powi blen n"
proof -
  from blen_bounds [OF assms] have "of_int (2 ^ nat (blen n - 1)) \<le> (of_int n :: real)"
    and "(of_int n :: real) < of_int (2 ^ nat (blen n))"
    by (simp_all only: of_int_le_iff of_int_less_iff)
  then show "2 powi (blen n - 1) \<le> (of_int n :: real)" and "(of_int n :: real) < 2 powi blen n"
    using blen_pos [OF assms] by (simp_all add: powi2_of_nat)
qed

lemma log2_floor_iff:
  assumes "0 < x"
  shows "\<lfloor>log 2 x\<rfloor> = k \<longleftrightarrow> 2 powi k \<le> x \<and> x < 2 powi (k + 1)"
  using assms by (simp add: floor_log_eq_powr_iff powi2_powr)

lemma log2_bounds:
  assumes "0 < x"
  shows "2 powi \<lfloor>log 2 x\<rfloor> \<le> x" and "x < 2 powi (\<lfloor>log 2 x\<rfloor> + 1)"
  using log2_floor_iff [OF assms, of "\<lfloor>log 2 x\<rfloor>"] by simp_all

lemma frac_log2_eq:
  assumes p: "0 < p" and q: "0 < q"
  shows "frac_log2 p q = \<lfloor>log 2 (of_int p / of_int q)\<rfloor>"
proof -
  define k where "k = blen p - blen q"
  have less: "(if k \<ge> 0 then p < q * 2 ^ nat k else p * 2 ^ nat (- k) < q)
      = (of_int p / of_int q < (2::real) powi k)" (is "?A = ?B")
  proof (cases "k \<ge> 0")
    case True
    then have "?B = ((of_int p :: real) < of_int (q * 2 ^ nat k))"
      using q by (simp add: powi2_of_nat field_simps)
    with True show ?thesis by (simp only: of_int_less_iff if_True)
  next
    case False
    then have "?B = ((of_int (p * 2 ^ nat (- k)) :: real) < of_int q)"
      using q by (simp add: powi2_neg_nat field_simps)
    with False show ?thesis by (simp only: of_int_less_iff if_False)
  qed
  note P = blen_bounds_real [OF p] and Q = blen_bounds_real [OF q]
  have q': "(0::real) < of_int q" using q by simp
  have lo: "2 powi (k - 1) \<le> (of_int p / of_int q :: real)"
  proof -
    have "2 powi (k - 1) * (of_int q :: real) \<le> 2 powi (k - 1) * 2 powi blen q"
      using Q(2) by (intro mult_left_mono) auto
    also have "\<dots> = 2 powi (blen p - 1)" by (simp add: k_def flip: powi2_add)
    finally show ?thesis using P(1) q' by (simp add: field_simps)
  qed
  have hi: "(of_int p / of_int q :: real) < 2 powi (k + 1)"
  proof -
    have "2 powi blen p = 2 powi (k + 1) * (2::real) powi (blen q - 1)"
      by (simp add: k_def flip: powi2_add)
    also have "\<dots> \<le> 2 powi (k + 1) * (of_int q :: real)"
      using Q(1) by (intro mult_left_mono) auto
    finally show ?thesis using P(2) q' by (simp add: field_simps)
  qed
  show ?thesis
  proof (cases ?B)
    case True
    then have "\<lfloor>log 2 (of_int p / of_int q)\<rfloor> = k - 1"
      using lo p q by (subst log2_floor_iff) auto
    with True less show ?thesis by (simp add: frac_log2_def flip: k_def)
  next
    case False
    then have "\<lfloor>log 2 (of_int p / of_int q)\<rfloor> = k"
      using hi p q by (subst log2_floor_iff) auto
    with False less show ?thesis by (simp add: frac_log2_def flip: k_def)
  qed
qed

lemma frac_exponent_eq:
  assumes "p \<noteq> 0" and "0 < q"
  shows "frac_exponent p q = flexp (of_int p / of_int q)"
  using assms frac_log2_eq [of "\<bar>p\<bar>" q] by (simp add: frac_exponent_def flexp_def)

lemma round_frac_snd_pos: "0 < snd (round_frac p q)"
  by (simp add: round_frac_def Let_def)

lemma round_frac_val:
  assumes q: "0 < q" and r: "round_frac p q = (a, b)"
  shows "(of_int a / of_int b :: real) = rnd (of_int p / of_int q)"
proof (cases "p = 0")
  case True
  with r show ?thesis by (simp add: round_frac_def rnd_def)
next
  case False
  let ?x = "of_int p / of_int q :: real"
  define e where "e = flexp ?x"
  have e: "frac_exponent p q = e" using False q by (simp add: frac_exponent_eq e_def)
  have x0: "?x \<noteq> 0" using False q by simp
  show ?thesis
  proof (cases "e \<ge> 0")
    case True
    have "rne_div p (q * 2 ^ nat e) = rne (?x / 2 powi e)"
      using q True by (subst rne_div_eq) (simp_all add: powi2_of_nat field_simps)
    with r False True x0 show ?thesis
      by (auto simp: round_frac_def e rnd_def powi2_of_nat simp flip: e_def)
  next
    case F: False
    have "rne_div (p * 2 ^ nat (- e)) q = rne (?x / 2 powi e)"
      using q F by (subst rne_div_eq) (simp_all add: powi2_neg_nat field_simps)
    with r False F x0 show ?thesis
      by (auto simp: round_frac_def e rnd_def powi2_neg_nat simp flip: e_def)
  qed
qed

section \<open>Laws of rounding\<close>

lemma rne_of_int [simp]: "rne (of_int n) = n"
  by (simp add: rne_def)

lemma rne_error: "\<bar>of_int (rne x) - x\<bar> \<le> 1/2"
  unfolding rne_def Let_def by (auto split: if_splits; linarith)

lemma rne_le_int: "x \<le> of_int m \<Longrightarrow> rne x \<le> m"
  unfolding rne_def Let_def by (auto split: if_splits; linarith)

lemma rne_ge_int: "of_int m \<le> x \<Longrightarrow> m \<le> rne x"
  unfolding rne_def Let_def by (auto split: if_splits; linarith)

lemma rne_mono:
  assumes "x \<le> y"
  shows "rne x \<le> rne y"
proof (cases "\<lfloor>x\<rfloor> = \<lfloor>y\<rfloor>")
  case True
  with assms show ?thesis unfolding rne_def Let_def by auto
next
  case False
  with assms have "\<lfloor>x\<rfloor> < \<lfloor>y\<rfloor>" using floor_mono [OF assms] by simp
  then have "x \<le> of_int \<lfloor>y\<rfloor>" by linarith
  then have "rne x \<le> \<lfloor>y\<rfloor>" by (rule rne_le_int)
  also have "\<dots> \<le> rne y" by (rule rne_ge_int) simp
  finally show ?thesis .
qed

lemma rne_neg: "rne (- x) = - rne x"
proof (cases "x = of_int \<lfloor>x\<rfloor>")
  case True
  then show ?thesis by (metis of_int_minus rne_of_int)
next
  case False
  then have c: "\<lfloor>- x\<rfloor> = - \<lfloor>x\<rfloor> - 1" by linarith
  have d: "- x - of_int (- \<lfloor>x\<rfloor> - 1) = 1 - (x - of_int \<lfloor>x\<rfloor>)" by simp
  have ev: "even (- \<lfloor>x\<rfloor> - 1) = odd \<lfloor>x\<rfloor>" by simp
  show ?thesis unfolding rne_def Let_def c d ev by auto
qed

lemma flexp_neg [simp]: "flexp (- x) = flexp x"
  by (simp add: flexp_def)

lemma rnd_zero [simp]: "rnd 0 = 0"
  by (simp add: rnd_def)

lemma rnd_neg: "rnd (- x) = - rnd x"
  by (simp add: rnd_def rne_neg)

lemma rnd_eq: "rnd x = of_int (rne (x / 2 powi flexp x)) * 2 powi flexp x"
  using rne_of_int [of 0] by (simp add: rnd_def del: rne_of_int)

lemma rnd_le_grid: "x \<le> of_int m * 2 powi flexp x \<Longrightarrow> rnd x \<le> of_int m * 2 powi flexp x"
  unfolding rnd_eq by (intro mult_right_mono) (auto intro!: rne_le_int simp: field_simps)

lemma rnd_ge_grid: "of_int m * 2 powi flexp x \<le> x \<Longrightarrow> of_int m * 2 powi flexp x \<le> rnd x"
  unfolding rnd_eq by (intro mult_right_mono) (auto intro!: rne_ge_int simp: field_simps)

lemma rnd_grid_exact: "x = of_int m * 2 powi flexp x \<Longrightarrow> rnd x = x"
  using rnd_le_grid [of x m] rnd_ge_grid [of m x] by auto

lemma flexp_mono:
  assumes "0 < x" and "x \<le> y"
  shows "flexp x \<le> flexp y"
proof -
  have "\<lfloor>log 2 x\<rfloor> \<le> \<lfloor>log 2 y\<rfloor>" using assms by (intro floor_mono) simp
  then show ?thesis using assms by (simp add: flexp_def)
qed

lemma powi2_grid:
  assumes "e \<le> k"
  shows "(2::real) powi k = of_int (2 ^ nat (k - e)) * 2 powi e"
proof -
  have "(2::real) powi k = 2 powi ((k - e) + e)" by simp
  also have "\<dots> = 2 powi (k - e) * 2 powi e" by (rule powi2_add)
  finally show ?thesis using assms by (simp add: powi2_of_nat)
qed

lemma rnd_mono_pos:
  assumes x: "0 < x" and xy: "x \<le> y"
  shows "rnd x \<le> rnd y"
proof (cases "flexp x = flexp y")
  case True
  have "x / 2 powi flexp y \<le> y / 2 powi flexp y"
    using xy by (intro divide_right_mono) (auto intro: less_imp_le)
  then show ?thesis unfolding rnd_eq True by (intro mult_right_mono) (auto intro: rne_mono)
next
  case False
  define L where "L = \<lfloor>log 2 y\<rfloor>"
  from False flexp_mono [OF x xy] have lt: "flexp x < flexp y" by simp
  then have ey: "flexp y = L - 52" and xl: "\<lfloor>log 2 x\<rfloor> + 1 \<le> L"
    using x xy by (auto simp: flexp_def L_def)
  have "x \<le> 2 powi L"
    using log2_bounds(2) [OF x] powi2_mono [OF xl] by linarith
  then have "rnd x \<le> 2 powi L"
    using powi2_grid [of "flexp x" L] lt ey rnd_le_grid [of x "2 ^ nat (L - flexp x)"] by simp
  also have "2 powi L \<le> y" using log2_bounds(1) [of y] x xy by (simp add: L_def)
  then have "2 powi L \<le> rnd y"
    using powi2_grid [of "flexp y" L] ey rnd_ge_grid [of "2 ^ nat (L - flexp y)" y] by simp
  finally show ?thesis .
qed

lemma rnd_nonneg: "0 \<le> x \<Longrightarrow> 0 \<le> rnd x"
  using rnd_ge_grid [of 0 x] by simp

lemma rnd_mono:
  assumes "x \<le> y"
  shows "rnd x \<le> rnd y"
proof (cases "0 < x")
  case True
  then show ?thesis using assms by (rule rnd_mono_pos)
next
  case x: False
  show ?thesis
  proof (cases "0 \<le> y")
    case True
    have "rnd x \<le> 0" using x rnd_nonneg [of "- x"] by (simp add: rnd_neg)
    with rnd_nonneg [OF True] show ?thesis by linarith
  next
    case False
    then have "rnd (- y) \<le> rnd (- x)" using assms by (intro rnd_mono_pos) auto
    then show ?thesis by (simp add: rnd_neg)
  qed
qed

lemma rnd_of_nat_int:
  assumes "0 < n" and "n \<le> 2 ^ 53"
  shows "rnd (of_int n) = of_int n"
proof (cases "n = 2 ^ 53")
  case True
  have "\<lfloor>log 2 (of_int n :: real)\<rfloor> = 53"
    using True by (subst log2_floor_iff) (simp_all add: powi2_of_nat)
  then have "flexp (of_int n) = 1" using assms by (simp add: flexp_def)
  then show ?thesis using True by (intro rnd_grid_exact [where m = "2 ^ 52"]) simp
next
  case False
  with assms have "n < 2 ^ 53" by simp
  then have "(of_int n :: real) < of_int (2 ^ 53)" by (simp only: of_int_less_iff)
  moreover have "2 powi \<lfloor>log 2 (of_int n :: real)\<rfloor> \<le> (of_int n :: real)"
    using assms log2_bounds(1) [of "of_int n"] by simp
  ultimately have "2 powi \<lfloor>log 2 (of_int n :: real)\<rfloor> < (2::real) powi 53"
    by (simp add: powi2_of_nat)
  then have "\<lfloor>log 2 (of_int n :: real)\<rfloor> < 53" by (simp only: powi2_less_iff)
  then have e: "flexp (of_int n) \<le> 0"
    using assms by (simp add: flexp_def)
  define e' where "e' = flexp (of_int n)"
  have "(of_int n :: real) = of_int (n * 2 ^ nat (- e')) * 2 powi e'"
    using e by (simp add: powi2_neg_nat e'_def)
  then show ?thesis unfolding e'_def by (rule rnd_grid_exact)
qed

lemma rnd_of_int: "\<bar>n\<bar> \<le> 2 ^ 53 \<Longrightarrow> rnd (of_int n) = of_int n"
  using rnd_of_nat_int [of n] rnd_of_nat_int [of "- n"] rnd_neg [of "of_int n"]
  by (cases "0 < n"; cases "n = 0") auto

lemma rnd_relative_error:
  assumes x: "2 powi (- 1022) \<le> \<bar>x\<bar>"
  shows "\<bar>rnd x - x\<bar> \<le> \<bar>x\<bar> * 2 powi (- 53)"
proof -
  define L where "L = \<lfloor>log 2 \<bar>x\<bar>\<rfloor>"
  have x0: "0 < \<bar>x\<bar>" using x powi2_pos [of "- 1022"] by linarith
  have "2 powi (- 1022) < (2::real) powi (L + 1)"
    using x log2_bounds(2) [OF x0] by (simp add: L_def)
  then have "- 1022 < L + 1" by (simp only: powi2_less_iff)
  then have e: "flexp x = L - 52" by (simp add: flexp_def flip: L_def)
  have "\<bar>rnd x - x\<bar> = \<bar>(of_int (rne (x / 2 powi flexp x)) - x / 2 powi flexp x) * 2 powi flexp x\<bar>"
    unfolding rnd_eq by (simp add: left_diff_distrib)
  also have "\<dots> = \<bar>of_int (rne (x / 2 powi flexp x)) - x / 2 powi flexp x\<bar> * 2 powi flexp x"
    by (simp add: abs_mult)
  also have "\<dots> \<le> 1 / 2 * 2 powi flexp x"
    by (intro mult_right_mono rne_error) simp
  also have "1 / 2 * 2 powi flexp x = 2 powi L * (2::real) powi (- 53)"
  proof -
    have "1 / 2 * 2 powi (L - 52) = (2::real) powi (L - 53)"
      using powi2_add [of "L - 53" 1] by simp
    also have "\<dots> = 2 powi L * 2 powi (- 53)"
      using powi2_add [of L "- 53"] by (simp only: diff_conv_add_uminus)
    finally show ?thesis unfolding e .
  qed
  also have "\<dots> \<le> \<bar>x\<bar> * 2 powi (- 53)"
    using log2_bounds(1) [OF x0] by (intro mult_right_mono) (auto simp: L_def)
  finally show ?thesis .
qed

lemma rnd_pow2:
  assumes "- 1022 \<le> k"
  shows "rnd (2 powi k) = 2 powi k"
proof -
  have "\<lfloor>log 2 ((2::real) powi k)\<rfloor> = k" by (subst log2_floor_iff) (simp_all add: powi2_less_iff)
  then have "flexp (2 powi k) = k - 52" using assms by (simp add: flexp_def)
  then show ?thesis
    using powi2_grid [of "k - 52" k] by (intro rnd_grid_exact [where m = "2 ^ 52"]) simp
qed

lemma rnd_abs_bound:
  assumes "\<bar>x\<bar> \<le> 2 ^ k"
  shows "\<bar>rnd x\<bar> \<le> 2 ^ k"
proof -
  have k: "rnd (2 ^ k) = 2 ^ k" using rnd_pow2 [of "int k"] by (simp add: powi2_of_nat)
  have "rnd x \<le> 2 ^ k" using rnd_mono [of x "2 ^ k"] assms k by simp
  moreover have "- (2 ^ k) \<le> rnd x"
    using rnd_mono [of "- (2 ^ k)" x] assms k rnd_neg [of "2 ^ k"] by simp
  ultimately show ?thesis by simp
qed

lemma flexp_normal:
  assumes "2 powi (- 1022) \<le> x"
  shows "flexp x = \<lfloor>log 2 x\<rfloor> - 52" and "- 1022 \<le> \<lfloor>log 2 x\<rfloor>" and "0 < x"
proof -
  show x0: "0 < x" using assms powi2_pos [of "- 1022"] by linarith
  have "2 powi (- 1022) < (2::real) powi (\<lfloor>log 2 x\<rfloor> + 1)"
    using assms log2_bounds(2) [OF x0] by simp
  then have "- 1022 < \<lfloor>log 2 x\<rfloor> + 1" by (simp only: powi2_less_iff)
  then show l: "- 1022 \<le> \<lfloor>log 2 x\<rfloor>" by linarith
  then have "- 1074 \<le> \<lfloor>log 2 x\<rfloor> - 52" by linarith
  then show "flexp x = \<lfloor>log 2 x\<rfloor> - 52"
    unfolding flexp_def abs_of_pos [OF x0] by (rule max_absorb1)
qed

lemma rnd_idem:
  assumes x: "2 powi (- 1022) \<le> x"
  shows "rnd (rnd x) = rnd x"
proof -
  define L where "L = \<lfloor>log 2 x\<rfloor>"
  note f = flexp_normal [OF x, folded L_def]
  have lo: "2 powi L \<le> rnd x"
    using rnd_mono [OF log2_bounds(1) [OF f(3), folded L_def]] rnd_pow2 [OF f(2)] by simp
  have hi: "rnd x \<le> 2 powi (L + 1)"
    using rnd_mono [of x "2 powi (L + 1)"] log2_bounds(2) [OF f(3), folded L_def] rnd_pow2 [of "L + 1"] f(2) by simp
  show ?thesis
  proof (cases "rnd x = 2 powi (L + 1)")
    case True
    then show ?thesis using rnd_pow2 [of "L + 1"] f(2) by simp
  next
    case False
    have pos: "0 < rnd x" using lo powi2_pos [of L] by linarith
    then have "\<lfloor>log 2 (rnd x)\<rfloor> = L" using lo hi False by (subst log2_floor_iff) auto
    then have "flexp (rnd x) = flexp x" using f(1,2) pos unfolding f(1) by (simp add: flexp_def)
    moreover have "rnd x = of_int (rne (x / 2 powi flexp x)) * 2 powi flexp x" by (rule rnd_eq)
    ultimately show ?thesis by (metis rnd_grid_exact)
  qed
qed

lemma rnd_half_scale:
  assumes x: "2 powi (int k - 1022) \<le> x"
  shows "rnd (x / 2 ^ k) = rnd x / 2 ^ k"
proof -
  have pk: "(2::real) powi (int k) = 2 ^ k" by simp
  have "(2::real) powi (- 1022) * 2 ^ k = 2 powi (int k - 1022)"
    using powi2_add [of "- 1022" "int k"] pk by (simp only: add.commute diff_conv_add_uminus)
  then have n: "2 powi (- 1022) \<le> x / 2 ^ k" using x by (simp add: pos_le_divide_eq)
  have "(2::real) powi (- 1022) \<le> 2 powi (int k - 1022)" by (intro powi2_mono) simp
  then have n': "2 powi (- 1022) \<le> x" using x by linarith
  have "log 2 (x / 2 ^ k) = log 2 x - real k"
    using flexp_normal(3) [OF n'] by (simp add: log_divide log_nat_power)
  then have "\<lfloor>log 2 (x / 2 ^ k)\<rfloor> = \<lfloor>log 2 x\<rfloor> - int k"
    by (metis floor_diff_of_int of_int_of_nat_eq)
  then have e: "flexp (x / 2 ^ k) = flexp x - int k"
    using flexp_normal(1) [OF n] flexp_normal(1) [OF n'] by simp
  have p: "(2::real) powi (flexp x - int k) = 2 powi flexp x / 2 ^ k"
    using powi2_add [of "flexp x - int k" "int k"] pk by simp
  show ?thesis
    unfolding rnd_eq [of "x / 2 ^ k"] rnd_eq [of x] e p by simp
qed

section \<open>The float64 type and its operations\<close>

datatype float64 = Fin int int | PosInf | NegInf | NaN

definition round64 :: "int \<Rightarrow> int \<Rightarrow> float64" where
  "round64 p q = (case round_frac p q of (a, b) \<Rightarrow>
     if b * 2 ^ 1024 \<le> \<bar>a\<bar> then (if p < 0 then NegInf else PosInf) else Fin a b)"

definition f_of_int :: "int \<Rightarrow> float64" where
  "f_of_int n = round64 n 1"

fun f_neg :: "float64 \<Rightarrow> float64" where
  "f_neg (Fin p q) = Fin (- p) q"
| "f_neg PosInf = NegInf"
| "f_neg NegInf = PosInf"
| "f_neg NaN = NaN"

fun f_add :: "float64 \<Rightarrow> float64 \<Rightarrow> float64" where
  "f_add (Fin p q) (Fin p' q') = round64 (p * q' + p' * q) (q * q')"
| "f_add NaN _ = NaN"
| "f_add _ NaN = NaN"
| "f_add PosInf NegInf = NaN"
| "f_add NegInf PosInf = NaN"
| "f_add PosInf _ = PosInf"
| "f_add _ PosInf = PosInf"
| "f_add NegInf _ = NegInf"
| "f_add _ NegInf = NegInf"

definition f_sub :: "float64 \<Rightarrow> float64 \<Rightarrow> float64" where
  "f_sub x y = f_add x (f_neg y)"

definition f_inf :: "int \<Rightarrow> float64" where
  "f_inf s = (if s = 0 then NaN else if s < 0 then NegInf else PosInf)"

fun f_sgn :: "float64 \<Rightarrow> int" where
  "f_sgn (Fin p q) = sgn p"
| "f_sgn PosInf = 1"
| "f_sgn NegInf = - 1"
| "f_sgn NaN = 0"

fun f_mul :: "float64 \<Rightarrow> float64 \<Rightarrow> float64" where
  "f_mul (Fin p q) (Fin p' q') = round64 (p * p') (q * q')"
| "f_mul x y = f_inf (f_sgn x * f_sgn y)"

fun f_div :: "float64 \<Rightarrow> float64 \<Rightarrow> float64" where
  "f_div (Fin p q) (Fin p' q') =
     (if p' = 0 then f_inf (sgn p)
      else round64 (sgn p' * p * q') (q * \<bar>p'\<bar>))"
| "f_div NaN _ = NaN"
| "f_div _ NaN = NaN"
| "f_div (Fin _ _) _ = Fin 0 1"
| "f_div x (Fin p' q') = f_inf (f_sgn x * (if p' < 0 then - 1 else 1))"
| "f_div _ _ = NaN"

fun f_less :: "float64 \<Rightarrow> float64 \<Rightarrow> bool" where
  "f_less (Fin p q) (Fin p' q') = (p * q' < p' * q)"
| "f_less NaN _ = False"
| "f_less _ NaN = False"
| "f_less PosInf _ = False"
| "f_less _ PosInf = True"
| "f_less _ NegInf = False"
| "f_less NegInf _ = True"

fun f_le :: "float64 \<Rightarrow> float64 \<Rightarrow> bool" where
  "f_le (Fin p q) (Fin p' q') = (p * q' \<le> p' * q)"
| "f_le NaN _ = False"
| "f_le _ NaN = False"
| "f_le _ PosInf = True"
| "f_le PosInf _ = False"
| "f_le NegInf _ = True"
| "f_le _ NegInf = False"

fun f_ceil :: "float64 \<Rightarrow> float64" where
  "f_ceil (Fin p q) = Fin (- ((- p) div q)) 1"
| "f_ceil x = x"

fun f_to_int64 :: "(float64 \<Rightarrow> int) \<Rightarrow> float64 \<Rightarrow> int" where
  "f_to_int64 oor (Fin p q) =
     (let t = (if 0 \<le> p then p div q else - ((- p) div q))
      in if in64 t then t else oor (Fin p q))"
| "f_to_int64 oor x = oor x"

text \<open>\<open>f64_is f x\<close>: the float \<open>f\<close> is finite and its value is \<open>x\<close>.\<close>

fun f64_is :: "float64 \<Rightarrow> real \<Rightarrow> bool" where
  "f64_is (Fin p q) x \<longleftrightarrow> 0 < q \<and> of_int p / of_int q = x"
| "f64_is _ _ \<longleftrightarrow> False"

lemma f64_isE:
  assumes "f64_is f x"
  obtains p q where "f = Fin p q" and "0 < q" and "x = of_int p / of_int q"
  using assms by (cases f) auto

lemma f64_is_round64:
  assumes q: "0 < q" and b: "\<bar>rnd (of_int p / of_int q)\<bar> < 2 ^ 1024"
  shows "f64_is (round64 p q) (rnd (of_int p / of_int q))"
proof -
  obtain a b' where r: "round_frac p q = (a, b')" by (cases "round_frac p q")
  have b0: "0 < b'" using round_frac_snd_pos [of p q] r by simp
  have v: "(of_int a / of_int b' :: real) = rnd (of_int p / of_int q)"
    by (rule round_frac_val [OF q r])
  have "\<bar>of_int a\<bar> < (of_int b' :: real) * 2 ^ 1024"
    using b b0 unfolding v [symmetric] by (simp add: divide_less_eq mult.commute)
  then have "(of_int \<bar>a\<bar> :: real) < of_int (b' * 2 ^ 1024)" by simp
  then have "\<bar>a\<bar> < b' * 2 ^ 1024" by (simp only: of_int_less_iff)
  then show ?thesis using v b0 by (simp add: round64_def r)
qed

lemma f64_is_of_int:
  assumes "\<bar>n\<bar> \<le> 2 ^ 63"
  shows "f64_is (f_of_int n) (rnd (of_int n))"
proof -
  have "(of_int \<bar>n\<bar> :: real) \<le> of_int (2 ^ 63)" using assms by (simp only: of_int_le_iff)
  then have "\<bar>rnd (of_int n)\<bar> \<le> 2 ^ 63" by (intro rnd_abs_bound) simp
  also have "\<dots> < (2::real) ^ 1024" by (intro power_strict_increasing) auto
  finally show ?thesis using f64_is_round64 [of 1 n] by (simp add: f_of_int_def)
qed

lemma f64_is_neg: "f64_is f x \<Longrightarrow> f64_is (f_neg f) (- x)"
  by (auto elim!: f64_isE)

lemma f64_is_add:
  assumes f: "f64_is f x" and g: "f64_is g y" and b: "\<bar>rnd (x + y)\<bar> < 2 ^ 1024"
  shows "f64_is (f_add f g) (rnd (x + y))"
proof -
  from f obtain p q where p: "f = Fin p q" "0 < q" "x = of_int p / of_int q" by (rule f64_isE)
  from g obtain p' q' where p': "g = Fin p' q'" "0 < q'" "y = of_int p' / of_int q'" by (rule f64_isE)
  have "of_int (p * q' + p' * q) / of_int (q * q') = x + y"
    using p p' by (simp add: field_simps)
  with f64_is_round64 [of "q * q'" "p * q' + p' * q"] b p p' show ?thesis by simp
qed

lemma f64_is_sub:
  assumes "f64_is f x" and "f64_is g y" and "\<bar>rnd (x - y)\<bar> < 2 ^ 1024"
  shows "f64_is (f_sub f g) (rnd (x - y))"
  using f64_is_add [OF assms(1) f64_is_neg [OF assms(2)]] assms(3) by (simp add: f_sub_def)

lemma f64_is_mul:
  assumes f: "f64_is f x" and g: "f64_is g y" and b: "\<bar>rnd (x * y)\<bar> < 2 ^ 1024"
  shows "f64_is (f_mul f g) (rnd (x * y))"
proof -
  from f obtain p q where p: "f = Fin p q" "0 < q" "x = of_int p / of_int q" by (rule f64_isE)
  from g obtain p' q' where p': "g = Fin p' q'" "0 < q'" "y = of_int p' / of_int q'" by (rule f64_isE)
  have "of_int (p * p') / of_int (q * q') = x * y" using p p' by simp
  with f64_is_round64 [of "q * q'" "p * p'"] b p p' show ?thesis by simp
qed

lemma f64_is_div:
  assumes f: "f64_is f x" and g: "f64_is g y" and y: "0 < y" and b: "\<bar>rnd (x / y)\<bar> < 2 ^ 1024"
  shows "f64_is (f_div f g) (rnd (x / y))"
proof -
  from f obtain p q where p: "f = Fin p q" "0 < q" "x = of_int p / of_int q" by (rule f64_isE)
  from g obtain p' q' where p': "g = Fin p' q'" "0 < q'" "y = of_int p' / of_int q'" by (rule f64_isE)
  have p0: "0 < p'" using y p' by (simp add: zero_less_divide_iff)
  have "of_int (p * q') / of_int (q * p') = x / y" using p p' p0 by simp
  with f64_is_round64 [of "q * p'" "p * q'"] b p p' p0 show ?thesis by simp
qed

lemma f64_is_less:
  assumes f: "f64_is f x" and g: "f64_is g y"
  shows "f_less f g \<longleftrightarrow> x < y"
proof -
  from f obtain p q where p: "f = Fin p q" "0 < q" "x = of_int p / of_int q" by (rule f64_isE)
  from g obtain p' q' where p': "g = Fin p' q'" "0 < q'" "y = of_int p' / of_int q'" by (rule f64_isE)
  have "x < y \<longleftrightarrow> (of_int (p * q') :: real) < of_int (p' * q)"
    unfolding p(3) p'(3) using p(2) p'(2) by (simp add: field_simps)
  then show ?thesis using p p' by (simp only: of_int_less_iff f_less.simps)
qed

lemma f64_is_ceil: "f64_is f x \<Longrightarrow> f64_is (f_ceil f) (of_int \<lceil>x\<rceil>)"
  by (elim f64_isE) (simp add: ceiling_divide_eq_div)

lemma f_to_int64_floor:
  assumes f: "f64_is f x" and x: "0 \<le> x" "x < 2 ^ 63"
  shows "f_to_int64 oor f = \<lfloor>x\<rfloor>"
proof -
  from f obtain p q where p: "f = Fin p q" "0 < q" "x = of_int p / of_int q" by (rule f64_isE)
  have p0: "0 \<le> p" using x p by (simp add: zero_le_divide_iff)
  have fl: "\<lfloor>x\<rfloor> = p div q" using p by (simp add: floor_divide_of_int_eq)
  have "0 \<le> \<lfloor>x\<rfloor>" using x by simp
  moreover have "\<lfloor>x\<rfloor> < 2 ^ 63" using x by (simp add: floor_less_iff)
  ultimately have r: "in64 (p div q)"
    unfolding fl in64_iff by linarith
  show ?thesis using p0 r by (simp add: p(1) fl Let_def)
qed

text \<open>The same conversion of a float that is already an integer, as \<^verbatim>\<open>math.Ceil\<close> returns.\<close>

lemma f_to_int64_of_int:
  assumes "f64_is f (of_int n)" and "0 \<le> n" and "n < 2 ^ 63"
  shows "f_to_int64 oor f = n"
proof -
  have "(of_int n :: real) < of_int (2 ^ 63)" using assms(3) by (simp only: of_int_less_iff)
  with f_to_int64_floor [OF assms(1)] assms(2) show ?thesis by simp
qed

section \<open>What the client code relies on, as an interface\<close>

locale rounding =
  fixes r :: "real \<Rightarrow> real"
  assumes r_mono: "x \<le> y \<Longrightarrow> r x \<le> r y"
    and r_int: "\<bar>n\<bar> \<le> 2 ^ 53 \<Longrightarrow> r (of_int n) = of_int n"
    and r_error: "2 powi (- 1022) \<le> \<bar>x\<bar> \<Longrightarrow> \<bar>r x - x\<bar> \<le> \<bar>x\<bar> * 2 powi (- 53)"
begin

lemma r_0: "r 0 = 0"
  using r_int [of 0] by simp

lemma r_1: "r 1 = 1"
  using r_int [of 1] by simp

lemma r_ge_0: "0 \<le> x \<Longrightarrow> 0 \<le> r x"
  using r_mono [of 0 x] r_0 by simp

lemma r_ge_1: "1 \<le> x \<Longrightarrow> 1 \<le> r x"
  using r_mono [of 1 x] r_1 by simp

text \<open>Scaling an exactly converted integer by a factor of at least one never lowers it.\<close>

lemma scale_up_ge:
  assumes "0 \<le> n" and "n \<le> 2 ^ 53" and "1 \<le> c"
  shows "of_int n \<le> r (r (of_int n) * c)"
proof -
  have n: "r (of_int n) = of_int n" using assms by (intro r_int) simp
  have "of_int n \<le> of_int n * c" using assms by (simp add: mult_le_cancel_left1)
  from r_mono [OF this] show ?thesis by (simp add: n)
qed

lemma scale_mono:
  assumes "m \<le> n" and "0 \<le> c"
  shows "r (r (of_int m) * c) \<le> r (r (of_int n) * c)"
  using assms by (intro r_mono mult_right_mono) simp_all

lemma scale_down_le:
  assumes "0 \<le> n" and "n \<le> 2 ^ 53" and "c \<le> 1"
  shows "r (r (of_int n) * c) \<le> of_int n"
proof -
  have n: "r (of_int n) = of_int n" using assms by (intro r_int) simp
  have "of_int n * c \<le> of_int n" using assms by (simp add: mult_le_cancel_left2)
  from r_mono [OF this] show ?thesis by (simp add: n)
qed

text \<open>
  Rounding a quotient up to a whole number never loses the remainder, as long as the dividend
  is below \<open>2\<^sup>5\<^sup>3\<close>: the division's rounding error is then smaller than one part of the divisor.
\<close>

lemma ceil_div_ge:
  assumes n: "0 \<le> n" "n < 2 ^ 53" and d: "0 < d" "d \<le> 2 ^ 53"
  shows "n \<le> d * \<lceil>r (r (of_int n) / of_int d)\<rceil>"
proof (rule ccontr)
  let ?x = "of_int n / of_int d :: real"
  define k where "k = \<lceil>r (r (of_int n) / of_int d)\<rceil>"
  assume "\<not> n \<le> d * \<lceil>r (r (of_int n) / of_int d)\<rceil>"
  then have dk: "d * k + 1 \<le> n" by (simp add: k_def)
  have rn: "r (of_int n) = of_int n" using n by (intro r_int) simp
  have le: "r ?x \<le> of_int k" by (simp add: k_def rn)
  have "0 \<le> k"
    using le r_ge_0 [of ?x] n d by (simp add: zero_le_divide_iff)
  with d have "0 \<le> d * k" by simp
  with dk have n1: "1 \<le> n" by linarith
  have d': "(of_int d :: real) \<le> of_int (2 ^ 53)" using d by (simp only: of_int_le_iff)
  have n': "(of_int n :: real) < of_int (2 ^ 53)" using n by (simp only: of_int_less_iff)
  have "1 / (2::real) ^ 1022 \<le> 1 / 2 ^ 53"
    by (intro divide_left_mono power_increasing) auto
  also have "\<dots> \<le> 1 / of_int d"
    using d d' by (intro divide_left_mono) auto
  also have "\<dots> \<le> ?x" using n1 d by (intro divide_right_mono) auto
  finally have x: "2 powi (- 1022) \<le> \<bar>?x\<bar>" using n1 d by (simp add: powi2_neg_nat)
  have "?x - of_int k \<le> \<bar>?x\<bar> * 2 powi (- 53)" using r_error [OF x] le by linarith
  then have "?x - of_int k \<le> ?x * 2 powi (- 53)" using n1 d by (simp add: abs_of_pos)
  then have "of_int d * (?x - of_int k) \<le> of_int d * (?x * 2 powi (- 53))"
    using d by (intro mult_left_mono) auto
  then have "of_int n - of_int d * of_int k \<le> of_int n * (2::real) powi (- 53)"
    using d by (simp add: right_diff_distrib)
  moreover have "(1::real) \<le> of_int n - of_int d * of_int k"
  proof -
    have "of_int 1 \<le> (of_int (n - d * k) :: real)" using dk by (simp only: of_int_le_iff)
    then show ?thesis by simp
  qed
  moreover have "of_int n * (2::real) powi (- 53) < 1"
    using n' by (simp add: powi2_neg_nat)
  ultimately show False by linarith
qed

end

interpretation b64: rounding rnd
proof unfold_locales
  show "rnd x \<le> rnd y" if "x \<le> y" for x y using that by (rule rnd_mono)
  show "rnd (of_int n) = of_int n" if "\<bar>n\<bar> \<le> 2 ^ 53" for n using that by (rule rnd_of_int)
  show "\<bar>rnd x - x\<bar> \<le> \<bar>x\<bar> * 2 powi (- 53)" if "2 powi (- 1022) \<le> \<bar>x\<bar>" for x
    using that by (rule rnd_relative_error)
qed

section \<open>Reading a float: strconv.ParseFloat\<close>

text \<open>
  The grammar of \<^verbatim>\<open>strconv.ParseFloat\<close>: an optional sign, then a decimal or (after
  \<^verbatim>\<open>0x\<close>) hexadecimal mantissa with an optional point and exponent, single underscores
  between digits; or \<^verbatim>\<open>inf\<close>, \<^verbatim>\<open>infinity\<close> (signed) and \<^verbatim>\<open>nan\<close>, in any case.
  A value beyond the largest float is a range error, so no finite literal yields an infinity.
\<close>

definition hex_val :: "char \<Rightarrow> nat option" where
  "hex_val c = (case digit_val c of Some d \<Rightarrow> Some d | None \<Rightarrow>
     let n = of_char (lower_byte c) in if 97 \<le> n \<and> n \<le> 102 then Some (n - 87) else None)"

fun underscores_ok :: "bool \<Rightarrow> char \<Rightarrow> string \<Rightarrow> bool" where
  "underscores_ok hex prev [] \<longleftrightarrow> prev \<noteq> CHR ''_''"
| "underscores_ok hex prev (c # s) \<longleftrightarrow>
     (if digit_val c \<noteq> None \<or> hex \<and> hex_val c \<noteq> None then underscores_ok hex CHR ''0'' s
      else if c = CHR ''_'' then prev = CHR ''0'' \<and> underscores_ok hex CHR ''_'' s
      else prev \<noteq> CHR ''_'' \<and> underscores_ok hex CHR ''!'' s)"

text \<open>Digits of a mantissa: its value, how many digits were read, the rest.\<close>

fun read_mant :: "(char \<Rightarrow> nat option) \<Rightarrow> nat \<Rightarrow> nat \<Rightarrow> nat \<Rightarrow> string \<Rightarrow> nat \<times> nat \<times> string" where
  "read_mant dv b acc k [] = (acc, k, [])"
| "read_mant dv b acc k (c # s) = (case dv c of
     None \<Rightarrow> (acc, k, c # s) | Some d \<Rightarrow> read_mant dv b (b * acc + d) (Suc k) s)"

text \<open>The mantissa \<open>m \<cdot> b\<^sup>-\<^sup>f\<close>: \<open>(m, f, rest)\<close>, \<open>None\<close> without any digit.\<close>

definition read_point :: "(char \<Rightarrow> nat option) \<Rightarrow> nat \<Rightarrow> string \<Rightarrow> (nat \<times> nat \<times> string) option" where
  "read_point dv b s = (case read_mant dv b 0 0 s of (m, k, r) \<Rightarrow>
     if r \<noteq> [] \<and> hd r = CHR ''.'' then
       (case read_mant dv b m 0 (tl r) of (m', f, r'') \<Rightarrow>
          if k + f = 0 then None else Some (m', f, r''))
     else if k = 0 then None else Some (m, 0, r))"

definition read_exp :: "char \<Rightarrow> string \<Rightarrow> (int \<times> bool) option" where
  "read_exp e s = (case s of [] \<Rightarrow> Some (0, False)
     | c # r \<Rightarrow> if lower_byte c = e then
         (case read_sign r of (sg, r') \<Rightarrow>
           if is_digit r' then (case read_digits 0 r' of (n, r'') \<Rightarrow>
             if r'' = [] then Some (sg * int n, True) else None) else None)
       else None)"

definition scale_frac :: "nat \<Rightarrow> int \<Rightarrow> nat \<Rightarrow> int \<Rightarrow> int \<times> int" where
  "scale_frac b m f e = (let k = e - int f in
     if 0 \<le> k then (m * int b ^ nat k, 1) else (m, int b ^ nat (- k)))"

definition finite_or_range :: "float64 \<Rightarrow> float64 option" where
  "finite_or_range x = (case x of Fin _ _ \<Rightarrow> Some x | _ \<Rightarrow> None)"

definition parse_decimal :: "int \<Rightarrow> string \<Rightarrow> float64 option" where
  "parse_decimal sg s = do {
     (m, f, r) \<leftarrow> read_point digit_val 10 s;
     (e, _) \<leftarrow> read_exp CHR ''e'' r;
     let (p, q) = scale_frac 10 (sg * int m) f e;
     finite_or_range (round64 p q)
   }"

definition parse_hex :: "int \<Rightarrow> string \<Rightarrow> float64 option" where
  "parse_hex sg s = do {
     (m, f, r) \<leftarrow> read_point hex_val 16 s;
     (e, given) \<leftarrow> read_exp CHR ''p'' r;
     let (p, q) = scale_frac 2 (sg * int m) (4 * f) e;
     (if given then finite_or_range (round64 p q) else None)
   }"

definition ParseFloat :: "string \<Rightarrow> float64 option" where
  "ParseFloat s = (case read_sign s of (sg, r) \<Rightarrow>
     let l = map lower_byte r in
     if l = ''inf'' \<or> l = ''infinity'' then Some (if sg < 0 then NegInf else PosInf)
     else if map lower_byte s = ''nan'' then Some NaN
     else let hex = (take 2 l = ''0x'') in
       if underscores_ok hex (if hex then CHR ''0'' else CHR ''^'') (if hex then drop 2 r else r)
       then (if hex then parse_hex sg (filter (\<lambda>c. c \<noteq> CHR ''_'') (drop 2 r))
             else parse_decimal sg (filter (\<lambda>c. c \<noteq> CHR ''_'') r))
       else None)"

lemmas f64_eval = round64_def round_frac_def frac_exponent_def frac_log2_def blen.simps rne_div_def
  f_of_int_def f_sub_def f_inf_def

lemmas parse_float_eval = ParseFloat_def parse_decimal_def parse_hex_def hex_val_def read_point_def
  read_exp_def scale_frac_def finite_or_range_def

end
