(* ===== verification/Go_Time.thy ===== *)
theory Go_Time
  imports Go_Float
begin

text \<open>
  Go's \<^verbatim>\<open>time\<close> package, as far as the source uses it. An instant (\<^verbatim>\<open>time.Time\<close>) is the
  number of nanoseconds since the Unix epoch, a \<^verbatim>\<open>time.Duration\<close> a number of nanoseconds in
  the range of \<^verbatim>\<open>int64\<close>. Dates are those of the proleptic Gregorian calendar in UTC.
\<close>

type_synonym time = int
type_synonym duration = int

definition second :: duration where "second = 1000000000"
definition minute :: duration where "minute = 60 * second"
definition hour :: duration where "hour = 60 * minute"
definition day :: duration where "day = 24 * hour"

lemmas time_units = second_def minute_def hour_def day_def

text \<open>The zero \<^verbatim>\<open>time.Time\<close> is January 1 of year 1.\<close>

definition zero_time :: time where "zero_time = - 62135596800 * second"

definition IsZero :: "time \<Rightarrow> bool" where "IsZero t \<longleftrightarrow> t = zero_time"

text \<open>\<^verbatim>\<open>t.Sub(u)\<close> saturates at the ends of the duration range.\<close>

definition Sub :: "time \<Rightarrow> time \<Rightarrow> duration" where
  "Sub t u = max int64_min (min int64_max (t - u))"

text \<open>\<^verbatim>\<open>d.Truncate(m)\<close> rounds towards zero.\<close>

definition Truncate :: "duration \<Rightarrow> duration \<Rightarrow> duration" where
  "Truncate d m = (if m \<le> 0 then d else sgn d * (\<bar>d\<bar> - \<bar>d\<bar> mod m))"

section \<open>The calendar\<close>

definition day_number :: "time \<Rightarrow> int" where "day_number t = t div day"

text \<open>
  Years start in March, so that the leap day is the last day of its year, and four-hundred-year
  cycles start on a March 1.
\<close>

definition civil_of_days :: "int \<Rightarrow> int \<times> int \<times> int" where
  "civil_of_days n = (let
      z = n + 719468; c400 = z div 146097; d = z mod 146097;
      c100 = min 3 (d div 36524); d1 = d - 36524 * c100;
      c4 = d1 div 1461; d2 = d1 - 1461 * c4;
      c1 = min 3 (d2 div 365); d3 = d2 - 365 * c1;
      mp = (5 * d3 + 2) div 153;
      mi = 12 * (400 * c400 + 100 * c100 + 4 * c4 + c1) + mp + 2
    in (mi div 12, mi mod 12 + 1, d3 - (153 * mp + 2) div 5 + 1))"

definition days_of_civil :: "int \<Rightarrow> int \<Rightarrow> int \<Rightarrow> int" where
  "days_of_civil y m d = (let mi = 12 * y + m - 3; y' = mi div 12; mp = mi mod 12
     in 365 * y' + y' div 4 - y' div 100 + y' div 400 + (153 * mp + 2) div 5 + d - 1 - 719468)"

definition is_leap :: "int \<Rightarrow> bool" where
  "is_leap y \<longleftrightarrow> y mod 4 = 0 \<and> (y mod 100 \<noteq> 0 \<or> y mod 400 = 0)"

definition days_in :: "int \<Rightarrow> int \<Rightarrow> int" where
  "days_in m y = (if m = 2 then (if is_leap y then 29 else 28)
     else if m = 4 \<or> m = 6 \<or> m = 9 \<or> m = 11 then 30 else 31)"

text \<open>
  A day of the four-hundred-year cycle, taken apart: the fields of \<^const>\<open>civil_of_days\<close> and
  what bounds them.
\<close>

lemma cycle_fields:
  fixes n :: int
  defines "z \<equiv> n + 719468"
  obtains c400 c100 c4 c1 d3 where
    "z = 146097 * c400 + 36524 * c100 + 1461 * c4 + 365 * c1 + d3"
    and "0 \<le> c100" "c100 \<le> 3" "0 \<le> c4" "c4 \<le> 24" "0 \<le> c1" "c1 \<le> 3" "0 \<le> d3" "d3 \<le> 365"
    and "d3 = 365 \<longrightarrow> c1 = 3 \<and> (c4 < 24 \<or> c100 = 3)"
    and "civil_of_days n = (let mp = (5 * d3 + 2) div 153;
           mi = 12 * (400 * c400 + 100 * c100 + 4 * c4 + c1) + mp + 2
         in (mi div 12, mi mod 12 + 1, d3 - (153 * mp + 2) div 5 + 1))"
proof -
  define c400 where "c400 = z div 146097"
  define d where "d = z mod 146097"
  define c100 where "c100 = min 3 (d div 36524)"
  define d1 where "d1 = d - 36524 * c100"
  define c4 where "c4 = d1 div 1461"
  define d2 where "d2 = d1 - 1461 * c4"
  define c1 where "c1 = min 3 (d2 div 365)"
  define d3 where "d3 = d2 - 365 * c1"
  have z: "z = 146097 * c400 + d" by (simp add: c400_def d_def)
  have d: "0 \<le> d" "d < 146097" by (simp_all add: d_def)
  have c100: "0 \<le> c100" "c100 \<le> 3" using d by (simp_all add: c100_def)
  have d1: "0 \<le> d1" "d1 \<le> 36524" "d1 = 36524 \<longrightarrow> c100 = 3"
    using d by (auto simp: d1_def c100_def min_def)
  have c4: "0 \<le> c4" "c4 \<le> 24" using d1 by (auto simp: c4_def)
  have d2: "0 \<le> d2" "d2 \<le> 1460" "d2 = 1460 \<longrightarrow> c4 < 24 \<or> c100 = 3"
    using d1 by (auto simp: d2_def c4_def)
  have c1: "0 \<le> c1" "c1 \<le> 3" using d2 by (simp_all add: c1_def)
  have d3: "0 \<le> d3" "d3 \<le> 365" "d3 = 365 \<longrightarrow> c1 = 3 \<and> d2 = 1460"
    using d2 by (auto simp: d3_def c1_def min_def)
  show thesis
  proof (rule that [of c400 c100 c4 c1 d3])
    show "z = 146097 * c400 + 36524 * c100 + 1461 * c4 + 365 * c1 + d3"
      using z by (simp add: d1_def d2_def d3_def)
    show "d3 = 365 \<longrightarrow> c1 = 3 \<and> (c4 < 24 \<or> c100 = 3)" using d3 d2 by auto
    show "civil_of_days n = (let mp = (5 * d3 + 2) div 153;
           mi = 12 * (400 * c400 + 100 * c100 + 4 * c4 + c1) + mp + 2
         in (mi div 12, mi mod 12 + 1, d3 - (153 * mp + 2) div 5 + 1))"
      unfolding civil_of_days_def Let_def d3_def c1_def d2_def c4_def d1_def c100_def d_def c400_def z_def ..
  qed (use c100 c4 c1 d3 in auto)
qed

lemma year_cycle_div:
  fixes c400 :: int
  assumes "0 \<le> c100" "c100 \<le> 3" "0 \<le> c4" "c4 \<le> 24" "0 \<le> c1" "c1 \<le> 3"
  defines "y \<equiv> 400 * c400 + 100 * c100 + 4 * c4 + c1"
  shows "y div 4 = 100 * c400 + 25 * c100 + c4" "y div 100 = 4 * c400 + c100" "y div 400 = c400"
  using assms unfolding y_def by linarith+

lemma month_split:
  fixes mp :: int
  assumes "0 \<le> d3" "d3 \<le> (365::int)"
  defines "mp \<equiv> (5 * d3 + 2) div 153"
  shows "0 \<le> mp" "mp \<le> 11" "1 \<le> d3 - (153 * mp + 2) div 5 + 1"
    "d3 - (153 * mp + 2) div 5 + 1 \<le> (if mp = 11 then (if d3 = 365 then 29 else 28)
       else if mp = 1 \<or> mp = 3 \<or> mp = 6 \<or> mp = 8 then 30 else 31)"
proof -
  have lo: "153 * mp \<le> 5 * d3 + 2" and hi: "5 * d3 + 2 < 153 * mp + 153"
    unfolding mp_def by linarith+
  show mp: "0 \<le> mp" "mp \<le> 11" using assms(1,2) lo hi by linarith+
  then have cs: "mp = 0 \<or> mp = 1 \<or> mp = 2 \<or> mp = 3 \<or> mp = 4 \<or> mp = 5 \<or> mp = 6 \<or> mp = 7
    \<or> mp = 8 \<or> mp = 9 \<or> mp = 10 \<or> mp = 11" by arith
  from cs lo show "1 \<le> d3 - (153 * mp + 2) div 5 + 1" by (elim disjE) simp_all
  from cs hi assms(2) show "d3 - (153 * mp + 2) div 5 + 1 \<le> (if mp = 11 then (if d3 = 365 then 29 else 28)
       else if mp = 1 \<or> mp = 3 \<or> mp = 6 \<or> mp = 8 then 30 else 31)"
    by (elim disjE) simp_all
qed

lemma month_index:
  fixes y k :: int
  assumes "0 \<le> k" and "k \<le> 11"
  shows "(12 * y + k) div 12 = y" and "(12 * y + k) mod 12 = k"
  using assms by simp_all

lemma days_of_civil_march:
  assumes "12 * y + m - 3 = 12 * y' + mp" and "0 \<le> mp" and "mp \<le> 11"
  shows "days_of_civil y m d =
    365 * y' + y' div 4 - y' div 100 + y' div 400 + (153 * mp + 2) div 5 + d - 1 - 719468"
proof -
  show ?thesis
    unfolding days_of_civil_def Let_def assms(1) month_index [OF assms(2,3)] by simp
qed

lemma days_of_civil_of_days: "case civil_of_days n of (y, m, d) \<Rightarrow> days_of_civil y m d = n"
proof (rule cycle_fields [of n])
  fix c400 c100 c4 c1 d3
  assume z: "n + 719468 = 146097 * c400 + 36524 * c100 + 1461 * c4 + 365 * c1 + d3"
    and b: "0 \<le> c100" "c100 \<le> 3" "0 \<le> c4" "c4 \<le> 24" "0 \<le> c1" "c1 \<le> 3" "0 \<le> d3" "d3 \<le> (365::int)"
    and c: "civil_of_days n = (let mp = (5 * d3 + 2) div 153;
           mi = 12 * (400 * c400 + 100 * c100 + 4 * c4 + c1) + mp + 2
         in (mi div 12, mi mod 12 + 1, d3 - (153 * mp + 2) div 5 + 1))"
  define mp where "mp = (5 * d3 + 2) div 153"
  define y' where "y' = 400 * c400 + 100 * c100 + 4 * c4 + c1"
  define mi where "mi = 12 * y' + mp + 2"
  have mp: "0 \<le> mp" "mp \<le> 11" using month_split [OF b(7,8)] by (simp_all add: mp_def)
  have "12 * (mi div 12) + mi mod 12 = mi" by (rule mult_div_mod_eq)
  then have "12 * (mi div 12) + (mi mod 12 + 1) - 3 = 12 * y' + mp" by (simp add: mi_def)
  from days_of_civil_march [OF this mp]
  have "days_of_civil (mi div 12) (mi mod 12 + 1) (d3 - (153 * mp + 2) div 5 + 1)
      = 365 * y' + y' div 4 - y' div 100 + y' div 400 + d3 - 719468"
    by simp
  also have "\<dots> = n"
    unfolding y'_def year_cycle_div [OF b(1-6)] using z by simp
  finally show ?thesis
    unfolding c Let_def mp_def [symmetric] y'_def [symmetric] mi_def [symmetric] by simp
qed

lemma civil_of_days_valid:
  "case civil_of_days n of (y, m, d) \<Rightarrow> 1 \<le> m \<and> m \<le> 12 \<and> 1 \<le> d \<and> d \<le> days_in m y"
proof (rule cycle_fields [of n])
  fix c400 c100 c4 c1 d3
  assume b: "0 \<le> c100" "c100 \<le> 3" "0 \<le> c4" "c4 \<le> 24" "0 \<le> c1" "c1 \<le> 3" "0 \<le> d3" "d3 \<le> (365::int)"
    and leap: "d3 = 365 \<longrightarrow> c1 = 3 \<and> (c4 < 24 \<or> c100 = 3)"
    and c: "civil_of_days n = (let mp = (5 * d3 + 2) div 153;
           mi = 12 * (400 * c400 + 100 * c100 + 4 * c4 + c1) + mp + 2
         in (mi div 12, mi mod 12 + 1, d3 - (153 * mp + 2) div 5 + 1))"
  define mp where "mp = (5 * d3 + 2) div 153"
  define y' where "y' = 400 * c400 + 100 * c100 + 4 * c4 + c1"
  define mi where "mi = 12 * y' + mp + 2"
  note ms = month_split [OF b(7,8), folded mp_def]
  have lp: "is_leap (y' + 1)" if "d3 = 365"
  proof -
    from that leap have c1: "c1 = 3" and c: "c4 < 24 \<or> c100 = 3" by auto
    have y4: "y' + 1 = 4 * (100 * c400 + 25 * c100 + c4 + 1)"
      and y100: "y' + 1 = 4 * (c4 + 1) + 100 * (4 * c400 + c100)"
      by (simp_all add: y'_def c1)
    show ?thesis
    proof (cases "c4 < 24")
      case True
      have "(y' + 1) mod 100 = 4 * (c4 + 1)"
        unfolding y100 using b(3) True by (subst mod_mult_self2) simp
      with b(3) True show ?thesis by (simp add: is_leap_def y4)
    next
      case False
      with c b(4) have "y' + 1 = 400 * (c400 + 1)" using y100 by simp
      then show ?thesis by (simp add: is_leap_def)
    qed
  qed
  have m: "mi div 12 = (if mp \<le> 9 then y' else y' + 1)"
    "mi mod 12 + 1 = (if mp \<le> 9 then mp + 3 else mp - 9)"
  proof -
    have lo: "mi div 12 = y' \<and> mi mod 12 = mp + 2" if "mp \<le> 9"
    proof -
      have "mi = 12 * y' + (mp + 2)" by (simp add: mi_def)
      with month_index [of "mp + 2" y'] ms(1) that show ?thesis by simp
    qed
    have hi: "mi div 12 = y' + 1 \<and> mi mod 12 = mp - 10" if "\<not> mp \<le> 9"
    proof -
      have "mi = 12 * (y' + 1) + (mp - 10)" by (simp add: mi_def)
      with month_index [of "mp - 10" "y' + 1"] ms(2) that show ?thesis by simp
    qed
    show "mi div 12 = (if mp \<le> 9 then y' else y' + 1)"
      "mi mod 12 + 1 = (if mp \<le> 9 then mp + 3 else mp - 9)"
      using lo hi by auto
  qed
  have "d3 - (153 * mp + 2) div 5 + 1 \<le> days_in (mi mod 12 + 1) (mi div 12)"
    using ms(1,2,4) lp unfolding m days_in_def by (auto split: if_splits)
  then show ?thesis
    unfolding c Let_def mp_def [symmetric] y'_def [symmetric] mi_def [symmetric]
    using ms(1,2,3) m(2) by (auto split: if_splits)
qed

text \<open>The first day of a month, counted in March-based months; consecutive months abut.\<close>

definition month_base :: "int \<Rightarrow> int" where
  "month_base mi = (let y' = mi div 12; mp = mi mod 12
     in 365 * y' + y' div 4 - y' div 100 + y' div 400 + (153 * mp + 2) div 5 - 1 - 719468)"

lemma days_of_civil_base: "days_of_civil y m d = month_base (12 * y + m - 3) + d"
  by (simp add: days_of_civil_def month_base_def Let_def)

lemma div_pred_diff:
  fixes y c :: int
  assumes "0 < c"
  shows "y div c - (y - 1) div c = (if y mod c = 0 then 1 else 0)"
proof (cases "y mod c = 0")
  case True
  then have "y - 1 = c * (y div c - 1) + (c - 1)"
    using mult_div_mod_eq [of c y] by (simp add: right_diff_distrib)
  then have "(y - 1) div c = y div c - 1" using assms by (intro int_div_pos_eq [of _ _ _ "c - 1"]) auto
  with True show ?thesis by simp
next
  case False
  then have "y - 1 = c * (y div c) + (y mod c - 1)" by simp
  moreover have "0 < y mod c" using False assms pos_mod_sign [of c y] by linarith
  moreover have "y mod c < c" using assms by simp
  ultimately have "(y - 1) div c = y div c" by (intro int_div_pos_eq [of _ _ _ "y mod c - 1"]) auto
  with False show ?thesis by simp
qed

lemma month_base_feb: "month_base (12 * y) - month_base (12 * (y - 1) + 11) =
    28 + (y div 4 - (y - 1) div 4) - (y div 100 - (y - 1) div 100) + (y div 400 - (y - 1) div 400)"
proof -
  have dm: "(12 * (y - 1) + 11) div 12 = y - 1" "(12 * (y - 1) + 11) mod 12 = 11"
    using month_index [of 11 "y - 1"] by simp_all
  have lin: "(365 * y + a - b + c - 1 - 719468) - (365 * (y - 1) + a' - b' + c' + 337 - 1 - 719468)
      = 28 + (a - a') - (b - b') + (c - c')" for a b c a' b' c' :: int
    by simp
  have 1: "month_base (12 * y) = 365 * y + y div 4 - y div 100 + y div 400 - 1 - 719468"
    by (simp add: month_base_def)
  have 2: "month_base (12 * (y - 1) + 11)
      = 365 * (y - 1) + (y - 1) div 4 - (y - 1) div 100 + (y - 1) div 400 + 337 - 1 - 719468"
    unfolding month_base_def Let_def dm by simp
  show ?thesis unfolding 1 2 by (rule lin)
qed

lemma month_base_step:
  assumes "1 \<le> m" and "m \<le> 12"
  shows "month_base (12 * y + m - 3 + 1) = month_base (12 * y + m - 3) + days_in m y"
proof (cases "m = 2")
  case True
  have e: "12 * y + m - 3 = 12 * (y - 1) + 11" "12 * (y - 1) + 11 + 1 = 12 * y"
    using True by simp_all
  have i: "y mod 400 = 0 \<longrightarrow> y mod 100 = 0" "y mod 100 = 0 \<longrightarrow> y mod 4 = 0"
    using dvd_trans [of 100 400 y] dvd_trans [of 4 100 y] by (simp_all only: mod_eq_0_iff_dvd) auto
  have "28 + (if y mod 4 = 0 then 1 else 0) - (if y mod 100 = 0 then 1 else 0)
      + (if y mod 400 = 0 then 1 else 0) = days_in m y"
    unfolding days_in_def is_leap_def using True i
    by (cases "y mod 400 = 0"; cases "y mod 100 = 0"; cases "y mod 4 = 0") (simp_all only: if_True if_False simp_thms arith_simps)
  then have s: "month_base (12 * y) - month_base (12 * (y - 1) + 11) = days_in m y"
    unfolding month_base_feb by (simp only: div_pred_diff zero_less_numeral)
  have "a - b = c \<Longrightarrow> a = b + c" for a b c :: int by simp
  from this [OF s] show ?thesis unfolding e .
next
  case False
  define k where "k = (if m = 1 then 10 else m - 3)"
  define y' where "y' = (if m = 1 then y - 1 else y)"
  have e: "12 * y + m - 3 = 12 * y' + k" "0 \<le> k" "k \<le> 10"
    using assms False by (auto simp: k_def y'_def)
  have "(12 * y' + k) div 12 = y'" "(12 * y' + k) mod 12 = k"
    "(12 * y' + k + 1) div 12 = y'" "(12 * y' + k + 1) mod 12 = k + 1"
    using e(2,3) month_index [of k y'] month_index [of "k + 1" y'] by (simp_all add: add.assoc)
  then have b: "month_base (12 * y' + k + 1) = 365 * y' + y' div 4 - y' div 100 + y' div 400 + (153 * (k + 1) + 2) div 5 - 1 - 719468"
    "month_base (12 * y' + k) = 365 * y' + y' div 4 - y' div 100 + y' div 400 + (153 * k + 2) div 5 - 1 - 719468"
    unfolding month_base_def Let_def by (simp_all only:)
  have "(a + b - 1 - 719468) - (a + c - 1 - 719468) = b - c" for a b c :: int by simp
  then have "month_base (12 * y + m - 3 + 1) - month_base (12 * y + m - 3)
      = (153 * (k + 1) + 2) div 5 - (153 * k + 2) div 5"
    unfolding e(1) b .
  moreover have "m = 1 \<or> m = 3 \<or> m = 4 \<or> m = 5 \<or> m = 6 \<or> m = 7 \<or> m = 8 \<or> m = 9 \<or> m = 10 \<or> m = 11
      \<or> m = 12" using assms False by arith
  then have "(153 * (k + 1) + 2) div 5 - (153 * k + 2) div 5 = days_in m y"
    unfolding k_def days_in_def by (elim disjE) simp_all
  ultimately show ?thesis by linarith
qed

lemma month_base_mono:
  assumes "mi < mj"
  shows "month_base mi + days_in ((mi + 2) mod 12 + 1) ((mi + 2) div 12) \<le> month_base mj"
  using assms
proof (induction mj rule: int_gr_induct)
  case base
  have "12 * ((mi + 2) div 12) + ((mi + 2) mod 12 + 1) - 3 = mi" by presburger
  with month_base_step [of "(mi + 2) mod 12 + 1" "(mi + 2) div 12"] show ?case by simp
next
  case (step i)
  have e: "12 * ((i + 2) div 12) + ((i + 2) mod 12 + 1) - 3 = i" by presburger
  have "month_base (i + 1) = month_base i + days_in ((i + 2) mod 12 + 1) ((i + 2) div 12)"
    using month_base_step [of "(i + 2) mod 12 + 1" "(i + 2) div 12"] unfolding e by simp
  moreover have "0 \<le> days_in ((i + 2) mod 12 + 1) ((i + 2) div 12)" by (simp add: days_in_def)
  ultimately show ?case using step by linarith
qed

text \<open>Days compare as their dates do.\<close>

lemma civil_of_days_less:
  assumes a: "civil_of_days a = (y, m, d)" and b: "civil_of_days b = (y', m', d')" and ab: "a < b"
  shows "y < y' \<or> y = y' \<and> (m < m' \<or> m = m' \<and> d < d')"
proof -
  have va: "1 \<le> m" "m \<le> 12" "1 \<le> d" "d \<le> days_in m y" and vb: "1 \<le> m'" "m' \<le> 12" "1 \<le> d'" "d' \<le> days_in m' y'"
    using civil_of_days_valid [of a] civil_of_days_valid [of b] a b by auto
  have ea: "a = month_base (12 * y + m - 3) + d" and eb: "b = month_base (12 * y' + m' - 3) + d'"
    using days_of_civil_of_days [of a] days_of_civil_of_days [of b] a b by (auto simp: days_of_civil_base)
  have mo: "(12 * y' + m' - 3 + 2) mod 12 + 1 = m'" "(12 * y' + m' - 3 + 2) div 12 = y'"
    using vb(1,2) by presburger+
  have "\<not> 12 * y' + m' - 3 < 12 * y + m - 3"
  proof
    assume "12 * y' + m' - 3 < 12 * y + m - 3"
    from month_base_mono [OF this] have "month_base (12 * y' + m' - 3) + days_in m' y' \<le> month_base (12 * y + m - 3)"
      unfolding mo .
    with ea eb ab va(3) vb(4) show False by linarith
  qed
  then consider "12 * y + m < 12 * y' + m'" | "12 * y + m = 12 * y' + m'" by linarith
  then show ?thesis
  proof cases
    case 1
    with va(1,2) vb(1,2) show ?thesis by linarith
  next
    case 2
    with va(1,2) vb(1,2) have "y = y'" by linarith
    moreover from this 2 have "m = m'" by simp
    ultimately show ?thesis using ea eb ab by simp
  qed
qed

end
