(* ===== verification/Go_Format.thy ===== *)
theory Go_Format
  imports Go_Time
begin

text \<open>
  The textual forms of instants and durations that Go's \<^verbatim>\<open>time\<close> package reads and writes and
  the source stores: dates (\<^verbatim>\<open>2006-01-02\<close>), times of day (\<^verbatim>\<open>15:04\<close>), RFC 3339 stamps and
  durations, with their round trips and the order of the date strings.
\<close>

section \<open>Fixed-width numbers\<close>

text \<open>\<^verbatim>\<open>appendInt\<close>: at least \<open>w\<close> digits, padded with zeros.\<close>

definition pad :: "nat \<Rightarrow> nat \<Rightarrow> string" where
  "pad w n = (let s = digits10 n in replicate (w - length s) CHR ''0'' @ s)"

definition appendInt :: "nat \<Rightarrow> int \<Rightarrow> string" where
  "appendInt w x = (if x < 0 then CHR ''-'' # pad w (nat (- x)) else pad w (nat x))"

section \<open>Layouts\<close>

definition clock_of :: "time \<Rightarrow> int \<times> int \<times> int" where
  "clock_of t = (let s = (t mod day) div second in (s div 3600, s div 60 mod 60, s mod 60))"

text \<open>\<^verbatim>\<open>t.UTC().Format("2006-01-02")\<close>\<close>

definition format_day :: "int \<Rightarrow> string" where
  "format_day n = (case civil_of_days n of (y, m, d) \<Rightarrow>
     appendInt 4 y @ ''-'' @ appendInt 2 m @ ''-'' @ appendInt 2 d)"

definition format_date :: "time \<Rightarrow> string" where
  "format_date t = format_day (day_number t)"

text \<open>\<^verbatim>\<open>t.UTC().Format("15:04")\<close>\<close>

definition format_time :: "time \<Rightarrow> string" where
  "format_time t = (case clock_of t of (h, m, s) \<Rightarrow> appendInt 2 h @ '':'' @ appendInt 2 m)"

text \<open>\<^verbatim>\<open>t.UTC().Format(time.RFC3339)\<close>: fractions of a second are dropped.\<close>

definition format_rfc3339 :: "time \<Rightarrow> string" where
  "format_rfc3339 t = (case clock_of t of (h, m, s) \<Rightarrow>
     format_date t @ ''T'' @ appendInt 2 h @ '':'' @ appendInt 2 m @ '':'' @ appendInt 2 s @ ''Z'')"

text \<open>\<^verbatim>\<open>t.UTC().AddDate(0, 0, k)\<close>: in UTC every day has 24 hours.\<close>

definition AddDate :: "time \<Rightarrow> int \<Rightarrow> time" where
  "AddDate t k = t + k * day"

section \<open>\<^verbatim>\<open>time.Parse(time.RFC3339, s)\<close>\<close>

fun expect :: "char \<Rightarrow> string \<Rightarrow> string option" where
  "expect c [] = None"
| "expect c (x # s) = (if x = c then Some s else None)"

fun digit_at :: "string \<Rightarrow> nat option" where
  "digit_at [] = None"
| "digit_at (c # s) = digit_val c"

text \<open>\<^verbatim>\<open>getnum\<close>: two digits, or one when \<open>fixed\<close> is false.\<close>

definition getnum :: "bool \<Rightarrow> string \<Rightarrow> (int \<times> string) option" where
  "getnum fixed s = (case digit_at s of None \<Rightarrow> None
   | Some a \<Rightarrow> (case digit_at (drop 1 s) of
       None \<Rightarrow> if fixed then None else Some (int a, drop 1 s)
     | Some b \<Rightarrow> Some (int (10 * a + b), drop 2 s)))"

definition getyear :: "string \<Rightarrow> (int \<times> string) option" where
  "getyear s = (case read_digits 0 (take 4 s) of (n, r) \<Rightarrow>
     if 4 \<le> length s \<and> r = [] then Some (int n, drop 4 s) else None)"

text \<open>A fraction of a second: nanoseconds, of which the first nine digits count.\<close>

definition getfrac :: "string \<Rightarrow> int \<times> string" where
  "getfrac s = (if s \<noteq> [] \<and> (hd s = CHR ''.'' \<or> hd s = CHR '','') \<and> is_digit (drop 1 s)
     then let ds = takeWhile (\<lambda>c. digit_val c \<noteq> None) (drop 1 s);
              k = min 9 (length ds)
          in (int (fst (read_digits 0 (take k ds)) * 10 ^ (9 - k)), drop (length ds + 1) s)
     else (0, s))"

definition getzone :: "string \<Rightarrow> (int \<times> string) option" where
  "getzone s = (if s = [] then None
     else if hd s = CHR ''Z'' then Some (0, drop 1 s)
     else do {
       (h, r) \<leftarrow> getnum True (take 2 (drop 1 s));
       r \<leftarrow> expect CHR '':'' (drop 3 s);
       (m, r) \<leftarrow> getnum True r;
       if h \<le> 24 \<and> m \<le> 60 \<and> (hd s = CHR ''+'' \<or> hd s = CHR ''-'')
       then Some ((if hd s = CHR ''-'' then - 1 else 1) * (h * 60 + m) * 60, r) else None })"

definition parse_rfc3339 :: "string \<Rightarrow> time option" where
  "parse_rfc3339 s = do {
     (y, s) \<leftarrow> getyear s; s \<leftarrow> expect CHR ''-'' s;
     (mo, s) \<leftarrow> getnum True s; s \<leftarrow> expect CHR ''-'' s;
     (d, s) \<leftarrow> getnum True s; s \<leftarrow> expect CHR ''T'' s;
     (h, s) \<leftarrow> getnum False s; s \<leftarrow> expect CHR '':'' s;
     (mi, s) \<leftarrow> getnum True s; s \<leftarrow> expect CHR '':'' s;
     (sec, s) \<leftarrow> getnum True s;
     (ns, s) \<leftarrow> Some (getfrac s);
     (z, s) \<leftarrow> getzone s;
     if s = [] \<and> 1 \<le> mo \<and> mo \<le> 12 \<and> h < 24 \<and> mi < 60 \<and> sec < 60 \<and> 1 \<le> d \<and> d \<le> days_in mo y
     then Some (days_of_civil y mo d * day + ((h * 60 + mi) * 60 + sec - z) * second + ns)
     else None }"

section \<open>Durations\<close>

text \<open>\<^verbatim>\<open>Duration.String\<close> of a whole number of seconds.\<close>

definition duration_string :: "duration \<Rightarrow> string" where
  "duration_string d = (let u = nat \<bar>d\<bar> div nat second; m = u div 60; h = m div 60
     in (if d < 0 then ''-'' else '''')
        @ (if 0 < h then digits10 h @ ''h'' else '''')
        @ (if 0 < m then digits10 (m mod 60) @ ''m'' else '''')
        @ digits10 (u mod 60) @ ''s'')"

text \<open>The units of \<^verbatim>\<open>ParseDuration\<close>; microseconds have three spellings.\<close>

definition unit_map :: "(string \<times> int) list" where
  "unit_map = [(''ns'', 1), (''us'', 1000), (CHR 0xC2 # CHR 0xB5 # ''s'', 1000),
     (CHR 0xCE # CHR 0xBC # ''s'', 1000), (''ms'', 1000000), (''s'', second), (''m'', minute), (''h'', hour)]"

text \<open>
  \<^verbatim>\<open>leadingFraction\<close>: digits after the point, as an integer and a power of ten; digits that
  would not fit are dropped.
\<close>

fun leading_fraction :: "nat \<Rightarrow> nat \<Rightarrow> bool \<Rightarrow> string \<Rightarrow> nat \<times> nat \<times> string" where
  "leading_fraction x sc ov [] = (x, sc, [])"
| "leading_fraction x sc ov (c # s) = (case digit_val c of
     None \<Rightarrow> (x, sc, c # s)
   | Some d \<Rightarrow> if ov \<or> x > (2 ^ 63 - 1) div 10 \<or> x * 10 + d > 2 ^ 63
       then leading_fraction x sc True s
       else leading_fraction (x * 10 + d) (sc * 10) False s)"

definition unit_char :: "char \<Rightarrow> bool" where
  "unit_char c \<longleftrightarrow> c \<noteq> CHR ''.'' \<and> digit_val c = None"

text \<open>One \<open>number unit\<close> group: its nanoseconds and the rest.\<close>

definition read_group :: "string \<Rightarrow> (nat \<times> string) option" where
  "read_group s = (case read_digits 0 s of (v, s1) \<Rightarrow>
     let pre = is_digit s;
         dot = (s1 \<noteq> [] \<and> hd s1 = CHR ''.'');
         s2 = (if dot then drop 1 s1 else s1);
         (f, sc, s3) = (if dot then leading_fraction 0 1 False s2 else (0, 1, s1));
         post = (dot \<and> is_digit s2);
         u = takeWhile unit_char s3
     in if v > 2 ^ 63 \<or> (\<not> pre \<and> \<not> post) \<or> u = [] then None
        else case map_of unit_map u of None \<Rightarrow> None
        | Some un \<Rightarrow> if int v > 2 ^ 63 div un then None
            else let w = v * nat un + (if f = 0 then 0
                   else nat (f_to_int64 (\<lambda>_. 0) (f_mul (f_of_int (int f)) (f_div (f_of_int un) (f_of_int (int sc))))))
              in if w > 2 ^ 63 then None else Some (w, dropWhile unit_char s3))"

text \<open>
  The groups are added in \<^verbatim>\<open>uint64\<close> arithmetic. Every group consumes at least one character,
  so the length of the text bounds the number of rounds.
\<close>

fun read_groups :: "nat \<Rightarrow> nat \<Rightarrow> string \<Rightarrow> nat option" where
  "read_groups fuel d [] = Some d"
| "read_groups 0 d (c # s) = None"
| "read_groups (Suc fuel) d (c # s) = (case read_group (c # s) of None \<Rightarrow> None
   | Some (w, r) \<Rightarrow> let d' = (d + w) mod 2 ^ 64 in
       if d' > 2 ^ 63 then None else read_groups fuel d' r)"

definition ParseDuration :: "string \<Rightarrow> duration option" where
  "ParseDuration s = (case read_sign s of (sg, r) \<Rightarrow>
     if r = ''0'' then Some 0
     else if r = [] then None
     else case read_groups (length r) 0 r of None \<Rightarrow> None
       | Some d \<Rightarrow> if sg = - 1 then Some (- int d) else if int d > int64_max then None else Some (int d))"

lemmas [go_eval] = pad_def appendInt_def clock_of_def format_day_def format_date_def format_time_def
  format_rfc3339_def AddDate_def getnum_def getyear_def getfrac_def getzone_def parse_rfc3339_def
  duration_string_def unit_map_def unit_char_def read_group_def ParseDuration_def

section \<open>Order and round trips\<close>

text \<open>A padded number that fits its width is a fixed-width number.\<close>

fun fixed :: "nat \<Rightarrow> nat \<Rightarrow> string" where
  "fixed 0 n = []"
| "fixed (Suc w) n = fixed w (n div 10) @ [digit_char (n mod 10)]"

lemma length_fixed [simp]: "length (fixed w n) = w"
  by (induction w arbitrary: n) auto

lemma digit_char_0: "digit_char 0 = CHR ''0''"
  by (simp add: digit_char_def char_of_def bit_Suc_0_iff)

lemma fixed_zero: "fixed w 0 = replicate w CHR ''0''"
  by (induction w) (simp_all add: digit_char_0 replicate_append_same)

lemma pad_fixed: "n < 10 ^ Suc w \<Longrightarrow> pad (Suc w) n = fixed (Suc w) n"
proof (induction w arbitrary: n)
  case 0
  then show ?case by (simp add: pad_def digits10.simps [of n])
next
  case (Suc w)
  show ?case
  proof (cases "n < 10")
    case True
    then show ?thesis
      by (simp add: pad_def digits10.simps [of n] fixed_zero digit_char_def replicate_append_same
          flip: replicate_Suc)
  next
    case False
    then have "pad (Suc (Suc w)) n = pad (Suc w) (n div 10) @ [digit_char (n mod 10)]"
      by (simp add: pad_def digits10.simps [of n] Let_def)
    also have "pad (Suc w) (n div 10) = fixed (Suc w) (n div 10)"
      using Suc.prems by (intro Suc.IH) auto
    finally show ?thesis by simp
  qed
qed

lemma append_less_append:
  fixes xs ys :: "'a::order list"
  assumes "length xs = length ys"
  shows "xs @ us < ys @ vs \<longleftrightarrow> xs < ys \<or> xs = ys \<and> us < vs"
  using assms by (induction xs ys rule: list_induct2) auto

lemma digit_char_less: "a < 10 \<Longrightarrow> b < 10 \<Longrightarrow> digit_char a < digit_char b \<longleftrightarrow> a < b"
  by (simp add: digit_char_def less_char_def)

lemma digit_char_inj: "a < 10 \<Longrightarrow> b < 10 \<Longrightarrow> digit_char a = digit_char b \<longleftrightarrow> a = b"
  using digit_val_char by (metis option.inject)

lemma fixed_inj: "a < 10 ^ w \<Longrightarrow> b < 10 ^ w \<Longrightarrow> fixed w a = fixed w b \<longleftrightarrow> a = b"
proof (induction w arbitrary: a b)
  case (Suc w)
  then have "fixed w (a div 10) = fixed w (b div 10) \<longleftrightarrow> a div 10 = b div 10"
    by (intro Suc.IH) auto
  then show ?case by (simp add: digit_char_inj) (metis div_mult_mod_eq)
qed simp

lemma fixed_less: "a < 10 ^ w \<Longrightarrow> b < 10 ^ w \<Longrightarrow> fixed w a < fixed w b \<longleftrightarrow> a < b"
proof (induction w arbitrary: a b)
  case (Suc w)
  have "a div 10 < 10 ^ w" "b div 10 < 10 ^ w" using Suc.prems by auto
  with Suc.IH [of "a div 10" "b div 10"] fixed_inj [of "a div 10" w "b div 10"]
  have "fixed (Suc w) a < fixed (Suc w) b \<longleftrightarrow> a div 10 < b div 10 \<or> a div 10 = b div 10 \<and> a mod 10 < b mod 10"
    by (simp add: append_less_append digit_char_less)
  also have "\<dots> \<longleftrightarrow> a < b"
    using div_mult_mod_eq [of a 10] div_mult_mod_eq [of b 10] by linarith
  finally show ?case .
qed simp

lemma appendInt_fixed: "0 < w \<Longrightarrow> 0 \<le> x \<Longrightarrow> x < 10 ^ w \<Longrightarrow> appendInt w x = fixed w (nat x)"
  using pad_fixed [of "nat x" "w - 1"] by (simp add: appendInt_def nat_less_iff)

text \<open>Date strings are ordered as the days they name, over the years with four digits.\<close>

definition year_of :: "int \<Rightarrow> int" where "year_of n = fst (civil_of_days n)"

definition four_digit_year :: "int \<Rightarrow> bool" where
  "four_digit_year n \<longleftrightarrow> 0 \<le> year_of n \<and> year_of n < 10000"

lemma format_day_fixed:
  assumes "four_digit_year n" and "civil_of_days n = (y, m, d)"
  shows "format_day n = fixed 4 (nat y) @ ''-'' @ fixed 2 (nat m) @ ''-'' @ fixed 2 (nat d)"
    and "nat y < 10 ^ 4" "nat m < 10 ^ 2" "nat d < 10 ^ 2" "0 \<le> y" "0 \<le> m" "0 \<le> d"
proof -
  have v: "1 \<le> m" "m \<le> 12" "1 \<le> d" "d \<le> days_in m y" using civil_of_days_valid [of n] assms(2) by auto
  have "days_in m y \<le> 31" by (simp add: days_in_def)
  then have b: "0 \<le> y" "y < 10 ^ 4" "0 \<le> m" "m < 10 ^ 2" "0 \<le> d" "d < 10 ^ 2"
    using v assms by (auto simp: four_digit_year_def year_of_def)
  have "appendInt 4 y = fixed 4 (nat y)" "appendInt 2 m = fixed 2 (nat m)" "appendInt 2 d = fixed 2 (nat d)"
    using b by (simp_all add: appendInt_fixed)
  then show "format_day n = fixed 4 (nat y) @ ''-'' @ fixed 2 (nat m) @ ''-'' @ fixed 2 (nat d)"
    by (simp add: format_day_def assms(2))
  show "nat y < 10 ^ 4" "nat m < 10 ^ 2" "nat d < 10 ^ 2" "0 \<le> y" "0 \<le> m" "0 \<le> d"
    using b by (simp_all add: nat_less_iff)
qed

lemma format_day_mono:
  assumes "four_digit_year a" and "four_digit_year b" and "a < b"
  shows "format_day a < format_day b"
proof -
  obtain y m d where a: "civil_of_days a = (y, m, d)" by (metis prod_cases3)
  obtain y' m' d' where b: "civil_of_days b = (y', m', d')" by (metis prod_cases3)
  note fa = format_day_fixed [OF assms(1) a] and fb = format_day_fixed [OF assms(2) b]
  from civil_of_days_less [OF a b assms(3)]
  have "nat y < nat y' \<or> nat y = nat y' \<and> (nat m < nat m' \<or> nat m = nat m' \<and> nat d < nat d')"
    using fa fb by auto
  then show ?thesis
    unfolding fa(1) fb(1)
    using fixed_less [OF fa(2) fb(2)] fixed_less [OF fa(3) fb(3)] fixed_less [OF fa(4) fb(4)]
    by (auto simp: append_less_append)
qed

lemma format_day_less_iff:
  assumes "four_digit_year a" and "four_digit_year b"
  shows "format_day a < format_day b \<longleftrightarrow> a < b"
  using format_day_mono [OF assms] format_day_mono [OF assms(2,1)]
  by (metis linorder_cases order.asym order.irrefl)

lemma format_day_inj:
  assumes "four_digit_year a" and "four_digit_year b"
  shows "format_day a = format_day b \<longleftrightarrow> a = b"
  using format_day_mono [OF assms] format_day_mono [OF assms(2,1)]
  by (metis linorder_cases order.irrefl)

lemma year_of_mono: "a \<le> b \<Longrightarrow> year_of a \<le> year_of b"
proof -
  obtain y m d where a: "civil_of_days a = (y, m, d)" by (metis prod_cases3)
  obtain y' m' d' where b: "civil_of_days b = (y', m', d')" by (metis prod_cases3)
  assume "a \<le> b"
  then consider "a = b" | "a < b" by linarith
  then show ?thesis using civil_of_days_less [OF a b] a b by cases (auto simp: year_of_def)
qed

lemma four_digit_between: "four_digit_year a \<Longrightarrow> four_digit_year b \<Longrightarrow> a \<le> n \<Longrightarrow> n \<le> b \<Longrightarrow> four_digit_year n"
  using year_of_mono [of a n] year_of_mono [of n b] by (simp add: four_digit_year_def)

lemma day_number_AddDate [simp]: "day_number (AddDate t k) = day_number t + k"
  by (simp add: day_number_def AddDate_def time_units)

subsection \<open>Stamps\<close>

lemma getnum_fixed: "n < 100 \<Longrightarrow> getnum f (fixed 2 n @ s) = Some (int n, s)"
  by (simp add: getnum_def numeral_2_eq_2)

lemma read_digits_fixed: "read_digits acc (fixed w n @ s) = read_digits (acc * 10 ^ w + n mod 10 ^ w) s"
proof (induction w arbitrary: n s)
  case (Suc w)
  have "n mod 10 ^ Suc w = n mod 10 + 10 * (n div 10 mod 10 ^ w)"
    by (simp add: mod_mult2_eq)
  then show ?case using Suc by (simp add: algebra_simps)
qed simp

lemma getyear_fixed: "n < 10000 \<Longrightarrow> getyear (fixed 4 n @ s) = Some (int n, s)"
  using read_digits_fixed [of 0 4 n "[]"] by (simp add: getyear_def)

lemma clock_of_bounds:
  assumes "clock_of t = (h, m, s)"
  shows "0 \<le> h" "h < 24" "0 \<le> m" "m < 60" "0 \<le> s" "s < 60"
    and "t - t mod second = day_number t * day + ((h * 60 + m) * 60 + s) * second"
proof -
  define u where "u = t mod day div second"
  have t: "t = day_number t * day + t mod day" by (simp add: day_number_def)
  have b: "0 \<le> t mod day" "t mod day < 86400 * second" by (simp_all add: time_units)
  have u: "0 \<le> u" "u < 86400" using b unfolding u_def by (simp_all add: time_units) 
  have h: "h = u div 3600" "m = u div 60 mod 60" "s = u mod 60"
    using assms by (simp_all add: clock_of_def u_def Let_def)
  show "0 \<le> h" "h < 24" "0 \<le> m" "m < 60" "0 \<le> s" "s < 60" using u by (simp_all add: h)
  have "day = 86400 * second" by (simp add: time_units)
  then have "second dvd day" by (rule dvdI [where k = 86400, OF trans]) simp
  then have "t mod second = t mod day mod second" using mod_mod_cancel [of second day t] by simp
  then have "t - t mod second = day_number t * day + u * second"
    using t div_mult_mod_eq [of "t mod day" second] unfolding u_def by linarith
  moreover have "h = u div 60 div 60" unfolding h by (simp add: zdiv_zmult2_eq)
  then have "u = (h * 60 + m) * 60 + s"
    using div_mult_mod_eq [of u 60] div_mult_mod_eq [of "u div 60" 60] h(2,3) by simp
  ultimately show "t - t mod second = day_number t * day + ((h * 60 + m) * 60 + s) * second" by simp
qed

theorem parse_format_rfc3339:
  assumes "four_digit_year (day_number t)"
  shows "parse_rfc3339 (format_rfc3339 t) = Some (t - t mod second)"
proof -
  obtain y m d where c: "civil_of_days (day_number t) = (y, m, d)" by (metis prod_cases3)
  obtain h mi s where k: "clock_of t = (h, mi, s)" by (metis prod_cases3)
  note f = format_day_fixed [OF assms c] and b = clock_of_bounds [OF k]
  have dv: "1 \<le> m" "m \<le> 12" "1 \<le> d" "d \<le> days_in m y" "days_of_civil y m d = day_number t"
    using civil_of_days_valid [of "day_number t"] days_of_civil_of_days [of "day_number t"] c by auto
  have hms: "appendInt 2 h = fixed 2 (nat h)" "appendInt 2 mi = fixed 2 (nat mi)" "appendInt 2 s = fixed 2 (nat s)"
    using b by (simp_all add: appendInt_fixed)
  have z: "getfrac ''Z'' = (0, ''Z'')" "getzone ''Z'' = Some (0, [])"
    by (simp_all add: getfrac_def getzone_def)
  have n: "nat y < 10000" "nat m < 100" "nat d < 100" "nat h < 100" "nat mi < 100" "nat s < 100"
    using f b by auto
  have fmt: "format_rfc3339 t = fixed 4 (nat y) @ CHR ''-'' # fixed 2 (nat m) @ CHR ''-'' # fixed 2 (nat d)
      @ CHR ''T'' # fixed 2 (nat h) @ CHR '':'' # fixed 2 (nat mi) @ CHR '':'' # fixed 2 (nat s) @ ''Z''"
    by (simp add: format_rfc3339_def k format_date_def f(1) hms)
  show ?thesis
    unfolding fmt parse_rfc3339_def
    using n f(5-7) b dv by (simp add: getyear_fixed getnum_fixed z)
qed

subsection \<open>Durations\<close>

lemma map_of_unit_map: "map_of unit_map ''s'' = Some second" "map_of unit_map ''m'' = Some minute"
  "map_of unit_map ''h'' = Some hour"
  by (simp_all add: unit_map_def)

lemma digits10_Cons:
  obtains c r where "digits10 n = c # r" and "digit_val c \<noteq> None"
  using digits10_is_digit [of n "[]"] by (cases "digits10 n") auto

lemma unit_char_span:
  assumes "\<forall>c \<in> set u. unit_char c" and "is_digit s \<or> s = []"
  shows "takeWhile unit_char (u @ s) = u" "dropWhile unit_char (u @ s) = s"
proof -
  have "s = [] \<or> (\<exists>c r. s = c # r \<and> \<not> unit_char c)"
    using assms(2) unfolding unit_char_def by (metis is_digit.elims(2))
  then have "takeWhile unit_char s = [] \<and> dropWhile unit_char s = s" by auto
  with assms(1) show "takeWhile unit_char (u @ s) = u" "dropWhile unit_char (u @ s) = s"
    by (simp_all add: takeWhile_append2 dropWhile_append2)
qed

lemma read_group_digits10:
  assumes u: "map_of unit_map u = Some un" "u \<noteq> []" "\<forall>c \<in> set u. unit_char c" and un: "0 < un"
    and v: "int v * un \<le> 2 ^ 63" and s: "is_digit s \<or> s = []"
  shows "read_group (digits10 v @ u @ s) = Some (v * nat un, s)"
proof -
  have nd: "\<not> is_digit (u @ s)" "hd (u @ s) \<noteq> CHR ''.''" "u @ s \<noteq> []"
    using u(2,3) by (cases u; auto simp: unit_char_def)+
  have rd: "read_digits 0 (digits10 v @ u @ s) = (v, u @ s)"
    by (simp add: read_digits_digits10 read_digits_stop nd)
  have "int v \<le> 2 ^ 63 div un" using v un by (metis nonzero_mult_div_cancel_right less_irrefl zdiv_mono1)
  moreover have "int v \<le> int v * un" using un by (cases v) (simp_all add: mult_le_cancel_left1)
  then have "int v \<le> 2 ^ 63" using v by linarith
  then have "v \<le> 2 ^ 63" by simp
  moreover have "int (v * nat un) = int v * un" using un by simp
  then have "int (v * nat un) \<le> int (2 ^ 63)" using v by simp
  then have "v * nat un \<le> 2 ^ 63" by (simp only: of_nat_le_iff)
  ultimately show ?thesis
    using nd unit_char_span [OF u(3) s] u(1,2)
    unfolding read_group_def rd by (simp add: Let_def digits10_is_digit)
qed

lemma read_groups_step:
  assumes "read_group (digits10 v @ r) = Some (w, s)" and "d + w \<le> 2 ^ 63"
  shows "read_groups (Suc n) d (digits10 v @ r) = read_groups n (d + w) s"
proof -
  obtain c x where "digits10 v = c # x" by (rule digits10_Cons)
  with assms show ?thesis by simp
qed

lemma unit_chars: "unit_char CHR ''s''" "unit_char CHR ''m''" "unit_char CHR ''h''"
  by (simp_all add: unit_char_def digit_val_def)

lemma read_groups_hms:
  assumes b: "int (h * 3600 + m * 60 + s) * second \<le> int64_max"
  shows "read_groups (Suc (Suc (Suc n))) 0 (digits10 h @ ''h'' @ digits10 m @ ''m'' @ digits10 s @ ''s'')
      = Some ((h * 3600 + m * 60 + s) * nat second)"
    and "read_groups (Suc (Suc n)) 0 (digits10 m @ ''m'' @ digits10 s @ ''s'') = Some ((m * 60 + s) * nat second)"
    and "read_groups (Suc n) 0 (digits10 s @ ''s'') = Some (s * nat second)"
proof -
  have le: "int h * hour \<le> 2 ^ 63" "int m * minute \<le> 2 ^ 63" "int s * second \<le> 2 ^ 63"
    "h * nat hour + m * nat minute + s * nat second \<le> 2 ^ 63"
    using b by (simp_all add: time_units int64_max_def)
  have g: "read_group (digits10 h @ ''h'' @ digits10 x @ y) = Some (h * nat hour, digits10 x @ y)"
    "read_group (digits10 m @ ''m'' @ digits10 x @ y) = Some (m * nat minute, digits10 x @ y)"
    "read_group (digits10 s @ ''s'') = Some (s * nat second, [])" for x y
    using le read_group_digits10 [OF map_of_unit_map(3), of h "digits10 x @ y"]
      read_group_digits10 [OF map_of_unit_map(2), of m "digits10 x @ y"]
      read_group_digits10 [OF map_of_unit_map(1), of s "[]"]
    by (simp_all add: unit_chars digits10_is_digit time_units)
  show "read_groups (Suc n) 0 (digits10 s @ ''s'') = Some (s * nat second)"
    using read_groups_step [OF g(3), of 0 n] le by simp
  show "read_groups (Suc (Suc n)) 0 (digits10 m @ ''m'' @ digits10 s @ ''s'') = Some ((m * 60 + s) * nat second)"
    using read_groups_step [OF g(2), of 0 "Suc n" s "''s''"] read_groups_step [OF g(3), of "m * nat minute" n] le
    by (simp add: time_units)
  show "read_groups (Suc (Suc (Suc n))) 0 (digits10 h @ ''h'' @ digits10 m @ ''m'' @ digits10 s @ ''s'')
      = Some ((h * 3600 + m * 60 + s) * nat second)"
    using read_groups_step [OF g(1), of 0 "Suc (Suc n)" m "''m'' @ digits10 s @ ''s''"]
      read_groups_step [OF g(2), of "h * nat hour" "Suc n" s "''s''"]
      read_groups_step [OF g(3), of "h * nat hour + m * nat minute" n] le
    by (simp add: time_units)
qed
lemma length_digits10_pos: "0 < length (digits10 n)"
  using digits10_nonempty [of n] by simp

lemma read_sign_digits10: "read_sign (digits10 n @ s) = (1, digits10 n @ s)"
  by (simp add: read_sign_digit digits10_is_digit)

text \<open>The text of a whole number of seconds, unsigned.\<close>

definition hms_string :: "nat \<Rightarrow> string" where
  "hms_string u = (let m = u div 60; h = m div 60
     in (if 0 < h then digits10 h @ ''h'' else '''') @ (if 0 < m then digits10 (m mod 60) @ ''m'' else '''')
        @ digits10 (u mod 60) @ ''s'')"

lemma read_groups_hms_string:
  assumes "int u * second \<le> int64_max"
  shows "read_groups (length (hms_string u)) 0 (hms_string u) = Some (u * nat second)"
    and "hms_string u \<noteq> ''0''" "hms_string u \<noteq> []" "read_sign (hms_string u) = (1, hms_string u)"
proof -
  define h m s where "h = u div 60 div 60" and "m = u div 60 mod 60" and "s = u mod 60"
  have u: "u = h * 3600 + m * 60 + s"
    using div_mult_mod_eq [of u 60] div_mult_mod_eq [of "u div 60" 60] unfolding h_def m_def s_def by linarith
  note r = read_groups_hms [OF assms [unfolded u]]
  have e: "hms_string u = (if 0 < h then digits10 h @ ''h'' @ digits10 m @ ''m'' @ digits10 s @ ''s''
      else if 0 < m then digits10 m @ ''m'' @ digits10 s @ ''s'' else digits10 s @ ''s'')"
    by (auto simp: hms_string_def Let_def h_def m_def s_def)
  have l: "length (hms_string u) = (if 0 < h then Suc (Suc (Suc (length (digits10 h @ digits10 m @ digits10 s))))
      else if 0 < m then Suc (Suc (length (digits10 m @ digits10 s))) else Suc (length (digits10 s)))"
    by (simp add: e)
  show "read_groups (length (hms_string u)) 0 (hms_string u) = Some (u * nat second)"
  proof -
    consider "0 < h" | "\<not> 0 < h" "0 < m" | "\<not> 0 < h" "\<not> 0 < m" by blast
    then show ?thesis
    proof cases
      case 1
      with r(1) show ?thesis unfolding l unfolding e by (simp only: if_True u)
    next
      case 2
      with r(2) show ?thesis unfolding l unfolding e by (simp only: if_True if_False u) simp
    next
      case 3
      with r(3) show ?thesis unfolding l unfolding e by (simp only: if_False u) simp
    qed
  qed
  show "hms_string u \<noteq> []" "hms_string u \<noteq> ''0''"
    using length_digits10_pos [of h] length_digits10_pos [of m] length_digits10_pos [of s] l
    by (auto split: if_splits)
  show "read_sign (hms_string u) = (1, hms_string u)"
    unfolding e by (simp add: read_sign_digits10)
qed

theorem ParseDuration_duration_string:
  assumes "in64 d" and "second dvd d"
  shows "ParseDuration (duration_string d) = Some d"
proof -
  define u where "u = nat \<bar>d\<bar> div nat second"
  have s: "nat \<bar>d\<bar> mod nat second = 0"
    using assms(2) by (simp add: dvd_eq_mod_eq_0 [symmetric] nat_dvd_iff second_def)
  have d: "\<bar>d\<bar> = int u * second"
  proof -
    have "nat \<bar>d\<bar> = u * nat second" using s div_mult_mod_eq [of "nat \<bar>d\<bar>" "nat second"] by (simp add: u_def)
    then have "int (nat \<bar>d\<bar>) = int (u * nat second)" by simp
    then show ?thesis by (simp add: second_def)
  qed
  have "int u * 1000000000 \<le> 9223372036854775808"
    using d assms(1) by (auto simp: in64_iff second_def abs_if split: if_splits)
  then have "int u \<le> 9223372036" by linarith
  then have b: "int u * second \<le> int64_max" by (simp add: int64_max_def second_def)
  note g = read_groups_hms_string [OF b]
  have e: "duration_string d = (if d < 0 then ''-'' else '''') @ hms_string u"
    by (simp add: duration_string_def hms_string_def u_def Let_def)
  have w: "int (u * nat second) = \<bar>d\<bar>" unfolding d by (simp add: second_def)
  show ?thesis
  proof (cases "d < 0")
    case True
    with g w show ?thesis unfolding e ParseDuration_def by simp
  next
    case False
    with g w b d show ?thesis unfolding e ParseDuration_def by simp
  qed
qed

end
