(* ===== verification/Quantity.thy ===== *)
theory Quantity
  imports Go_Format
begin

text \<open>
  Quantities: the interface of the third-party type \<^verbatim>\<open>resource.Quantity\<close> and the code of
  \<^verbatim>\<open>internal/sizing/quantity.go\<close>, which turns a computed milli-value back into a quantity.

  The type and its operations are a parameter: a type variable \<open>'q\<close> and the record
  \<open>'q resource_api\<close>. What the code relies on is the locale \<open>quantity_laws\<close>, relative to the
  exact value \<open>val q\<close> of a quantity. The field \<open>to_int64_oor\<close> is what the platform gives for a
  float-to-\<^verbatim>\<open>int64\<close> conversion out of range, which the language leaves open.
\<close>

record 'q resource_api =
  Cmp :: "'q \<Rightarrow> 'q \<Rightarrow> int"
  Sign :: "'q \<Rightarrow> int"
  MilliValue :: "'q \<Rightarrow> int"
  QString :: "'q \<Rightarrow> string"
  ParseQuantity :: "string \<Rightarrow> 'q option"
  NewQuantity :: "int \<Rightarrow> string \<Rightarrow> 'q"
  NewMilliQuantity :: "int \<Rightarrow> string \<Rightarrow> 'q"
  Format :: "'q \<Rightarrow> string"
  to_int64_oor :: "float64 \<Rightarrow> int"

type_synonym resource_name = string
type_synonym 'q resource_list = "'q smap"

abbreviation DecimalSI :: string where "DecimalSI \<equiv> ''DecimalSI''"
abbreviation BinarySI :: string where "BinarySI \<equiv> ''BinarySI''"

abbreviation to_int64 :: "'q resource_api \<Rightarrow> float64 \<Rightarrow> int" where
  "to_int64 Q \<equiv> f_to_int64 (to_int64_oor Q)"

section \<open>\<^verbatim>\<open>quantity.go\<close>\<close>

definition bytesPerMi :: int where "bytesPerMi = 1024 * 1024"

definition countPrefix :: string where "countPrefix = ''count/''"

definition measureOf :: "resource_name \<Rightarrow> string" where
  "measureOf res = (if HasPrefix res countPrefix then res
     else let i = LastIndex res ''/'' in if 0 \<le> i then drop (nat (i + 1)) res else res)"

definition IsCountable :: "resource_name \<Rightarrow> bool" where
  "IsCountable res \<longleftrightarrow> HasPrefix res countPrefix
     \<or> measureOf res \<in> {''pods'', ''services'', ''replicationcontrollers'', ''resourcequotas'',
          ''secrets'', ''configmaps'', ''persistentvolumeclaims'', ''services.nodeports'',
          ''services.loadbalancers''}"

definition Quantize :: "'q resource_api \<Rightarrow> resource_name \<Rightarrow> int \<Rightarrow> string \<Rightarrow> 'q" where
  "Quantize Q res milli format =
     (if IsCountable res then
        let whole = to_int64 Q (f_ceil (f_div (f_of_int milli) (f_of_int 1000)))
        in NewQuantity Q whole DecimalSI
      else let measure = measureOf res in
        if Contains measure ''memory'' \<or> Contains measure ''storage'' then
          let bytes = f_div (f_of_int milli) (f_of_int 1000);
              mi = f_ceil (f_div bytes (f_of_int bytesPerMi))
          in NewQuantity Q (wrap64 (to_int64 Q mi * bytesPerMi)) BinarySI
        else NewMilliQuantity Q milli format)"

section \<open>What the code relies on\<close>

locale quantity_laws =
  fixes Q :: "'q resource_api" and val :: "'q \<Rightarrow> real"
  assumes cmp_less: "Cmp Q a b < 0 \<longleftrightarrow> val a < val b"
    and cmp_greater: "0 < Cmp Q a b \<longleftrightarrow> val b < val a"
    and sign_neg: "Sign Q a < 0 \<longleftrightarrow> val a < 0"
    and milli_ceil: "0 \<le> val a \<Longrightarrow> val a \<le> of_int (int64_max div 1000) \<Longrightarrow> MilliValue Q a = \<lceil>1000 * val a\<rceil>"
    and val_new: "in64 n \<Longrightarrow> val (NewQuantity Q n f) = of_int n"
    and val_new_milli: "in64 n \<Longrightarrow> val (NewMilliQuantity Q n f) = of_int n / 1000"
    and parse_string: "\<exists>q'. ParseQuantity Q (QString Q a) = Some q' \<and> val q' = val a"
    and milli_in64: "in64 (MilliValue Q a)"
    and oor_in64: "in64 (to_int64_oor Q x)"
begin

lemma cmp_le: "Cmp Q a b \<le> 0 \<longleftrightarrow> val a \<le> val b"
  using cmp_greater [of a b] by linarith

lemma cmp_ge: "0 \<le> Cmp Q a b \<longleftrightarrow> val b \<le> val a"
  using cmp_less [of a b] by linarith

lemma milli_bounds:
  assumes "0 \<le> val a" and "val a \<le> of_int (int64_max div 1000)"
  shows "0 \<le> MilliValue Q a" "MilliValue Q a \<le> int64_max" "val a \<le> of_int (MilliValue Q a) / 1000"
proof -
  have "1000 * val a \<le> of_int (1000 * (int64_max div 1000))" using assms by simp
  then have "\<lceil>1000 * val a\<rceil> \<le> 1000 * (int64_max div 1000)" by (simp only: ceiling_le_iff)
  also have "\<dots> \<le> int64_max" by (simp add: int64_max_def)
  finally show "MilliValue Q a \<le> int64_max" unfolding milli_ceil [OF assms] .
  show "0 \<le> MilliValue Q a" unfolding milli_ceil [OF assms] using assms by simp
  show "val a \<le> of_int (MilliValue Q a) / 1000" unfolding milli_ceil [OF assms]
    using le_of_int_ceiling [of "1000 * val a"] by linarith
qed

lemma milli_mono:
  assumes "0 \<le> val a" and "val a \<le> val b" and "val b \<le> of_int (int64_max div 1000)"
  shows "MilliValue Q a \<le> MilliValue Q b"
  using assms by (simp add: milli_ceil ceiling_mono)

end

section \<open>The float arithmetic of Quantize\<close>

lemma f64_is_small_int: "0 \<le> n \<Longrightarrow> n \<le> 2 ^ 53 \<Longrightarrow> f64_is (f_of_int n) (of_int n)"
  using f64_is_of_int [of n] rnd_of_int [of n] by simp

text \<open>
  \<open>whole_of m\<close> is the number \<^verbatim>\<open>int64(math.Ceil(float64(m) / 1000))\<close> and \<open>mebi_of m\<close> the
  number of \<^verbatim>\<open>Mi\<close>, in terms of the rounding \<^const>\<open>rnd\<close>.
\<close>

definition whole_of :: "int \<Rightarrow> int" where
  "whole_of m = \<lceil>rnd (rnd (of_int m) / 1000)\<rceil>"

definition mebi_of :: "int \<Rightarrow> int" where
  "mebi_of m = \<lceil>rnd (rnd (rnd (of_int m) / 1000) / 2 ^ 20)\<rceil>"

lemma whole_of_mono: "m \<le> n \<Longrightarrow> whole_of m \<le> whole_of n"
  by (auto simp: whole_of_def intro!: ceiling_mono rnd_mono divide_right_mono)

lemma mebi_of_mono: "m \<le> n \<Longrightarrow> mebi_of m \<le> mebi_of n"
  by (auto simp: mebi_of_def intro!: ceiling_mono rnd_mono divide_right_mono)

lemma quantize_bounds:
  assumes "0 \<le> m" and "m \<le> int64_max"
  shows "0 \<le> rnd (of_int m)" "rnd (of_int m) \<le> 2 ^ 63"
    "0 \<le> rnd (rnd (of_int m) / 1000)" "rnd (rnd (of_int m) / 1000) \<le> 2 ^ 54"
    "0 \<le> rnd (rnd (rnd (of_int m) / 1000) / 2 ^ 20)" "rnd (rnd (rnd (of_int m) / 1000) / 2 ^ 20) \<le> 2 ^ 34"
proof -
  have "(of_int m :: real) \<le> of_int (2 ^ 63)"
    using assms(2) unfolding int64_max_def by (simp only: of_int_le_iff)
  then have "\<bar>of_int m :: real\<bar> \<le> 2 ^ 63" using assms(1) by simp
  from rnd_abs_bound [OF this] show 1: "0 \<le> rnd (of_int m)" "rnd (of_int m) \<le> 2 ^ 63"
    using assms(1) by (auto intro: rnd_nonneg)
  then have "\<bar>rnd (of_int m) / 1000\<bar> \<le> 2 ^ 54" by simp
  from rnd_abs_bound [OF this] show 2: "0 \<le> rnd (rnd (of_int m) / 1000)" "rnd (rnd (of_int m) / 1000) \<le> 2 ^ 54"
    using 1 by (auto intro: rnd_nonneg)
  then have "\<bar>rnd (rnd (of_int m) / 1000) / 2 ^ 20\<bar> \<le> 2 ^ 34" by simp
  from rnd_abs_bound [OF this] show "0 \<le> rnd (rnd (rnd (of_int m) / 1000) / 2 ^ 20)"
    "rnd (rnd (rnd (of_int m) / 1000) / 2 ^ 20) \<le> 2 ^ 34"
    using 2 by (auto intro: rnd_nonneg)
qed

lemma whole_of_bounds: "0 \<le> m \<Longrightarrow> m \<le> int64_max \<Longrightarrow> 0 \<le> whole_of m \<and> whole_of m \<le> 2 ^ 54"
  using quantize_bounds(3,4) [of m] by (simp add: whole_of_def ceiling_le_iff)

lemma mebi_of_bounds: "0 \<le> m \<Longrightarrow> m \<le> int64_max \<Longrightarrow> 0 \<le> mebi_of m \<and> mebi_of m \<le> 2 ^ 34"
  using quantize_bounds(5,6) [of m] by (simp add: mebi_of_def ceiling_le_iff)

lemma f64_milli_div:
  assumes "0 \<le> m" and "m \<le> int64_max"
  shows "f64_is (f_div (f_of_int m) (f_of_int 1000)) (rnd (rnd (of_int m) / 1000))"
proof -
  have "f64_is (f_of_int m) (rnd (of_int m))" using assms by (intro f64_is_of_int) (simp add: int64_max_def)
  moreover have "f64_is (f_of_int 1000) 1000" using f64_is_small_int [of 1000] by simp
  moreover have "(2::real) ^ 54 < 2 ^ 1024" by (intro power_strict_increasing) auto
  ultimately show ?thesis using quantize_bounds(3,4) [OF assms] by (intro f64_is_div) simp_all
qed

lemma whole_of_code:
  assumes "0 \<le> m" and "m \<le> int64_max"
  shows "f_to_int64 oor (f_ceil (f_div (f_of_int m) (f_of_int 1000))) = whole_of m"
  using f64_is_ceil [OF f64_milli_div [OF assms]] whole_of_bounds [OF assms]
  by (intro f_to_int64_of_int) (simp_all add: whole_of_def)

lemma mebi_of_code:
  assumes "0 \<le> m" and "m \<le> int64_max"
  shows "f_to_int64 oor (f_ceil (f_div (f_div (f_of_int m) (f_of_int 1000)) (f_of_int bytesPerMi))) = mebi_of m"
proof -
  have "f64_is (f_of_int bytesPerMi) (2 ^ 20)" using f64_is_small_int [of bytesPerMi] by (simp add: bytesPerMi_def)
  moreover have "(2::real) ^ 34 < 2 ^ 1024" by (intro power_strict_increasing) auto
  ultimately have "f64_is (f_div (f_div (f_of_int m) (f_of_int 1000)) (f_of_int bytesPerMi))
      (rnd (rnd (rnd (of_int m) / 1000) / 2 ^ 20))"
    using quantize_bounds(5,6) [OF assms] by (intro f64_is_div f64_milli_div assms) simp_all
  from f64_is_ceil [OF this] show ?thesis
    using mebi_of_bounds [OF assms] by (intro f_to_int64_of_int) (simp_all add: mebi_of_def)
qed

text \<open>Up to \<open>2\<^sup>5\<^sup>3\<close> milli-units the float detour is exact integer arithmetic.\<close>

lemma ceil_div_exact:
  fixes n d :: int
  assumes "0 \<le> n" "n < 2 ^ 53" "0 < d" "d \<le> 2 ^ 53"
  shows "\<lceil>rnd (of_int n / of_int d)\<rceil> = \<lceil>(of_int n :: real) / of_int d\<rceil>"
proof (rule antisym)
  let ?k = "\<lceil>(of_int n :: real) / of_int d\<rceil>"
  have "0 \<le> ?k" using assms by (simp add: less_le_trans [OF _ divide_nonneg_pos])
  moreover have "?k \<le> n" using assms by (simp add: ceiling_le_iff divide_le_eq mult_le_cancel_left1)
  ultimately have "rnd (of_int ?k) = of_int ?k" using assms by (intro rnd_of_int) linarith
  with rnd_mono [OF le_of_int_ceiling [of "of_int n / of_int d"]]
  show "\<lceil>rnd (of_int n / of_int d)\<rceil> \<le> ?k" by (simp add: ceiling_le_iff)
  have "n \<le> d * \<lceil>rnd (of_int n / of_int d)\<rceil>"
    using b64.ceil_div_ge [OF assms] rnd_of_int [of n] assms by simp
  then have "(of_int n :: real) \<le> of_int (d * \<lceil>rnd (of_int n / of_int d)\<rceil>)" by (simp only: of_int_le_iff)
  then show "?k \<le> \<lceil>rnd (of_int n / of_int d)\<rceil>"
    using assms by (simp add: ceiling_le_iff divide_le_eq mult.commute)
qed

lemma whole_of_exact:
  assumes "0 \<le> m" and "m < 2 ^ 53"
  shows "whole_of m = \<lceil>(of_int m :: real) / 1000\<rceil>"
  using ceil_div_exact [of m 1000] rnd_of_int [of m] assms by (simp add: whole_of_def)

lemma ceiling_divide_nested:
  assumes "(0::int) < n"
  shows "\<lceil>of_int \<lceil>x\<rceil> / (of_int n :: real)\<rceil> = \<lceil>x / of_int n\<rceil>"
proof -
  have iff: "\<lceil>of_int \<lceil>x\<rceil> / (of_int n :: real)\<rceil> \<le> k \<longleftrightarrow> \<lceil>x / of_int n\<rceil> \<le> k" for k
  proof -
    have "\<lceil>of_int \<lceil>x\<rceil> / (of_int n :: real)\<rceil> \<le> k \<longleftrightarrow> (of_int \<lceil>x\<rceil> :: real) \<le> of_int (k * n)"
      using assms by (simp add: ceiling_le_iff divide_le_eq)
    also have "\<dots> \<longleftrightarrow> x \<le> of_int (k * n)" by (simp only: of_int_le_iff ceiling_le_iff)
    also have "\<dots> \<longleftrightarrow> \<lceil>x / of_int n\<rceil> \<le> k" using assms by (simp add: ceiling_le_iff divide_le_eq)
    finally show ?thesis .
  qed
  show ?thesis using iff [of "\<lceil>x / of_int n\<rceil>"] iff [of "\<lceil>of_int \<lceil>x\<rceil> / (of_int n :: real)\<rceil>"] by simp
qed

lemma mebi_of_exact:
  assumes "0 \<le> m" and "m < 2 ^ 53"
  shows "mebi_of m = \<lceil>(of_int m :: real) / (1000 * 2 ^ 20)\<rceil>"
proof (cases "m = 0")
  case False
  define b where "b = rnd (of_int m / 1000)"
  have rm: "rnd (of_int m) = of_int m" using assms by (intro rnd_of_int) simp
  have "2 powi (- 10) \<le> (1::real) / 1000" by (simp add: powi2_neg_nat)
  also have "\<dots> \<le> of_int m / 1000" using False assms(1) by (intro divide_right_mono) auto
  finally have x: "2 powi (- 10) \<le> (of_int m / 1000 :: real)" .
  have small: "(2::real) powi (- 1022) \<le> 2 powi (- 10)" "(2::real) powi (int 20 - 1022) \<le> 2 powi (- 10)"
    by (intro powi2_mono; simp)+
  from rnd_mono [OF x] rnd_pow2 [of "- 10"] have bx: "2 powi (- 10) \<le> b" by (simp add: b_def)
  have "rnd (b / 2 ^ 20) = rnd b / 2 ^ 20" using bx small(2) by (intro rnd_half_scale) linarith
  also have "rnd b = b" unfolding b_def using x small(1) by (intro rnd_idem) linarith
  finally have e: "rnd (b / 2 ^ 20) = b / 2 ^ 20" .
  have "mebi_of m = \<lceil>b / of_int (2 ^ 20)\<rceil>" unfolding mebi_of_def rm b_def [symmetric] e by simp
  also have "\<dots> = \<lceil>of_int \<lceil>b\<rceil> / (of_int (2 ^ 20) :: real)\<rceil>" by (rule ceiling_divide_nested [symmetric]) simp
  also have "\<lceil>b\<rceil> = \<lceil>(of_int m :: real) / of_int 1000\<rceil>"
    using ceil_div_exact [of m 1000] assms by (simp add: b_def)
  also have "\<lceil>of_int \<lceil>(of_int m :: real) / of_int 1000\<rceil> / (of_int (2 ^ 20) :: real)\<rceil>
      = \<lceil>of_int m / of_int 1000 / (of_int (2 ^ 20) :: real)\<rceil>" by (rule ceiling_divide_nested) simp
  finally show ?thesis by simp
qed (simp add: mebi_of_def)

section \<open>The value of a quantized target\<close>

definition is_byte_key :: "resource_name \<Rightarrow> bool" where
  "is_byte_key res \<longleftrightarrow> \<not> IsCountable res
     \<and> (Contains (measureOf res) ''memory'' \<or> Contains (measureOf res) ''storage'')"

lemma Quantize_eq:
  assumes "0 \<le> m" and "m \<le> int64_max"
  shows "Quantize Q res m f = (if IsCountable res then NewQuantity Q (whole_of m) DecimalSI
     else if is_byte_key res then NewQuantity Q (mebi_of m * bytesPerMi) BinarySI
     else NewMilliQuantity Q m f)"
proof -
  have "in64 (mebi_of m * bytesPerMi)"
    using mebi_of_bounds [OF assms] by (simp add: in64_iff bytesPerMi_def)
  from wrap64_id [OF this] show ?thesis
    by (simp add: Quantize_def is_byte_key_def whole_of_code [OF assms] mebi_of_code [OF assms] Let_def)
qed

context quantity_laws
begin

lemma val_Quantize:
  assumes "0 \<le> m" and "m \<le> int64_max"
  shows "val (Quantize Q res m f) = (if IsCountable res then of_int (whole_of m)
     else if is_byte_key res then of_int (mebi_of m) * 2 ^ 20 else of_int m / 1000)"
  using whole_of_bounds [OF assms] mebi_of_bounds [OF assms] assms
  by (simp add: Quantize_eq val_new val_new_milli in64_iff int64_max_def bytesPerMi_def)

lemma val_Quantize_mono:
  assumes "0 \<le> m" and "m \<le> n" and "n \<le> int64_max"
  shows "val (Quantize Q res m f) \<le> val (Quantize Q res n g)"
  using assms whole_of_mono [OF assms(2)] mebi_of_mono [OF assms(2)]
  by (simp add: val_Quantize mult_right_mono)

lemma val_Quantize_ge:
  assumes "0 \<le> m" and "m < 2 ^ 53"
  shows "of_int m / 1000 \<le> val (Quantize Q res m f)"
proof -
  have "of_int m / (1000 * 2 ^ 20) \<le> (of_int (mebi_of m) :: real)" unfolding mebi_of_exact [OF assms] by simp
  then have "of_int m / 1000 \<le> (of_int (mebi_of m) * 2 ^ 20 :: real)" by (simp add: divide_le_eq)
  moreover have "of_int m / 1000 \<le> (of_int (whole_of m) :: real)" unfolding whole_of_exact [OF assms] by simp
  moreover have "m \<le> int64_max" using assms by (simp add: int64_max_def)
  ultimately show ?thesis using assms by (simp add: val_Quantize)
qed

end

section \<open>An instance: decimal quantities with nano precision\<close>

text \<open>
  Quantities as whole numbers of billionths with a format, the precision
  \<^verbatim>\<open>resource.Quantity\<close> documents, printed with the largest of the suffixes none,
  \<^verbatim>\<open>m\<close> and \<^verbatim>\<open>n\<close> that keeps the number whole, and read with any suffix of the
  documented grammar.
\<close>

type_synonym nano = "int \<times> string"

definition nano_suffixes :: "(string \<times> int) list" where
  "nano_suffixes = [('''', 10 ^ 9), (''n'', 1), (''u'', 10 ^ 3), (''m'', 10 ^ 6), (''k'', 10 ^ 12),
     (''M'', 10 ^ 15), (''G'', 10 ^ 18), (''T'', 10 ^ 21), (''P'', 10 ^ 24), (''E'', 10 ^ 27),
     (''Ki'', 2 ^ 10 * 10 ^ 9), (''Mi'', 2 ^ 20 * 10 ^ 9), (''Gi'', 2 ^ 30 * 10 ^ 9),
     (''Ti'', 2 ^ 40 * 10 ^ 9), (''Pi'', 2 ^ 50 * 10 ^ 9), (''Ei'', 2 ^ 60 * 10 ^ 9)]"

definition nano_string :: "nano \<Rightarrow> string" where
  "nano_string q = (if fst q mod 10 ^ 9 = 0 then itoa (fst q div 10 ^ 9)
     else if fst q mod 10 ^ 6 = 0 then itoa (fst q div 10 ^ 6) @ ''m'' else itoa (fst q) @ ''n'')"

definition nano_parse :: "string \<Rightarrow> nano option" where
  "nano_parse s = (case read_sign s of (sg, r) \<Rightarrow>
     if is_digit r then (case read_digits 0 r of (n, sfx) \<Rightarrow>
       (case map_of nano_suffixes sfx of None \<Rightarrow> None
        | Some u \<Rightarrow> Some (sg * int n * u, if length sfx = 2 then BinarySI else DecimalSI)))
     else None)"

definition nano_api :: "nano resource_api" where
  "nano_api = \<lparr>Cmp = (\<lambda>a b. sgn (fst a - fst b)), Sign = (\<lambda>a. sgn (fst a)),
     MilliValue = (\<lambda>a. wrap64 (- ((- fst a) div 10 ^ 6))),
     QString = nano_string, ParseQuantity = nano_parse,
     NewQuantity = (\<lambda>n f. (n * 10 ^ 9, f)), NewMilliQuantity = (\<lambda>n f. (n * 10 ^ 6, f)),
     Format = snd, to_int64_oor = (\<lambda>_. int64_min)\<rparr>"

definition nano_val :: "nano \<Rightarrow> real" where
  "nano_val q = of_int (fst q) / 10 ^ 9"

lemma nano_api_simps [simp]:
  "Cmp nano_api a b = sgn (fst a - fst b)" "Sign nano_api a = sgn (fst a)"
  "MilliValue nano_api a = wrap64 (- ((- fst a) div 10 ^ 6))"
  "QString nano_api = nano_string" "ParseQuantity nano_api = nano_parse"
  "NewQuantity nano_api n f = (n * 10 ^ 9, f)" "NewMilliQuantity nano_api n f = (n * 10 ^ 6, f)"
  "Format nano_api = snd" "to_int64_oor nano_api x = int64_min"
  by (simp_all add: nano_api_def)

lemma nano_parse_itoa:
  assumes "map_of nano_suffixes s = Some u" and "\<not> is_digit s"
  shows "nano_parse (itoa n @ s) = Some (n * u, if length s = 2 then BinarySI else DecimalSI)"
  using assms by (simp add: nano_parse_def itoa_def read_sign_digit digits10_is_digit
      read_digits_digits10 read_digits_stop)

lemma nano_parse_string: "\<exists>f. nano_parse (nano_string q) = Some (fst q, f)"
proof -
  have "nano_parse (itoa n @ '''') = Some (n * 10 ^ 9, DecimalSI)"
    "nano_parse (itoa n @ ''m'') = Some (n * 10 ^ 6, DecimalSI)"
    "nano_parse (itoa n @ ''n'') = Some (n * 1, DecimalSI)" for n
    using nano_parse_itoa [of "''''" "10 ^ 9" n] nano_parse_itoa [of "''m''" "10 ^ 6" n]
      nano_parse_itoa [of "''n''" 1 n] by (simp_all add: nano_suffixes_def digit_val_def)
  then show ?thesis
    using div_mult_mod_eq [of "fst q" "10 ^ 9"] div_mult_mod_eq [of "fst q" "10 ^ 6"]
    by (auto simp: nano_string_def)
qed

interpretation nq: quantity_laws nano_api nano_val
proof unfold_locales
  fix a b :: nano
  show "Cmp nano_api a b < 0 \<longleftrightarrow> nano_val a < nano_val b"
    "0 < Cmp nano_api a b \<longleftrightarrow> nano_val b < nano_val a" "Sign nano_api a < 0 \<longleftrightarrow> nano_val a < 0"
    by (simp_all add: nano_val_def divide_less_cancel)
  show "\<exists>q'. ParseQuantity nano_api (QString nano_api a) = Some q' \<and> nano_val q' = nano_val a"
    using nano_parse_string [of a] by (auto simp: nano_val_def)
  show "MilliValue nano_api a = \<lceil>1000 * nano_val a\<rceil>"
    if "0 \<le> nano_val a" "nano_val a \<le> of_int (int64_max div 1000)"
  proof -
    have c: "\<lceil>1000 * nano_val a\<rceil> = - ((- fst a) div 10 ^ 6)"
      using ceiling_divide_eq_div [of "fst a" "10 ^ 6"] by (simp add: nano_val_def)
    have "1000 * nano_val a \<le> of_int (1000 * (int64_max div 1000))" using that by simp
    then have "\<lceil>1000 * nano_val a\<rceil> \<le> 1000 * (int64_max div 1000)" by (simp only: ceiling_le_iff)
    moreover have "0 \<le> \<lceil>1000 * nano_val a\<rceil>" using that by simp
    ultimately have "in64 \<lceil>1000 * nano_val a\<rceil>" by (simp add: in64_iff int64_max_def)
    then show ?thesis by (simp add: wrap64_id c)
  qed
  show "in64 (MilliValue nano_api a)" by (simp add: in64_wrap64)
qed (simp_all add: nano_val_def in64_def int64_min_def int64_max_def)

lemmas [go_eval] = measureOf_def IsCountable_def countPrefix_def nano_parse_def nano_suffixes_def nano_string_def

section \<open>Properties\<close>

lemma measureOf_scoped:
  assumes "\<not> HasPrefix (scope @ ''/'' @ m) countPrefix" and "CHR ''/'' \<notin> set m"
  shows "measureOf (scope @ ''/'' @ m) = m"
proof -
  have no: "LastIndex m ''/'' = - 1" using assms(2)
    by (induction m) (auto simp: HasPrefix_def)
  have "LastIndex (s @ ''/'' @ m) ''/'' = int (length s)" for s
    by (induction s) (simp_all add: no HasPrefix_def)
  then show ?thesis using assms(1) by (simp add: measureOf_def Let_def nat_add_distrib)
qed



text \<open>
  A quota key scoped by a storage class is classified by what it
  measures, never by its scope: for every scope, the claim count stays a whole number (the
  least one not below the target) although the scope contains the word \<^verbatim>\<open>storage\<close>.
\<close>

theorem Quantize_scoped_by_measure:
  assumes "quantity_laws Q val" and "\<not> HasPrefix (scope @ ''/'' @ m) countPrefix"
    and "m = ''persistentvolumeclaims''" and "0 \<le> n" and "n \<le> int64_max"
  shows "IsCountable (scope @ ''/'' @ m) \<and> (\<exists>k. val (Quantize Q (scope @ ''/'' @ m) n f) = of_int (k::int))"
proof (intro conjI)
  have "measureOf (scope @ ''/'' @ m) = m" using assms(2,3) by (intro measureOf_scoped) simp_all
  then show c: "IsCountable (scope @ ''/'' @ m)" using assms(3) by (simp add: IsCountable_def)
  show "\<exists>k. val (Quantize Q (scope @ ''/'' @ m) n f) = of_int (k::int)"
    using quantity_laws.val_Quantize [OF assms(1,4,5)] c by auto
qed

theorem Quantize_scoped_by_measure_witness:
  "\<exists>k. nano_val (Quantize nano_api ''gold.storageclass.storage.k8s.io/persistentvolumeclaims'' 4200 DecimalSI)
    = of_int (k::int)"
  using Quantize_scoped_by_measure [OF nq.quantity_laws_axioms, of "''gold.storageclass.storage.k8s.io''"
      "''persistentvolumeclaims''" 4200 DecimalSI]
  by (simp add: go_eval)

end
