(* ===== verification/Deficit.thy ===== *)
theory Deficit
  imports Quantity
begin

text \<open>
  What a blocked workload asks for: \<^verbatim>\<open>internal/sizing/deficit.go\<close>. Quota keys and milli-values
  are read from event messages, pod templates and claim templates.
\<close>

section \<open>Data\<close>

record 'q Container =
  Requests :: "'q resource_list"
  Limits :: "'q resource_list"

record 'q PodSpec =
  Containers :: "'q Container list"
  InitContainers :: "'q Container list"

record 'q PersistentVolumeClaim =
  ClaimRequests :: "'q resource_list"

section \<open>Event messages\<close>

fun parse_parts :: "'q resource_api \<Rightarrow> string list \<Rightarrow> (resource_name \<times> 'q) option" where
  "parse_parts Q [] = None"
| "parse_parts Q (part # parts) = (let p = TrimSpace part in
     if HasPrefix p ''requested: '' then
       let kv = Split (TrimPrefix p ''requested: '') ''='' in
       if length kv = 2 then
         (case ParseQuantity Q (kv ! 1) of Some q \<Rightarrow> Some (kv ! 0, q) | None \<Rightarrow> parse_parts Q parts)
       else parse_parts Q parts
     else parse_parts Q parts)"

definition ParseEventMessage :: "'q resource_api \<Rightarrow> string \<Rightarrow> (resource_name \<times> 'q) option" where
  "ParseEventMessage Q message = parse_parts Q (Split message '','')"

definition WorkloadKey :: "string \<Rightarrow> string" where
  "WorkloadKey name = (let lastHyphen = LastIndex name ''-'' in
     if lastHyphen = - 1 then name else take (nat lastHyphen) name)"

section \<open>Requests of a pod\<close>

text \<open>The quota key of a short resource name.\<close>

definition quota_key :: "bool \<Rightarrow> resource_name \<Rightarrow> resource_name" where
  "quota_key isLimit name =
     (if isLimit then
        (if name = ''cpu'' then ''limits.cpu'' else if name = ''memory'' then ''limits.memory'' else name)
      else
        (if name = ''cpu'' then ''requests.cpu'' else if name = ''memory'' then ''requests.memory''
         else if name = ''storage'' then ''requests.storage'' else name))"

definition getd :: "int smap \<Rightarrow> resource_name \<Rightarrow> int" where
  "getd m k = (case map_of m k of Some v \<Rightarrow> v | None \<Rightarrow> 0)"

text \<open>\<^verbatim>\<open>reqs[key] += qty.MilliValue()\<close>, with \<^verbatim>\<open>int64\<close> wrap-around.\<close>

definition addResources :: "'q resource_api \<Rightarrow> bool \<Rightarrow> 'q resource_list \<Rightarrow> int smap \<Rightarrow> int smap" where
  "addResources Q isLimit = fold (\<lambda>(name, qty) reqs. let key = quota_key isLimit name in
     AList.update key (wrap64 (getd reqs key + MilliValue Q qty)) reqs)"

definition addInit :: "'q resource_api \<Rightarrow> bool \<Rightarrow> 'q resource_list \<Rightarrow> int smap \<Rightarrow> int smap" where
  "addInit Q isLimit = fold (\<lambda>(name, qty) initReqs.
     AList.update (quota_key isLimit name) (MilliValue Q qty) initReqs)"

definition raise_to :: "int smap \<Rightarrow> int smap \<Rightarrow> int smap" where
  "raise_to initReqs = fold (\<lambda>(k, v) reqs. if v > getd reqs k then AList.update k v reqs else reqs) initReqs"

definition PodRequests :: "'q resource_api \<Rightarrow> 'q PodSpec \<Rightarrow> int smap" where
  "PodRequests Q spec = (let
      reqs = fold (\<lambda>c reqs. addResources Q True (Limits c) (addResources Q False (Requests c) reqs)) (Containers spec) []
    in fold (\<lambda>c reqs. raise_to (addInit Q True (Limits c) (addInit Q False (Requests c) [])) reqs) (InitContainers spec) reqs)"

definition PVCRequests :: "'q resource_api \<Rightarrow> 'q PersistentVolumeClaim list \<Rightarrow> int smap" where
  "PVCRequests Q templates = fold (\<lambda>pvc reqs. fold (\<lambda>(name, qty) reqs.
     let key = (if name = ''storage'' then ''requests.storage'' else name) in
     AList.update key (wrap64 (getd reqs key + MilliValue Q qty)) reqs) (ClaimRequests pvc) reqs) templates []"

section \<open>Sums and maxima\<close>

lemma getd_update [simp]: "getd (AList.update k v m) k' = (if k' = k then v else getd m k')"
  by (simp add: getd_def)

text \<open>What a list, and the application containers, ask of one quota key.\<close>

definition amount :: "'q resource_api \<Rightarrow> (resource_name \<Rightarrow> resource_name) \<Rightarrow> 'q resource_list \<Rightarrow> resource_name \<Rightarrow> int" where
  "amount Q key rs k = (\<Sum>(name, qty) \<leftarrow> rs. if key name = k then MilliValue Q qty else 0)"

definition app_total :: "'q resource_api \<Rightarrow> 'q Container list \<Rightarrow> resource_name \<Rightarrow> int" where
  "app_total Q cs k = (\<Sum>c \<leftarrow> cs. amount Q (quota_key False) (Requests c) k + amount Q (quota_key True) (Limits c) k)"

definition init_amount :: "'q resource_api \<Rightarrow> 'q Container \<Rightarrow> resource_name \<Rightarrow> int option" where
  "init_amount Q c = map_of (rev (map (\<lambda>(n, q). (quota_key False n, MilliValue Q q)) (Requests c)
      @ map (\<lambda>(n, q). (quota_key True n, MilliValue Q q)) (Limits c)))"

lemma wrap64_add: "wrap64 (wrap64 a + b) = wrap64 (a + b)"
proof -
  have "take_bit (Suc 63) (signed_take_bit 63 a + b) = take_bit (Suc 63) (a + b)"
    by (metis order_refl take_bit_add take_bit_signed_take_bit)
  then show ?thesis unfolding wrap64_def signed_take_bit_eq_iff_take_bit_eq .
qed

lemma wrap64_idem: "wrap64 (wrap64 a) = wrap64 a"
  by (simp add: wrap64_def)

text \<open>Sums are exact modulo \<open>2\<^sup>6\<^sup>4\<close>, whatever the intermediate wrap-arounds.\<close>

lemma getd_sum_fold:
  "wrap64 (getd (fold (\<lambda>(name, qty) reqs. let k' = key name in
      AList.update k' (wrap64 (getd reqs k' + MilliValue Q qty)) reqs) rs reqs) k)
    = wrap64 (getd reqs k + amount Q key rs k)"
proof (induction rs arbitrary: reqs)
  case (Cons r rs)
  obtain n q where r: "r = (n, q)" by (cases r)
  show ?case
    using Cons [of "AList.update (key n) (wrap64 (getd reqs (key n) + MilliValue Q q)) reqs"]
    by (auto simp: r amount_def Let_def wrap64_add add.assoc)
qed (simp add: amount_def)

lemma wrap64_app_fold:
  "wrap64 (getd (fold (\<lambda>c reqs. addResources Q True (Limits c) (addResources Q False (Requests c) reqs)) cs reqs) k)
    = wrap64 (getd reqs k + app_total Q cs k)"
proof (induction cs arbitrary: reqs)
  case (Cons c cs)
  have a: "wrap64 (getd (addResources Q l rs m) k) = wrap64 (getd m k + amount Q (quota_key l) rs k)" for l rs m
    unfolding addResources_def by (rule getd_sum_fold)
  have b: "wrap64 (x + y) = wrap64 (wrap64 x + y)" for x y by (simp add: wrap64_add)
  have "wrap64 (getd (fold (\<lambda>c reqs. addResources Q True (Limits c) (addResources Q False (Requests c) reqs)) (c # cs) reqs) k)
      = wrap64 (wrap64 (getd (addResources Q True (Limits c) (addResources Q False (Requests c) reqs)) k) + app_total Q cs k)"
    by (simp add: Cons wrap64_add)
  also have "\<dots> = wrap64 (getd (addResources Q False (Requests c) reqs) k + (amount Q (quota_key True) (Limits c) k + app_total Q cs k))"
    by (subst a) (simp only: wrap64_add add.assoc)
  also have "\<dots> = wrap64 (wrap64 (getd (addResources Q False (Requests c) reqs) k) + (amount Q (quota_key True) (Limits c) k + app_total Q cs k))"
    by (rule b)
  also have "\<dots> = wrap64 (getd reqs k + app_total Q (c # cs) k)"
    by (subst a) (simp add: wrap64_add app_total_def add.assoc)
  finally show ?case .
qed (simp add: app_total_def)

lemma in64_getd_fold:
  assumes "\<And>k. in64 (getd reqs k)"
  shows "in64 (getd (fold (\<lambda>c reqs. addResources Q True (Limits c) (addResources Q False (Requests c) reqs)) cs reqs) k)"
proof -
  have a: "\<forall>k. in64 (getd (addResources Q l rs m) k)" if "\<forall>k. in64 (getd m k)" for l rs m
    using that unfolding addResources_def by (induction rs arbitrary: m) (auto simp: Let_def in64_wrap64)
  have "\<forall>k. in64 (getd (fold (\<lambda>c reqs. addResources Q True (Limits c) (addResources Q False (Requests c) reqs)) cs reqs) k)"
    if "\<forall>k. in64 (getd reqs k)" for reqs
    using that by (induction cs arbitrary: reqs) (simp_all add: a)
  then show ?thesis using assms by blast
qed

text \<open>The sum over the application containers, as the code computes it.\<close>

lemma getd_app:
  "getd (fold (\<lambda>c reqs. addResources Q True (Limits c) (addResources Q False (Requests c) reqs)) cs []) k = wrap64 (app_total Q cs k)"
proof -
  have e: "getd [] = (\<lambda>k. 0)" by (simp add: getd_def fun_eq_iff)
  have "in64 (getd (fold (\<lambda>c reqs. addResources Q True (Limits c) (addResources Q False (Requests c) reqs)) cs []) k)"
    by (rule in64_getd_fold) (simp add: e in64_iff)
  from wrap64_id [OF this] wrap64_app_fold [of Q cs "[]" k] show ?thesis by (simp add: e)
qed

lemma map_of_addInit: "map_of (addInit Q l rs m) = map_of m ++ map_of (rev (map (\<lambda>(n, q). (quota_key l n, MilliValue Q q)) rs))"
  unfolding addInit_def by (induction rs arbitrary: m) (auto simp: fun_eq_iff map_add_def split: option.splits)

lemma distinct_addInit: "distinct (map fst m) \<Longrightarrow> distinct (map fst (addInit Q l rs m))"
  unfolding addInit_def by (induction rs arbitrary: m) (auto simp: distinct_update)

lemma init_amount_code:
  "map_of (addInit Q True (Limits c) (addInit Q False (Requests c) [])) = init_amount Q c"
  by (simp add: map_of_addInit init_amount_def map_of_append)

lemma getd_raise_to:
  "distinct (map fst ini) \<Longrightarrow> getd (raise_to ini reqs) k = (case map_of ini k of None \<Rightarrow> getd reqs k | Some v \<Rightarrow> max (getd reqs k) v)"
proof (induction ini arbitrary: reqs)
  case (Cons kv ini)
  obtain k' v where kv: "kv = (k', v)" by (cases kv)
  have step: "raise_to (kv # ini) reqs = raise_to ini (if v > getd reqs k' then AList.update k' v reqs else reqs)"
    by (simp add: raise_to_def kv)
  have "k' \<notin> fst ` set ini" using Cons.prems by (simp add: kv)
  then have "map_of ini k' = None" by (simp add: map_of_eq_None_iff)
  then show ?case using Cons.IH Cons.prems unfolding step by (auto simp: kv max_def split: option.split)
qed (simp add: raise_to_def)

lemma getd_init_fold:
  "getd (fold (\<lambda>c reqs. raise_to (addInit Q True (Limits c) (addInit Q False (Requests c) [])) reqs) cs reqs) k
    = fold (\<lambda>c m. case init_amount Q c k of None \<Rightarrow> m | Some v \<Rightarrow> max m v) cs (getd reqs k)"
proof (induction cs arbitrary: reqs)
  case (Cons c cs)
  have d: "distinct (map fst (addInit Q True (Limits c) (addInit Q False (Requests c) [])))"
    by (simp add: distinct_addInit)
  show ?case
    using Cons [of "raise_to (addInit Q True (Limits c) (addInit Q False (Requests c) [])) reqs"]
    by (simp add: getd_raise_to [OF d] init_amount_code)
qed simp

lemma fold_max_option:
  "fold (\<lambda>c m. case f c of None \<Rightarrow> m | Some v \<Rightarrow> max m v) cs (b::int) = Max (insert b {v. \<exists>c \<in> set cs. f c = Some v})"
proof (induction cs arbitrary: b)
  case (Cons c cs)
  have fin: "finite {v. \<exists>c \<in> set cs. f c = Some v}"
    by (rule finite_subset [of _ "(\<lambda>c. the (f c)) ` set cs"]) force+
  show ?case
  proof (cases "f c")
    case None
    then have "{v. \<exists>c \<in> set (c # cs). f c = Some v} = {v. \<exists>c \<in> set cs. f c = Some v}" by auto
    then show ?thesis using Cons None by simp
  next
    case (Some v)
    then have "{v. \<exists>c \<in> set (c # cs). f c = Some v} = insert v {v. \<exists>c \<in> set cs. f c = Some v}" by auto
    moreover have "Max (insert (max b v) S) = Max (insert b (insert v S))" if "finite S" for S
      using that by (cases "S = {}") (simp_all add: max.assoc)
    ultimately show ?thesis using Cons [of "max b v"] Some fin by simp
  qed
qed simp

text \<open>
  (C39) The effective request of a pod for every quota key is the larger of the sum
  over the application containers (in \<^verbatim>\<open>int64\<close> arithmetic) and the largest value of an init
  container, as Kubernetes defines it.
\<close>

theorem PodRequests_effective:
  "getd (PodRequests Q spec) k = Max (insert (wrap64 (app_total Q (Containers spec) k))
     {v. \<exists>c \<in> set (InitContainers spec). init_amount Q c k = Some v})"
  unfolding PodRequests_def Let_def getd_init_fold getd_app by (rule fold_max_option)

text \<open>
  A resource other than CPU and memory that a container both requests and
  limits, such as ephemeral storage, is counted twice: request and limit share one key.
\<close>

theorem PodRequests_counts_twice:
  "getd (PodRequests nano_api \<lparr>Containers = [\<lparr>Requests = [(''ephemeral-storage'', (10 ^ 9, BinarySI))],
       Limits = [(''ephemeral-storage'', (10 ^ 9, BinarySI))]\<rparr>], InitContainers = []\<rparr>) ''ephemeral-storage'' = 2000"
  by (simp add: PodRequests_def addResources_def quota_key_def getd_def wrap64_id in64_iff)

section \<open>Workload keys\<close>

lemma LastIndex_append:
  "CHR ''-'' \<notin> set s \<Longrightarrow> LastIndex (w @ CHR ''-'' # s) ''-'' = int (length w)"
proof -
  assume "CHR ''-'' \<notin> set s"
  then have n: "LastIndex s ''-'' = - 1" by (induction s) (auto simp: HasPrefix_def)
  show ?thesis by (induction w) (simp_all add: n HasPrefix_def)
qed

lemma WorkloadKey_append: "CHR ''-'' \<notin> set s \<Longrightarrow> WorkloadKey (w @ ''-'' @ s) = w"
  by (simp add: WorkloadKey_def LastIndex_append Let_def)

section \<open>Reading an event message\<close>

lemma Index_char: "c \<notin> set a \<Longrightarrow> Index (a @ c # b) [c] = int (length a)"
  by (induction a) (auto simp: HasPrefix_def Let_def)

lemma Index_char_None: "c \<notin> set a \<Longrightarrow> Index a [c] = - 1"
  by (induction a) (auto simp: HasPrefix_def Let_def)

lemma Split_char_None: "c \<notin> set a \<Longrightarrow> Split a [c] = [a]"
  by (simp add: Split.simps [of a] Index_char_None)

lemma Split_char_first: "c \<notin> set a \<Longrightarrow> Split (a @ c # b) [c] = a # Split b [c]"
  by (subst Split.simps) (simp add: Index_char Let_def)

lemma Split_char_append: "Split (a @ c # b) [c] = Split a [c] @ Split b [c]"
proof (induction "length a" arbitrary: a rule: less_induct)
  case less
  show ?case
  proof (cases "c \<in> set a")
    case True
    then obtain a1 a2 where a: "a = a1 @ c # a2" "c \<notin> set a1" by (meson split_list_first)
    then have "length a2 < length a" by simp
    from less [OF this] a show ?thesis by (simp add: Split_char_first)
  qed (simp add: Split_char_first Split_char_None)
qed

lemma parse_parts_append:
  "parse_parts Q (xs @ ys) = (case parse_parts Q xs of None \<Rightarrow> parse_parts Q ys | Some r \<Rightarrow> Some r)"
  by (induction xs) (auto simp: Let_def split: option.split)

definition plain :: "string \<Rightarrow> bool" where
  "plain s \<longleftrightarrow> s \<noteq> [] \<and> list_all (\<lambda>c. CHR 0x21 \<le> c \<and> c \<le> CHR 0x7E) s"

lemma plain_rev: "plain s \<Longrightarrow> \<exists>c t. rev s = c # t \<and> CHR 0x21 \<le> c \<and> c \<le> CHR 0x7E"
  by (cases s rule: rev_cases) (auto simp: plain_def)

text \<open>Runes that do not start with a printable character never match one.\<close>

definition no_plain_start :: "string list \<Rightarrow> bool" where
  "no_plain_start = list_all (\<lambda>w. w \<noteq> [] \<and> \<not> (CHR 0x21 \<le> hd w \<and> hd w \<le> CHR 0x7E))"

lemma trim_left_plain:
  assumes "no_plain_start ws" and "CHR 0x21 \<le> c" and "c \<le> CHR 0x7E"
  shows "trim_left ws (c # t) = c # t"
proof -
  have "\<not> HasPrefix (c # t) w" if "w \<in> set ws" for w
  proof
    assume p: "HasPrefix (c # t) w"
    have "w \<noteq> [] \<and> \<not> (CHR 0x21 \<le> hd w \<and> hd w \<le> CHR 0x7E)"
      using assms(1) that unfolding no_plain_start_def list_all_iff by blast
    with p assms(2,3) show False by (cases w) (simp_all add: HasPrefix_def)
  qed
  then have "find (\<lambda>w. w \<noteq> [] \<and> HasPrefix (c # t) w) ws = None"
    unfolding find_None_iff by blast
  then show ?thesis by (simp add: trim_left.simps)
qed

lemma trim_right_plain: "CHR 0x21 \<le> c \<Longrightarrow> c \<le> CHR 0x7E \<Longrightarrow> trim_left (map rev space_runes) (c # t) = c # t"
  by (rule trim_left_plain) code_simp

lemma TrimSpace_requested:
  assumes "plain v"
  shows "TrimSpace ('' requested: '' @ r @ v) = ''requested: '' @ r @ v"
proof -
  have "trim_left space_runes ('' requested: '' @ r @ v) = ''requested: '' @ r @ v"
    by (subst trim_left.simps, simp add: space_runes_def HasPrefix_def,
        subst trim_left.simps, simp add: HasPrefix_def)
  moreover obtain c t where "rev v = c # t" "CHR 0x21 \<le> c" "c \<le> CHR 0x7E" using plain_rev [OF assms] by blast
  ultimately show ?thesis
    by (simp add: TrimSpace_def trim_right_plain rev_swap)
qed

text \<open>
  The resource and the quantity of a message are the ones after its
  first readable \<^verbatim>\<open>requested:\<close> part. Further resources of the same request, which
  Kubernetes separates by commas, are not read.
\<close>

theorem ParseEventMessage_requested:
  assumes "ParseEventMessage Q before = None"
    and "CHR '','' \<notin> set r \<union> set v" and "CHR ''='' \<notin> set r \<union> set v" and "plain v"
    and "ParseQuantity Q v = Some q"
    and "rest = [] \<or> hd rest = CHR '',''"
  shows "ParseEventMessage Q (before @ '', requested: '' @ r @ ''='' @ v @ rest) = Some (r, q)"
proof -
  let ?part = "'' requested: '' @ r @ ''='' @ v"
  have c: "CHR '','' \<notin> set ?part" using assms(2) by auto
  have head: "\<exists>ps. Split (?part @ rest) '','' = ?part # ps"
  proof (cases rest)
    case Nil
    then show ?thesis using Split_char_None [OF c] by simp
  next
    case (Cons d rest')
    then have "rest = CHR '','' # rest'" using assms(6) by simp
    then show ?thesis using Split_char_first [OF c, of rest'] by simp
  qed
  then obtain ps where ps: "Split (?part @ rest) '','' = ?part # ps" ..
  have t: "TrimSpace ?part = ''requested: '' @ r @ ''='' @ v"
    using TrimSpace_requested [of v "r @ ''=''"] assms(4) by simp
  have kv: "Split (r @ CHR ''='' # v) ''='' = [r, v]"
    using assms(3) by (simp add: Split_char_first Split_char_None)
  have tp: "TrimPrefix (''requested: '' @ x) ''requested: '' = x" for x by (rule TrimPrefix_append)
  have hp: "HasPrefix (''requested: '' @ x) ''requested: ''" for x by (rule HasPrefix_append)
  have part: "parse_parts Q (?part # ps) = Some (r, q)"
    unfolding parse_parts.simps t Let_def tp using hp kv assms(5) by simp
  have "Split (before @ CHR '','' # ?part @ rest) '','' = Split before '','' @ ?part # ps"
    unfolding Split_char_append ps ..
  then show ?thesis using assms(1) part
    by (simp add: ParseEventMessage_def parse_parts_append del: parse_parts.simps)
qed

theorem ParseEventMessage_requested_witness:
  "ParseEventMessage nano_api ''exceeded quota: compute, requested: cpu=500m,memory=1Gi, used: cpu=10''
     = Some (''cpu'', (500000000, DecimalSI))"
proof -
  have b: "ParseEventMessage nano_api ''exceeded quota: compute'' = None"
    by (simp add: ParseEventMessage_def go_eval Let_def)
  have q: "ParseQuantity nano_api ''500m'' = Some (500000000, DecimalSI)"
    by (simp add: nano_parse_def nano_suffixes_def go_eval)
  show ?thesis
    using ParseEventMessage_requested [OF b _ _ _ q, of "''cpu''" "'',memory=1Gi, used: cpu=10''"]
    by (simp add: plain_def less_eq_char_def)
qed

end
