(* ===== verification/Policy.thy ===== *)
theory Policy
  imports Quantity
begin

text \<open>
  The effective policy of a quota: \<^verbatim>\<open>internal/sizing/policy.go\<close>. \<^verbatim>\<open>ParsePolicy\<close> merges the
  annotations of a namespace onto the global defaults.

  The order of the annotation list is the order in which one execution ranges over the Go map.
  A warning's message is kept as the arguments of its format string.
\<close>

section \<open>Data\<close>

datatype WarningKind = WarningDeprecated | WarningRejected

datatype warning_message =
    NoMessage
  | Rejection string string string
  | ShrinkUnrecognised string
  | Deprecation string string

record PolicyWarning =
  Kind :: WarningKind
  Message :: warning_message

record 'q policy =
  Headroom :: "float64 smap"
  MinMap :: "'q smap"
  Tolerance :: float64
  WindowDays :: int
  MaxShrinkStep :: float64
  ShrinkCooldown :: duration
  ShrinkPRTTL :: duration
  GrowCooldown :: duration
  Enabled :: bool
  ShrinkEnabled :: bool

abbreviation f_zero :: float64 where "f_zero \<equiv> Fin 0 1"
abbreviation f_one :: float64 where "f_one \<equiv> Fin 1 1"

definition AnnotationPrefix :: string where "AnnotationPrefix = ''resizer.io/''"

definition DefaultKey :: string where "DefaultKey = ''default''"

definition DefaultPolicy :: "'q policy" where
  "DefaultPolicy = \<lparr>Headroom = [(DefaultKey, round64 25 100)], MinMap = [], Tolerance = round64 15 100,
     WindowDays = 14, MaxShrinkStep = round64 25 100, ShrinkCooldown = 7 * 24 * hour,
     ShrinkPRTTL = 7 * 24 * hour, GrowCooldown = 60 * minute, Enabled = True, ShrinkEnabled = True\<rparr>"

section \<open>Lookups\<close>

definition resourceFamily :: "resource_name \<Rightarrow> resource_name option" where
  "resourceFamily res = (let name = measureOf res in
     if Contains name ''cpu'' then Some ''cpu''
     else if Contains name ''memory'' then Some ''memory''
     else if Contains name ''storage'' then Some ''storage''
     else None)"

definition HeadroomFor :: "'q policy \<Rightarrow> resource_name \<Rightarrow> float64" where
  "HeadroomFor p res = (case map_of (Headroom p) res of Some v \<Rightarrow> v
   | None \<Rightarrow> (case Option.bind (resourceFamily res) (map_of (Headroom p)) of Some v \<Rightarrow> v
     | None \<Rightarrow> (case map_of (Headroom p) DefaultKey of Some v \<Rightarrow> v
       | None \<Rightarrow> round64 25 100)))"

definition MinFor :: "'q policy \<Rightarrow> resource_name \<Rightarrow> 'q option" where
  "MinFor p res = (case map_of (MinMap p) res of Some q \<Rightarrow> Some q
   | None \<Rightarrow> Option.bind (resourceFamily res) (map_of (MinMap p)))"

section \<open>Reading one annotation\<close>

definition parseFraction :: "string \<Rightarrow> float64 option" where
  "parseFraction value = (if HasSuffix value ''%''
     then (case ParseFloat (TrimSuffix value ''%'') of None \<Rightarrow> None | Some v \<Rightarrow> Some (f_div v (Fin 100 1)))
     else ParseFloat value)"

definition suffixKey :: "string \<Rightarrow> string \<Rightarrow> resource_name" where
  "suffixKey name sfx = (let trimmed = TrimSuffix (TrimSuffix name sfx) ''-''
     in if trimmed = [] then DefaultKey else trimmed)"

definition noWarning :: PolicyWarning where
  "noWarning = \<lparr>Kind = WarningDeprecated, Message = NoMessage\<rparr>"

definition rejectionWarning :: "string \<Rightarrow> string \<Rightarrow> string \<Rightarrow> PolicyWarning" where
  "rejectionWarning name value requirement = \<lparr>Kind = WarningRejected, Message = Rejection name value requirement\<rparr>"

definition deprecationWarning :: "resource_name \<Rightarrow> string \<Rightarrow> PolicyWarning" where
  "deprecationWarning res old = (let prefix = (if res = DefaultKey then [] else res @ ''-'')
     in \<lparr>Kind = WarningDeprecated, Message = Deprecation prefix old\<rparr>)"

definition parseShrinkOptOut :: "string \<Rightarrow> 'q policy \<Rightarrow> 'q policy \<times> PolicyWarning" where
  "parseShrinkOptOut value out =
     (if EqualFold value ''true'' then (out, noWarning)
      else if EqualFold value ''false'' then (out\<lparr>ShrinkEnabled := False\<rparr>, noWarning)
      else (out\<lparr>ShrinkEnabled := False\<rparr>, \<lparr>Kind = WarningRejected, Message = ShrinkUnrecognised value\<rparr>))"

text \<open>\<^verbatim>\<open>time.Duration(v) * 24 * time.Hour\<close> and \<^verbatim>\<open>time.Duration(v) * time.Minute\<close> wrap around.\<close>

definition days_duration :: "int \<Rightarrow> duration" where
  "days_duration v = wrap64 (wrap64 (v * 24) * hour)"

definition minutes_duration :: "int \<Rightarrow> duration" where
  "minutes_duration v = wrap64 (v * minute)"

text \<open>
  A value that parses and is valid is stored; anything else keeps the policy and is reported:
  \<^verbatim>\<open>if v, ok := parse(value); ok && valid(v) { store; return PolicyWarning{} }; return rejection\<close>.
\<close>

definition if_valid :: "'a option \<Rightarrow> ('a \<Rightarrow> bool) \<Rightarrow> ('a \<Rightarrow> 'q policy) \<Rightarrow> 'q policy \<Rightarrow> PolicyWarning
    \<Rightarrow> 'q policy \<times> PolicyWarning" where
  "if_valid parsed valid store out rejection = (case parsed of
     Some v \<Rightarrow> if valid v then (store v, noWarning) else (out, rejection)
   | None \<Rightarrow> (out, rejection))"

definition parseScalar :: "'q resource_api \<Rightarrow> string \<Rightarrow> string \<Rightarrow> 'q policy \<Rightarrow> 'q policy \<times> PolicyWarning" where
  "parseScalar Q name value out =
     (if HasSuffix name ''-min'' then
        if_valid (ParseQuantity Q value) (\<lambda>_. True)
          (\<lambda>q. out\<lparr>MinMap := AList.update (TrimSuffix name ''-min'') q (MinMap out)\<rparr>) out
          (rejectionWarning name value ''must be a valid resource quantity'')
      else if name = ''tolerance'' then
        if_valid (parseFraction value) (\<lambda>v. f_le f_zero v \<and> f_less v f_one) (\<lambda>v. out\<lparr>Tolerance := v\<rparr>) out
          (rejectionWarning name value ''must be a fraction in [0, 1), e.g. \"0.15\" or \"15%\"'')
      else if name = ''max-shrink-step'' then
        if_valid (parseFraction value) (\<lambda>v. f_less f_zero v \<and> f_less v f_one) (\<lambda>v. out\<lparr>MaxShrinkStep := v\<rparr>) out
          (rejectionWarning name value ''must be a fraction in (0, 1), e.g. \"0.25\" or \"25%\"'')
      else if name = ''window-days'' then
        if_valid (Atoi value) (\<lambda>v. v > 0) (\<lambda>v. out\<lparr>WindowDays := v\<rparr>) out
          (rejectionWarning name value ''must be a positive integer'')
      else if name = ''shrink-cooldown-days'' then
        if_valid (Atoi value) (\<lambda>v. v \<ge> 0) (\<lambda>v. out\<lparr>ShrinkCooldown := days_duration v\<rparr>) out
          (rejectionWarning name value ''must be a non-negative integer'')
      else if name = ''shrink-pr-ttl-days'' then
        if_valid (Atoi value) (\<lambda>v. v > 0) (\<lambda>v. out\<lparr>ShrinkPRTTL := days_duration v\<rparr>) out
          (rejectionWarning name value ''must be a positive integer'')
      else if name = ''cooldown-minutes'' then
        if_valid (Atoi value) (\<lambda>v. v \<ge> 0) (\<lambda>v. out\<lparr>GrowCooldown := minutes_duration v\<rparr>) out
          (rejectionWarning name value ''must be a non-negative integer'')
      else if name = ''enabled'' then (out\<lparr>Enabled := (value \<noteq> ''false'')\<rparr>, noWarning)
      else if name = ''shrink-enabled'' then parseShrinkOptOut value out
      else (out, noWarning))"

section \<open>Merging all annotations\<close>

record 'q parse_state =
  ps_out :: "'q policy"
  fromHeadroom :: "float64 smap"
  fromIncrement :: "float64 smap"
  fromThreshold :: "float64 smap"
  warnings :: "PolicyWarning list"

text \<open>The body of the loop over the annotations.\<close>

definition parse_annotation :: "'q resource_api \<Rightarrow> string \<times> string \<Rightarrow> 'q parse_state \<Rightarrow> 'q parse_state" where
  "parse_annotation Q kv st = (case kv of (key, value) \<Rightarrow>
     if \<not> HasPrefix key AnnotationPrefix then st
     else let name = TrimPrefix key AnnotationPrefix in
       if HasSuffix name ''headroom'' then
         (case parseFraction value of
            Some v \<Rightarrow> if f_le f_zero v
              then st\<lparr>fromHeadroom := AList.update (suffixKey name ''headroom'') v (fromHeadroom st)\<rparr>
              else st\<lparr>warnings := warnings st @ [rejectionWarning name value ''must be a fraction >= 0, e.g. \"0.25\" or \"25%\"'']\<rparr>
          | None \<Rightarrow> st\<lparr>warnings := warnings st @ [rejectionWarning name value ''must be a fraction >= 0, e.g. \"0.25\" or \"25%\"'']\<rparr>)
       else if HasSuffix name ''increment'' then
         (case parseFraction value of
            Some v \<Rightarrow> if f_le f_zero v
              then st\<lparr>fromIncrement := AList.update (suffixKey name ''increment'') v (fromIncrement st)\<rparr>
              else st\<lparr>warnings := warnings st @ [rejectionWarning name value ''must be a fraction >= 0, e.g. \"0.2\" or \"20%\"'']\<rparr>
          | None \<Rightarrow> st\<lparr>warnings := warnings st @ [rejectionWarning name value ''must be a fraction >= 0, e.g. \"0.2\" or \"20%\"'']\<rparr>)
       else if HasSuffix name ''threshold'' then
         (case ParseFloat value of
            Some v \<Rightarrow> if f_less f_zero v \<and> f_le v (Fin 100 1)
              then st\<lparr>fromThreshold := AList.update (suffixKey name ''threshold'')
                       (f_sub (f_div (Fin 100 1) v) f_one) (fromThreshold st)\<rparr>
              else st\<lparr>warnings := warnings st @ [rejectionWarning name value ''must be a percentage in (0, 100]'']\<rparr>
          | None \<Rightarrow> st\<lparr>warnings := warnings st @ [rejectionWarning name value ''must be a percentage in (0, 100]'']\<rparr>)
       else (case parseScalar Q name value (ps_out st) of (out, w) \<Rightarrow>
         if Message w \<noteq> NoMessage then st\<lparr>ps_out := out, warnings := warnings st @ [w]\<rparr>
         else st\<lparr>ps_out := out\<rparr>))"

text \<open>The three loops that apply the collected values in the order of their precedence.\<close>

definition apply_threshold ::
  "float64 smap \<Rightarrow> float64 smap \<Rightarrow> resource_name \<times> float64 \<Rightarrow> float64 smap \<times> PolicyWarning list
   \<Rightarrow> float64 smap \<times> PolicyWarning list" where
  "apply_threshold hs is rv hw = (case rv of (res, v) \<Rightarrow>
     if map_of hs res \<noteq> None then hw else if map_of is res \<noteq> None then hw
     else (AList.update res v (fst hw), snd hw @ [deprecationWarning res ''threshold'']))"

definition apply_increment ::
  "float64 smap \<Rightarrow> resource_name \<times> float64 \<Rightarrow> float64 smap \<times> PolicyWarning list
   \<Rightarrow> float64 smap \<times> PolicyWarning list" where
  "apply_increment hs rv hw = (case rv of (res, v) \<Rightarrow>
     if map_of hs res \<noteq> None then hw
     else (AList.update res v (fst hw), snd hw @ [deprecationWarning res ''increment'']))"

definition apply_headroom :: "resource_name \<times> float64 \<Rightarrow> float64 smap \<Rightarrow> float64 smap" where
  "apply_headroom rv h = (case rv of (res, v) \<Rightarrow> AList.update res v h)"

definition ParsePolicy :: "'q resource_api \<Rightarrow> string smap \<Rightarrow> 'q policy \<Rightarrow> 'q policy \<times> PolicyWarning list" where
  "ParsePolicy Q annotations base = (let
      st = fold (parse_annotation Q) annotations
             \<lparr>ps_out = base, fromHeadroom = [], fromIncrement = [], fromThreshold = [], warnings = []\<rparr>;
      hw = fold (apply_threshold (fromHeadroom st) (fromIncrement st)) (fromThreshold st)
             (Headroom (ps_out st), warnings st);
      hw = fold (apply_increment (fromHeadroom st)) (fromIncrement st) hw;
      h = fold apply_headroom (fromHeadroom st) (fst hw)
    in ((ps_out st)\<lparr>Headroom := h\<rparr>, snd hw))"

section \<open>What each annotation contributes\<close>

text \<open>One loop of map updates, and a loop that touches a field for one key only.\<close>

definition upd :: "string \<times> 'v \<Rightarrow> 'v smap \<Rightarrow> 'v smap" where
  "upd kv m = AList.update (fst kv) (snd kv) m"

lemma map_of_fold_upd: "map_of (fold upd xs m) = map_of m ++ map_of (rev xs)"
  by (induction xs arbitrary: m) (auto simp: upd_def map_add_def fun_eq_iff split: option.splits)

lemma distinct_fold_upd: "distinct (map fst m) \<Longrightarrow> distinct (map fst (fold upd xs m))"
  by (induction xs arbitrary: m) (auto simp: upd_def distinct_update)

lemma map_of_rev_distinct: "distinct (map fst xs) \<Longrightarrow> map_of (rev xs) = map_of xs"
  by (metis distinct_rev map_of_eqI map_of_inject_set rev_map set_rev)

lemma fold_field:
  assumes "\<And>k v st. F (step (k, v) st) = (if k = K then g v (F st) else F st)"
    and "distinct (map fst as)"
  shows "F (fold step as st) = (case map_of as K of None \<Rightarrow> F st | Some v \<Rightarrow> g v (F st))"
  using assms(2)
proof (induction as arbitrary: st)
  case (Cons kv as)
  obtain k v where kv: "kv = (k, v)" by (cases kv)
  have "map_of as K = None" if "k = K"
    using Cons.prems kv that by (simp add: map_of_eq_None_iff)
  then show ?case using Cons by (auto simp: kv assms(1) split: option.split)
qed simp

text \<open>The fraction annotations, by suffix.\<close>

definition named :: "string \<Rightarrow> string \<Rightarrow> bool" where
  "named sfx key \<longleftrightarrow> HasPrefix key AnnotationPrefix \<and> HasSuffix (TrimPrefix key AnnotationPrefix) sfx"

definition headroom_of :: "string \<times> string \<Rightarrow> (resource_name \<times> float64) option" where
  "headroom_of kv = (case parseFraction (snd kv) of None \<Rightarrow> None
   | Some v \<Rightarrow> if named ''headroom'' (fst kv) \<and> f_le f_zero v
       then Some (suffixKey (TrimPrefix (fst kv) AnnotationPrefix) ''headroom'', v) else None)"

definition increment_of :: "string \<times> string \<Rightarrow> (resource_name \<times> float64) option" where
  "increment_of kv = (case parseFraction (snd kv) of None \<Rightarrow> None
   | Some v \<Rightarrow> if named ''increment'' (fst kv) \<and> f_le f_zero v
       then Some (suffixKey (TrimPrefix (fst kv) AnnotationPrefix) ''increment'', v) else None)"

definition threshold_of :: "string \<times> string \<Rightarrow> (resource_name \<times> float64) option" where
  "threshold_of kv = (case ParseFloat (snd kv) of None \<Rightarrow> None
   | Some v \<Rightarrow> if named ''threshold'' (fst kv) \<and> f_less f_zero v \<and> f_le v (Fin 100 1)
       then Some (suffixKey (TrimPrefix (fst kv) AnnotationPrefix) ''threshold'', f_sub (f_div (Fin 100 1) v) f_one)
       else None)"

lemma suffix_clash:
  "HasSuffix s ''headroom'' \<Longrightarrow> \<not> HasSuffix s ''increment''"
  "HasSuffix s ''headroom'' \<Longrightarrow> \<not> HasSuffix s ''threshold''"
  "HasSuffix s ''increment'' \<Longrightarrow> \<not> HasSuffix s ''threshold''"
  by (auto simp: HasSuffix_iff)

lemma collect_step:
  "fromHeadroom (parse_annotation Q kv st) = fold upd (case headroom_of kv of None \<Rightarrow> [] | Some e \<Rightarrow> [e]) (fromHeadroom st)"
  "fromIncrement (parse_annotation Q kv st) = fold upd (case increment_of kv of None \<Rightarrow> [] | Some e \<Rightarrow> [e]) (fromIncrement st)"
  "fromThreshold (parse_annotation Q kv st) = fold upd (case threshold_of kv of None \<Rightarrow> [] | Some e \<Rightarrow> [e]) (fromThreshold st)"
  using suffix_clash [of "TrimPrefix (fst kv) AnnotationPrefix"]
  by (cases kv; auto simp: parse_annotation_def headroom_of_def increment_of_def threshold_of_def named_def upd_def
      Let_def split: option.splits prod.splits if_splits)+

lemma map_filter_Cons: "List.map_filter f (x # xs) = (case f x of None \<Rightarrow> [] | Some y \<Rightarrow> [y]) @ List.map_filter f xs"
  by (simp add: List.map_filter_simps split: option.split)

lemma collected:
  "fromHeadroom (fold (parse_annotation Q) as st) = fold upd (List.map_filter headroom_of as) (fromHeadroom st)"
  "fromIncrement (fold (parse_annotation Q) as st) = fold upd (List.map_filter increment_of as) (fromIncrement st)"
  "fromThreshold (fold (parse_annotation Q) as st) = fold upd (List.map_filter threshold_of as) (fromThreshold st)"
  by (induction as arbitrary: st) (simp_all add: collect_step map_filter_Cons List.map_filter_simps(2) split: option.split)

lemma apply_threshold_fold:
  "fst (fold (apply_threshold hs ins) ts hw)
    = fold upd (filter (\<lambda>rv. map_of hs (fst rv) = None \<and> map_of ins (fst rv) = None) ts) (fst hw)"
  by (induction ts arbitrary: hw) (auto simp: apply_threshold_def upd_def split: prod.splits)

lemma apply_increment_fold:
  "fst (fold (apply_increment hs) ins hw) = fold upd (filter (\<lambda>rv. map_of hs (fst rv) = None) ins) (fst hw)"
  by (induction ins arbitrary: hw) (auto simp: apply_increment_def upd_def split: prod.splits)

lemma apply_headroom_upd: "apply_headroom = upd"
  by (simp add: fun_eq_iff apply_headroom_def upd_def)

lemma map_of_filter_fst: "map_of (filter (\<lambda>kv. P (fst kv)) xs) k = (if P k then map_of xs k else None)"
  by (induction xs) auto

lemma if_valid_other: "(\<And>v. F (store v) = F out) \<Longrightarrow> F (fst (if_valid parsed valid store out r)) = F out"
  by (simp add: if_valid_def split: option.split)

lemma parseScalar_Headroom [simp]: "Headroom (fst (parseScalar Q name value out)) = Headroom out"
  by (simp add: parseScalar_def parseShrinkOptOut_def if_valid_other)

definition is_scalar_key :: "string \<Rightarrow> bool" where
  "is_scalar_key key \<longleftrightarrow> HasPrefix key AnnotationPrefix
     \<and> \<not> named ''headroom'' key \<and> \<not> named ''increment'' key \<and> \<not> named ''threshold'' key"

lemma ps_out_step:
  "ps_out (parse_annotation Q (k, v) st) =
     (if is_scalar_key k then fst (parseScalar Q (TrimPrefix k AnnotationPrefix) v (ps_out st)) else ps_out st)"
  by (auto simp: parse_annotation_def is_scalar_key_def named_def Let_def split: option.split prod.split)

lemma Headroom_ps_out: "Headroom (ps_out (fold (parse_annotation Q) as st)) = Headroom (ps_out st)"
  by (induction as arbitrary: st) (auto simp: ps_out_step)

lemma ParsePolicy_Headroom:
  "map_of (Headroom (fst (ParsePolicy Q as base))) = map_of (Headroom base)
     ++ map_of (rev (List.map_filter threshold_of as))
     ++ map_of (rev (List.map_filter increment_of as))
     ++ map_of (rev (List.map_filter headroom_of as))"
proof -
  define hs where "hs = fold upd (List.map_filter headroom_of as) []"
  define ins where "ins = fold upd (List.map_filter increment_of as) []"
  define ts where "ts = fold upd (List.map_filter threshold_of as) []"
  have m: "map_of hs = map_of (rev (List.map_filter headroom_of as))"
    "map_of ins = map_of (rev (List.map_filter increment_of as))"
    "map_of ts = map_of (rev (List.map_filter threshold_of as))"
    by (simp_all add: hs_def ins_def ts_def map_of_fold_upd)
  have d: "distinct (map fst hs)" "distinct (map fst ins)" "distinct (map fst ts)"
    by (simp_all add: hs_def ins_def ts_def distinct_fold_upd)
  have "map_of (Headroom (fst (ParsePolicy Q as base))) =
      map_of (fold upd hs (fold upd (filter (\<lambda>rv. map_of hs (fst rv) = None) ins)
        (fold upd (filter (\<lambda>rv. map_of hs (fst rv) = None \<and> map_of ins (fst rv) = None) ts) (Headroom base))))"
    by (simp add: ParsePolicy_def Let_def collected apply_threshold_fold apply_increment_fold apply_headroom_upd
        Headroom_ps_out hs_def ins_def ts_def)
  also have "\<dots> = map_of (Headroom base) ++ map_of ts ++ map_of ins ++ map_of hs"
    unfolding map_of_fold_upd rev_filter [symmetric]
    using map_of_filter_fst [where P = "\<lambda>r. map_of hs r = None" and xs = "rev ins"]
      map_of_filter_fst [where P = "\<lambda>r. map_of hs r = None \<and> map_of ins r = None" and xs = "rev ts"]
    by (auto simp: fun_eq_iff map_add_def map_of_rev_distinct d rev_filter split: option.splits)
  finally show ?thesis by (simp add: m)
qed

section \<open>Scalars\<close>

lemma prefix_key: "HasPrefix k AnnotationPrefix \<Longrightarrow> TrimPrefix k AnnotationPrefix = n \<longleftrightarrow> k = AnnotationPrefix @ n"
  by (auto simp: HasPrefix_iff)

lemma scalar_names:
  "is_scalar_key (AnnotationPrefix @ ''tolerance'')" "is_scalar_key (AnnotationPrefix @ ''max-shrink-step'')"
  "is_scalar_key (AnnotationPrefix @ ''window-days'')" "is_scalar_key (AnnotationPrefix @ ''shrink-cooldown-days'')"
  "is_scalar_key (AnnotationPrefix @ ''shrink-pr-ttl-days'')" "is_scalar_key (AnnotationPrefix @ ''cooldown-minutes'')"
  "is_scalar_key (AnnotationPrefix @ ''enabled'')" "is_scalar_key (AnnotationPrefix @ ''shrink-enabled'')"
  by (simp_all add: is_scalar_key_def named_def HasSuffix_def)

lemma scalar_field:
  assumes F: "\<And>name v out. F (fst (parseScalar Q name v out)) = (if name = N then g v (F out) else F out)"
    and N: "is_scalar_key (AnnotationPrefix @ N)"
  shows "F (ps_out (parse_annotation Q (k, v) st)) = (if k = AnnotationPrefix @ N then g v (F (ps_out st)) else F (ps_out st))"
proof (cases "k = AnnotationPrefix @ N")
  case True
  then show ?thesis using F N by (simp add: ps_out_step)
next
  case False
  then show ?thesis using F prefix_key [of k N] by (auto simp: ps_out_step is_scalar_key_def)
qed

text \<open>
  The validation of one annotation, as a function of its value and of the value the field has.
\<close>

definition fraction_if :: "(float64 \<Rightarrow> bool) \<Rightarrow> string \<Rightarrow> float64 \<Rightarrow> float64" where
  "fraction_if ok s old = (case parseFraction s of Some v \<Rightarrow> if ok v then v else old | None \<Rightarrow> old)"

definition integer_if :: "(int \<Rightarrow> bool) \<Rightarrow> (int \<Rightarrow> int) \<Rightarrow> string \<Rightarrow> int \<Rightarrow> int" where
  "integer_if ok f s old = (case Atoi s of Some v \<Rightarrow> if ok v then f v else old | None \<Rightarrow> old)"

lemma min_names:
  "\<not> HasSuffix ''tolerance'' ''-min''" "\<not> HasSuffix ''max-shrink-step'' ''-min''"
  "\<not> HasSuffix ''window-days'' ''-min''" "\<not> HasSuffix ''shrink-cooldown-days'' ''-min''"
  "\<not> HasSuffix ''shrink-pr-ttl-days'' ''-min''" "\<not> HasSuffix ''cooldown-minutes'' ''-min''"
  "\<not> HasSuffix ''enabled'' ''-min''" "\<not> HasSuffix ''shrink-enabled'' ''-min''"
  by (simp_all add: HasSuffix_def)

lemma if_valid_set:
  "Tolerance (fst (if_valid (parseFraction v) ok (\<lambda>x. out\<lparr>Tolerance := x\<rparr>) out r)) = fraction_if ok v (Tolerance out)"
  "MaxShrinkStep (fst (if_valid (parseFraction v) ok (\<lambda>x. out\<lparr>MaxShrinkStep := x\<rparr>) out r)) = fraction_if ok v (MaxShrinkStep out)"
  "WindowDays (fst (if_valid (Atoi v) ik (\<lambda>x. out\<lparr>WindowDays := x\<rparr>) out r)) = integer_if ik (\<lambda>x. x) v (WindowDays out)"
  "ShrinkCooldown (fst (if_valid (Atoi v) ik (\<lambda>x. out\<lparr>ShrinkCooldown := f x\<rparr>) out r)) = integer_if ik f v (ShrinkCooldown out)"
  "ShrinkPRTTL (fst (if_valid (Atoi v) ik (\<lambda>x. out\<lparr>ShrinkPRTTL := f x\<rparr>) out r)) = integer_if ik f v (ShrinkPRTTL out)"
  "GrowCooldown (fst (if_valid (Atoi v) ik (\<lambda>x. out\<lparr>GrowCooldown := f x\<rparr>) out r)) = integer_if ik f v (GrowCooldown out)"
  by (simp_all add: if_valid_def fraction_if_def integer_if_def split: option.split)

lemma parseScalar_fields:
  "Tolerance (fst (parseScalar Q name v out)) =
     (if name = ''tolerance'' then fraction_if (\<lambda>x. f_le f_zero x \<and> f_less x f_one) v (Tolerance out) else Tolerance out)"
  "MaxShrinkStep (fst (parseScalar Q name v out)) =
     (if name = ''max-shrink-step'' then fraction_if (\<lambda>x. f_less f_zero x \<and> f_less x f_one) v (MaxShrinkStep out)
      else MaxShrinkStep out)"
  "WindowDays (fst (parseScalar Q name v out)) =
     (if name = ''window-days'' then integer_if (\<lambda>x. 0 < x) (\<lambda>x. x) v (WindowDays out) else WindowDays out)"
  "ShrinkCooldown (fst (parseScalar Q name v out)) =
     (if name = ''shrink-cooldown-days'' then integer_if (\<lambda>x. 0 \<le> x) days_duration v (ShrinkCooldown out)
      else ShrinkCooldown out)"
  "ShrinkPRTTL (fst (parseScalar Q name v out)) =
     (if name = ''shrink-pr-ttl-days'' then integer_if (\<lambda>x. 0 < x) days_duration v (ShrinkPRTTL out)
      else ShrinkPRTTL out)"
  "GrowCooldown (fst (parseScalar Q name v out)) =
     (if name = ''cooldown-minutes'' then integer_if (\<lambda>x. 0 \<le> x) minutes_duration v (GrowCooldown out)
      else GrowCooldown out)"
  "Enabled (fst (parseScalar Q name v out)) = (if name = ''enabled'' then v \<noteq> ''false'' else Enabled out)"
  "ShrinkEnabled (fst (parseScalar Q name v out)) =
     (if name = ''shrink-enabled'' then ShrinkEnabled out \<and> EqualFold v ''true'' else ShrinkEnabled out)"
  by (simp_all add: parseScalar_def parseShrinkOptOut_def min_names if_valid_set if_valid_other)

lemma ParsePolicy_ps_out:
  "Tolerance (fst (ParsePolicy Q as base)) = Tolerance (ps_out (fold (parse_annotation Q) as
     \<lparr>ps_out = base, fromHeadroom = [], fromIncrement = [], fromThreshold = [], warnings = []\<rparr>))"
  "MaxShrinkStep (fst (ParsePolicy Q as base)) = MaxShrinkStep (ps_out (fold (parse_annotation Q) as
     \<lparr>ps_out = base, fromHeadroom = [], fromIncrement = [], fromThreshold = [], warnings = []\<rparr>))"
  "WindowDays (fst (ParsePolicy Q as base)) = WindowDays (ps_out (fold (parse_annotation Q) as
     \<lparr>ps_out = base, fromHeadroom = [], fromIncrement = [], fromThreshold = [], warnings = []\<rparr>))"
  "ShrinkCooldown (fst (ParsePolicy Q as base)) = ShrinkCooldown (ps_out (fold (parse_annotation Q) as
     \<lparr>ps_out = base, fromHeadroom = [], fromIncrement = [], fromThreshold = [], warnings = []\<rparr>))"
  "ShrinkPRTTL (fst (ParsePolicy Q as base)) = ShrinkPRTTL (ps_out (fold (parse_annotation Q) as
     \<lparr>ps_out = base, fromHeadroom = [], fromIncrement = [], fromThreshold = [], warnings = []\<rparr>))"
  "GrowCooldown (fst (ParsePolicy Q as base)) = GrowCooldown (ps_out (fold (parse_annotation Q) as
     \<lparr>ps_out = base, fromHeadroom = [], fromIncrement = [], fromThreshold = [], warnings = []\<rparr>))"
  "Enabled (fst (ParsePolicy Q as base)) = Enabled (ps_out (fold (parse_annotation Q) as
     \<lparr>ps_out = base, fromHeadroom = [], fromIncrement = [], fromThreshold = [], warnings = []\<rparr>))"
  "ShrinkEnabled (fst (ParsePolicy Q as base)) = ShrinkEnabled (ps_out (fold (parse_annotation Q) as
     \<lparr>ps_out = base, fromHeadroom = [], fromIncrement = [], fromThreshold = [], warnings = []\<rparr>))"
  by (simp_all add: ParsePolicy_def Let_def)

text \<open>What a field holds after all annotations, when only the annotation \<open>name\<close> sets it.\<close>

definition field_after :: "string smap \<Rightarrow> string \<Rightarrow> (string \<Rightarrow> 'a \<Rightarrow> 'a) \<Rightarrow> 'a \<Rightarrow> 'a" where
  "field_after as name g old = (case map_of as (AnnotationPrefix @ name) of None \<Rightarrow> old | Some v \<Rightarrow> g v old)"

lemma fold_scalar_field:
  assumes "\<And>name v out. F (fst (parseScalar Q name v out)) = (if name = N then g v (F out) else F out)"
    and "is_scalar_key (AnnotationPrefix @ N)" and "distinct (map fst as)"
  shows "F (ps_out (fold (parse_annotation Q) as st)) = field_after as N g (F (ps_out st))"
  unfolding field_after_def
  by (rule fold_field [where F = "\<lambda>st. F (ps_out st)"]) (rule scalar_field [OF assms(1,2)], rule assms(3))

text \<open>
  Every scalar setting of the merged policy is a function of the one
  annotation that names it and of the default: a valid value replaces the default, a value that
  does not parse or is out of range leaves it, and no other annotation touches it. So none of
  these settings depends on the order in which the annotations are visited.
\<close>

theorem ParsePolicy_scalar_fields:
  assumes "distinct (map fst as)"
  shows "(Tolerance (fst (ParsePolicy Q as base)) =
      field_after as ''tolerance'' (fraction_if (\<lambda>x. f_le f_zero x \<and> f_less x f_one)) (Tolerance base))
    \<and> (MaxShrinkStep (fst (ParsePolicy Q as base)) =
      field_after as ''max-shrink-step'' (fraction_if (\<lambda>x. f_less f_zero x \<and> f_less x f_one)) (MaxShrinkStep base))
    \<and> (WindowDays (fst (ParsePolicy Q as base)) =
      field_after as ''window-days'' (integer_if (\<lambda>x. 0 < x) (\<lambda>x. x)) (WindowDays base))
    \<and> (ShrinkCooldown (fst (ParsePolicy Q as base)) =
      field_after as ''shrink-cooldown-days'' (integer_if (\<lambda>x. 0 \<le> x) days_duration) (ShrinkCooldown base))
    \<and> (ShrinkPRTTL (fst (ParsePolicy Q as base)) =
      field_after as ''shrink-pr-ttl-days'' (integer_if (\<lambda>x. 0 < x) days_duration) (ShrinkPRTTL base))
    \<and> (GrowCooldown (fst (ParsePolicy Q as base)) =
      field_after as ''cooldown-minutes'' (integer_if (\<lambda>x. 0 \<le> x) minutes_duration) (GrowCooldown base))
    \<and> (Enabled (fst (ParsePolicy Q as base)) = field_after as ''enabled'' (\<lambda>v _. v \<noteq> ''false'') (Enabled base))
    \<and> (ShrinkEnabled (fst (ParsePolicy Q as base)) =
      field_after as ''shrink-enabled'' (\<lambda>v on. on \<and> EqualFold v ''true'') (ShrinkEnabled base))"
  unfolding ParsePolicy_ps_out
  by (intro conjI; simp add: fold_scalar_field [OF parseScalar_fields(1) scalar_names(1) assms]
    fold_scalar_field [OF parseScalar_fields(2) scalar_names(2) assms]
    fold_scalar_field [OF parseScalar_fields(3) scalar_names(3) assms]
    fold_scalar_field [OF parseScalar_fields(4) scalar_names(4) assms]
    fold_scalar_field [OF parseScalar_fields(5) scalar_names(5) assms]
    fold_scalar_field [OF parseScalar_fields(6) scalar_names(6) assms]
    fold_scalar_field [OF parseScalar_fields(7) scalar_names(7) assms]
    fold_scalar_field [OF parseScalar_fields(8) scalar_names(8) assms])

theorem ParsePolicy_scalar_fields_witness:
  "WindowDays (fst (ParsePolicy nano_api [(''resizer.io/window-days'', ''30''), (''resizer.io/shrink-enabled'', ''no'')] DefaultPolicy)) = 30
   \<and> \<not> ShrinkEnabled (fst (ParsePolicy nano_api [(''resizer.io/window-days'', ''30''), (''resizer.io/shrink-enabled'', ''no'')] DefaultPolicy))"
proof -
  let ?as = "[(''resizer.io/window-days'', ''30''), (''resizer.io/shrink-enabled'', ''no'')]"
  have d: "distinct (map fst ?as)" by simp
  have "Atoi ''30'' = Some 30" "\<not> EqualFold ''no'' ''true''" by (simp_all add: go_eval)
  then show ?thesis
    using ParsePolicy_scalar_fields [OF d, of nano_api DefaultPolicy]
    by (simp add: field_after_def AnnotationPrefix_def integer_if_def DefaultPolicy_def)
qed

section \<open>The range of every setting\<close>

fun wf_float :: "float64 \<Rightarrow> bool" where
  "wf_float (Fin p q) \<longleftrightarrow> 0 < q"
| "wf_float _ \<longleftrightarrow> True"

lemma wf_round64: "wf_float (round64 p q)"
  using round_frac_snd_pos [of p q] by (auto simp: round64_def split: prod.split)

lemma wf_finite_or_range: "finite_or_range x = Some v \<Longrightarrow> v = x"
  by (auto simp: finite_or_range_def split: float64.splits)

lemma wf_ParseFloat: "ParseFloat s = Some v \<Longrightarrow> wf_float v"
  by (auto simp: ParseFloat_def parse_decimal_def parse_hex_def Let_def wf_round64
      split: if_splits prod.splits bind_splits dest!: wf_finite_or_range)

lemma round_frac_ge:
  assumes "0 < q" and "k * q \<le> p" and "\<bar>k\<bar> \<le> 2 ^ 53" and "round_frac p q = (a, b)"
  shows "k * b \<le> a" and "0 < b"
proof -
  show b: "0 < b" using round_frac_snd_pos [of p q] assms(4) by simp
  have "(of_int (k * q) :: real) \<le> of_int p" using assms(2) by (simp only: of_int_le_iff)
  then have "(of_int k :: real) \<le> of_int p / of_int q" using assms(1) by (simp add: pos_le_divide_eq)
  from rnd_mono [OF this] have "(of_int k :: real) \<le> of_int a / of_int b"
    using round_frac_val [OF assms(1,4)] rnd_of_int [OF assms(3)] by simp
  then have "(of_int (k * b) :: real) \<le> of_int a" using b by (simp add: pos_le_divide_eq)
  then show "k * b \<le> a" by (simp only: of_int_le_iff)
qed

lemma round64_nonneg: "0 \<le> p \<Longrightarrow> 0 < q \<Longrightarrow> f_le f_zero (round64 p q)"
  using round_frac_ge [of q 0 p] by (auto simp: round64_def split: prod.split)

lemma threshold_nonneg:
  assumes "wf_float v" and "f_less f_zero v" and "f_le v (Fin 100 1)"
  shows "f_le f_zero (f_sub (f_div (Fin 100 1) v) f_one)"
proof (cases v)
  case (Fin p q)
  then have pq: "0 < q" "0 < p" "p \<le> 100 * q" using assms by simp_all
  obtain a b where r: "round_frac (100 * q) p = (a, b)" by (cases "round_frac (100 * q) p")
  have ab: "b \<le> a" "0 < b" using round_frac_ge [of p 1 "100 * q" a b] pq r by simp_all
  have d: "f_div (Fin 100 1) v = round64 (100 * q) p" using pq by (simp add: Fin)
  show ?thesis
  proof (cases "b * 2 ^ 1024 \<le> \<bar>a\<bar>")
    case True
    then have "round64 (100 * q) p = PosInf" using pq by (simp add: round64_def r)
    then show ?thesis by (simp add: d f_sub_def)
  next
    case False
    then have "round64 (100 * q) p = Fin a b" by (simp add: round64_def r)
    then show ?thesis using ab by (simp add: d f_sub_def round64_nonneg)
  qed
qed (use assms in simp_all)

text \<open>
  A policy whose settings are in range: no headroom is negative or not a number, the tolerance
  is in \<open>[0, 1)\<close>, the step cap in \<open>(0, 1)\<close>, the window has at least one day.
\<close>

definition scalars_ok :: "'q policy \<Rightarrow> bool" where
  "scalars_ok p \<longleftrightarrow> f_le f_zero (Tolerance p) \<and> f_less (Tolerance p) f_one
     \<and> f_less f_zero (MaxShrinkStep p) \<and> f_less (MaxShrinkStep p) f_one \<and> 0 < WindowDays p"

definition policy_ok :: "'q policy \<Rightarrow> bool" where
  "policy_ok p \<longleftrightarrow> list_all (\<lambda>rv. f_le f_zero (snd rv)) (Headroom p) \<and> scalars_ok p"

lemma scalars_ok_parseScalar: "scalars_ok out \<Longrightarrow> scalars_ok (fst (parseScalar Q name v out))"
  by (auto simp: scalars_ok_def parseScalar_fields fraction_if_def integer_if_def split: option.split)

lemma scalars_ok_fold: "scalars_ok (ps_out st) \<Longrightarrow> scalars_ok (ps_out (fold (parse_annotation Q) as st))"
proof (induction as arbitrary: st)
  case (Cons kv as)
  then show ?case by (cases kv) (simp add: ps_out_step scalars_ok_parseScalar)
qed simp

lemma list_all_update: "list_all P m \<Longrightarrow> P (k, v) \<Longrightarrow> list_all P (AList.update k v m)"
  by (induction m) auto

lemma list_all_fold_upd: "list_all P xs \<Longrightarrow> list_all P m \<Longrightarrow> list_all P (fold upd xs m)"
  by (induction xs arbitrary: m) (simp_all add: upd_def list_all_update)

lemma list_all_map_filter: "(\<And>x y. f x = Some y \<Longrightarrow> P y) \<Longrightarrow> list_all P (List.map_filter f xs)"
  by (induction xs) (auto simp: List.map_filter_simps split: option.split)

lemma collected_nonneg:
  "headroom_of kv = Some rv \<Longrightarrow> f_le f_zero (snd rv)"
  "increment_of kv = Some rv \<Longrightarrow> f_le f_zero (snd rv)"
  "threshold_of kv = Some rv \<Longrightarrow> f_le f_zero (snd rv)"
  by (auto simp: headroom_of_def increment_of_def threshold_of_def
      split: option.splits if_splits intro!: threshold_nonneg intro: wf_ParseFloat)

lemma list_all_filter_sub: "list_all P xs \<Longrightarrow> list_all P (filter R xs)"
  by (induction xs) auto


lemma f_le_zero_round64: "f_le f_zero (round64 25 100)" by (simp add: round64_nonneg)


text \<open>
  The headroom map of the merged policy: the defaults, overridden by
  thresholds, overridden by increments, overridden by headrooms, where among several annotations
  of one kind for the same key the one visited last counts.
\<close>

theorem ParsePolicy_precedence:
  "map_of (Headroom (fst (ParsePolicy Q as base))) res =
    (case map_of (rev (List.map_filter headroom_of as)) res of Some v \<Rightarrow> Some v
     | None \<Rightarrow> (case map_of (rev (List.map_filter increment_of as)) res of Some v \<Rightarrow> Some v
       | None \<Rightarrow> (case map_of (rev (List.map_filter threshold_of as)) res of Some v \<Rightarrow> Some v
         | None \<Rightarrow> map_of (Headroom base) res)))"
  by (simp add: ParsePolicy_Headroom map_add_def split: option.split)

text \<open>
  The merged policy does depend on the order in which the
  annotations are visited: \<^verbatim>\<open>resizer.io/headroom\<close> and \<^verbatim>\<open>resizer.io/default-headroom\<close> set the
  same entry, and whichever comes last wins.
\<close>

theorem ParsePolicy_order_dependent:
  "map_of (Headroom (fst (ParsePolicy Q [(''resizer.io/headroom'', ''1''), (''resizer.io/default-headroom'', ''2'')] base)))
     DefaultKey \<noteq>
   map_of (Headroom (fst (ParsePolicy Q [(''resizer.io/default-headroom'', ''2''), (''resizer.io/headroom'', ''1'')] base)))
     DefaultKey"
proof -
  have f: "ParseFloat ''1'' = Some (Fin 4503599627370496 4503599627370496)"
    "ParseFloat ''2'' = Some (Fin 4503599627370496 2251799813685248)"
    by (simp_all add: parse_float_eval go_eval Let_def) (simp_all add: f64_eval)
  have p: "parseFraction ''1'' = Some (Fin 4503599627370496 4503599627370496)"
    "parseFraction ''2'' = Some (Fin 4503599627370496 2251799813685248)"
    by (simp_all add: parseFraction_def HasSuffix_def f)
  have k: "headroom_of (''resizer.io/headroom'', ''1'') = Some (DefaultKey, Fin 4503599627370496 4503599627370496)"
    "headroom_of (''resizer.io/default-headroom'', ''2'') = Some (DefaultKey, Fin 4503599627370496 2251799813685248)"
    by (simp_all add: headroom_of_def p named_def AnnotationPrefix_def suffixKey_def DefaultKey_def go_eval)
  show ?thesis by (simp add: ParsePolicy_Headroom List.map_filter_simps k)
qed

text \<open>
  A cooldown of 999999 days is accepted, and the multiplication
  overflows: the cooldown of the merged policy is negative.
\<close>

theorem cooldown_days_overflow:
  "ShrinkCooldown (fst (ParsePolicy Q [(''resizer.io/shrink-cooldown-days'', ''999999'')] base)) < 0"
proof -
  have a: "Atoi ''999999'' = Some 999999" by (simp add: go_eval)
  have "days_duration 999999 < 0" by (simp add: days_duration_def time_units wrap64_def signed_take_bit_eq_if_positive)
  then show ?thesis
    using fold_scalar_field [OF parseScalar_fields(4) scalar_names(4), of "[(''resizer.io/shrink-cooldown-days'', ''999999'')]" Q]
    unfolding ParsePolicy_ps_out by (simp add: field_after_def AnnotationPrefix_def integer_if_def a)
qed
end
