(* ===== verification/Cluster.thy ===== *)
theory Cluster
  imports Effects Go_Format Deficit Policy
begin

text \<open>
  What the controller talks to: the objects of the Kubernetes API it reads or writes, the pull
  request status of the Git provider, and one call per operation it uses. The API server
  (controller-runtime's \<^verbatim>\<open>client.Client\<close>), the event recorder, the clock and the Git provider
  are not part of the repository or are behind an interface; they are the parameter \<open>'q client\<close>,
  whose fields answer a call from the history of the calls.
\<close>

section \<open>API objects\<close>

record 'q ResourceQuota =
  Quota_Namespace :: string
  Quota_Name :: string
  Quota_UID :: string
  Spec_Hard :: "'q resource_list"
  Status_Hard :: "'q resource_list"
  Status_Used :: "'q resource_list"

record ObjectReference =
  Ref_APIVersion :: string
  Ref_Kind :: string
  Ref_Name :: string
  Ref_Namespace :: string

record Event =
  Event_Namespace :: string
  LastTimestamp :: time
  Event_Type :: string
  Event_Reason :: string
  Event_Message :: string
  InvolvedObject :: ObjectReference

text \<open>Replica counts are \<^verbatim>\<open>int32\<close> values; an unset pointer is \<^term>\<open>None\<close>.\<close>

record 'q StatefulSet =
  Sts_Spec_Replicas :: "int option"
  Sts_Status_Replicas :: int
  Sts_Template :: "'q PodSpec"
  VolumeClaimTemplates :: "'q PersistentVolumeClaim list"

record 'q DaemonSet =
  DesiredNumberScheduled :: int
  CurrentNumberScheduled :: int
  Ds_Template :: "'q PodSpec"

record 'q ReplicaSet =
  Rs_Spec_Replicas :: "int option"
  Rs_Status_Replicas :: int
  Rs_Template :: "'q PodSpec"

record Lease =
  Lease_Name :: string
  Lease_Namespace :: string
  ResourceVersion :: string
  Lease_Labels :: "string smap"
  Lease_Annotations :: "string smap"
  HolderIdentity :: "string option"
  AcquireTime :: "time option"

record PRStatus =
  IsOpen :: bool
  IsMerged :: bool
  Mergeable :: bool
  MergeableState :: string
  ChecksState :: string
  ChecksTotalCount :: int
  CreatedAt :: time

text \<open>
  Operations on the Prometheus vectors of \<^verbatim>\<open>metrics.go\<close>: the name of the vector and the label
  values.
\<close>

datatype metric_op =
    Counter_Inc string "string list"
  | Gauge_Set string "string list" float64
  | Gauge_Delete string "string list"

section \<open>Calls\<close>

datatype 'q call =
    GetQuota string string "'q ResourceQuota result"
  | GetNamespace string "string smap result"
  | GetStatefulSet string string "'q StatefulSet result"
  | GetDaemonSet string string "'q DaemonSet result"
  | GetReplicaSet string string "'q ReplicaSet result"
  | GetPod string string "unit result"
  | GetObject ObjectReference string "unit result"
  | ListEvents string "Event list result"
  | GetLease string string "Lease result"
  | CreateLease Lease "unit result"
  | UpdateLease Lease "unit result"
  | DeleteLease Lease "unit result"
  | ListLeases string "string \<times> string" "Lease list result"
  | Clock time
  | RecordEvent string string string string "warning_message + string"
  | Metric metric_op
  | GetPRStatus int "PRStatus result"
  | MergePR int string "unit result"
  | CreatePR string string string "string smap" "'q smap" "int result"
  | UpdatePR int string string "string smap" "'q smap" "unit result"
  | FindOpenPR string string "(int \<times> string) result"
  | ClosePR int string "unit result"

record 'q client =
  quota_of :: "'q call list \<Rightarrow> string \<Rightarrow> string \<Rightarrow> 'q ResourceQuota result"
  namespace_of :: "'q call list \<Rightarrow> string \<Rightarrow> string smap result"
  statefulset_of :: "'q call list \<Rightarrow> string \<Rightarrow> string \<Rightarrow> 'q StatefulSet result"
  daemonset_of :: "'q call list \<Rightarrow> string \<Rightarrow> string \<Rightarrow> 'q DaemonSet result"
  replicaset_of :: "'q call list \<Rightarrow> string \<Rightarrow> string \<Rightarrow> 'q ReplicaSet result"
  pod_of :: "'q call list \<Rightarrow> string \<Rightarrow> string \<Rightarrow> unit result"
  object_of :: "'q call list \<Rightarrow> ObjectReference \<Rightarrow> string \<Rightarrow> unit result"
  parse_group_version :: "string \<Rightarrow> unit result"
  events_of :: "'q call list \<Rightarrow> string \<Rightarrow> Event list result"
  lease_of :: "'q call list \<Rightarrow> string \<Rightarrow> string \<Rightarrow> Lease result"
  lease_created :: "'q call list \<Rightarrow> Lease \<Rightarrow> unit result"
  lease_updated :: "'q call list \<Rightarrow> Lease \<Rightarrow> unit result"
  lease_deleted :: "'q call list \<Rightarrow> Lease \<Rightarrow> unit result"
  leases_of :: "'q call list \<Rightarrow> string \<Rightarrow> string \<times> string \<Rightarrow> Lease list result"
  clock :: "'q call list \<Rightarrow> time"
  pr_status :: "'q call list \<Rightarrow> int \<Rightarrow> PRStatus result"
  pr_merged :: "'q call list \<Rightarrow> int \<Rightarrow> string \<Rightarrow> unit result"
  pr_created :: "'q call list \<Rightarrow> string \<Rightarrow> string \<Rightarrow> string \<Rightarrow> string smap \<Rightarrow> 'q smap \<Rightarrow> int result"
  pr_updated :: "'q call list \<Rightarrow> int \<Rightarrow> string \<Rightarrow> string \<Rightarrow> string smap \<Rightarrow> 'q smap \<Rightarrow> unit result"
  pr_found :: "'q call list \<Rightarrow> string \<Rightarrow> string \<Rightarrow> (int \<times> string) result"
  pr_closed :: "'q call list \<Rightarrow> int \<Rightarrow> string \<Rightarrow> unit result"

type_synonym ('q, 'm, 'a) prog = "('q call, 'm, 'a) io"

abbreviation (input) getQuota :: "'q client \<Rightarrow> string \<Rightarrow> string \<Rightarrow> ('q, 'm, 'q ResourceQuota result) prog" where
  "getQuota E ns name \<equiv> ask (\<lambda>t. quota_of E t ns name) (GetQuota ns name)"

abbreviation (input) getNamespace :: "'q client \<Rightarrow> string \<Rightarrow> ('q, 'm, string smap result) prog" where
  "getNamespace E name \<equiv> ask (\<lambda>t. namespace_of E t name) (GetNamespace name)"

abbreviation (input) getLease :: "'q client \<Rightarrow> string \<Rightarrow> string \<Rightarrow> ('q, 'm, Lease result) prog" where
  "getLease E ns name \<equiv> ask (\<lambda>t. lease_of E t ns name) (GetLease ns name)"

abbreviation (input) createLease :: "'q client \<Rightarrow> Lease \<Rightarrow> ('q, 'm, unit result) prog" where
  "createLease E l \<equiv> ask (\<lambda>t. lease_created E t l) (CreateLease l)"

abbreviation (input) updateLease :: "'q client \<Rightarrow> Lease \<Rightarrow> ('q, 'm, unit result) prog" where
  "updateLease E l \<equiv> ask (\<lambda>t. lease_updated E t l) (UpdateLease l)"

abbreviation (input) time_Now :: "'q client \<Rightarrow> ('q, 'm, time) prog" where
  "time_Now E \<equiv> ask (clock E) Clock"

abbreviation (input) recorder_Event :: "'q ResourceQuota \<Rightarrow> string \<Rightarrow> string \<Rightarrow> warning_message + string \<Rightarrow> ('q, 'm, unit) prog" where
  "recorder_Event q etype reason msg \<equiv>
     ask (\<lambda>_. ()) (\<lambda>_. RecordEvent (Quota_Namespace q) (Quota_Name q) etype reason msg)"

text \<open>
  The message of a recorded event is a text, or, for a rejected annotation, the arguments of its
  format.
\<close>

text \<open>Calls that change something outside the process.\<close>

fun writes :: "'q call \<Rightarrow> bool" where
  "writes (CreateLease _ _) = True"
| "writes (UpdateLease _ _) = True"
| "writes (DeleteLease _ _) = True"
| "writes (MergePR _ _ _) = True"
| "writes (CreatePR _ _ _ _ _ _) = True"
| "writes (UpdatePR _ _ _ _ _ _) = True"
| "writes (ClosePR _ _ _) = True"
| "writes _ = False"

fun provider_call :: "'q call \<Rightarrow> bool" where
  "provider_call (GetPRStatus _ _) = True"
| "provider_call (MergePR _ _ _) = True"
| "provider_call (CreatePR _ _ _ _ _ _) = True"
| "provider_call (UpdatePR _ _ _ _ _ _) = True"
| "provider_call (FindOpenPR _ _ _) = True"
| "provider_call (ClosePR _ _ _) = True"
| "provider_call _ = False"

end
