(* ===== verification/Lease.thy ===== *)
theory Lease
  imports Cluster
begin

text \<open>
  The state of the controller, kept on one Lease per quota: \<^verbatim>\<open>internal/lock\<close>
  (\<^verbatim>\<open>lease.go\<close>, \<^verbatim>\<open>state.go\<close>, \<^verbatim>\<open>gc.go\<close>).
\<close>

section \<open>Names and labels\<close>

definition ControllerNamespace :: string where "ControllerNamespace = ''namespace-resizer-system''"
definition AnnotationLastModified :: string where "AnnotationLastModified = ''resizer.io/last-modified''"
definition AnnotationLastGrow :: string where "AnnotationLastGrow = ''resizer.io/last-grow''"
definition AnnotationLastShrink :: string where "AnnotationLastShrink = ''resizer.io/last-shrink''"
definition AnnotationPRDirection :: string where "AnnotationPRDirection = ''resizer.io/pr-direction''"
definition AnnotationWindow :: string where "AnnotationWindow = ''resizer.io/observation-window''"
definition labelManagedBy :: string where "labelManagedBy = ''app.kubernetes.io/managed-by''"
definition labelTargetNS :: string where "labelTargetNS = ''resizer.io/target-ns''"
definition labelQuota :: string where "labelQuota = ''resizer.io/quota''"
definition managedByValue :: string where "managedByValue = ''namespace-resizer''"

lemmas annotation_names = AnnotationLastModified_def AnnotationLastGrow_def AnnotationLastShrink_def
  AnnotationPRDirection_def AnnotationWindow_def

definition managedLeaseLabels :: "string \<Rightarrow> string \<Rightarrow> string smap" where
  "managedLeaseLabels targetNS quotaName =
     [(labelTargetNS, targetNS), (labelQuota, quotaName), (labelManagedBy, managedByValue)]"

definition getLeaseName :: "string \<Rightarrow> string \<Rightarrow> string" where
  "getLeaseName targetNS quotaName = ''state-'' @ targetNS @ ''-'' @ quotaName"

text \<open>\<^verbatim>\<open>m[key]\<close> of a string map: the empty string for a missing key.\<close>

definition gets :: "string smap \<Rightarrow> string \<Rightarrow> string" where
  "gets m k = (case map_of m k of None \<Rightarrow> '''' | Some v \<Rightarrow> v)"

section \<open>\<^verbatim>\<open>state.go\<close>\<close>

record LockState =
  PRID :: int
  PRDirection :: string
  LastModified :: time
  State_LastGrow :: time
  State_LastShrink :: time
  State_Window :: string

definition zeroState :: LockState where
  "zeroState = \<lparr>PRID = 0, PRDirection = '''', LastModified = zero_time, State_LastGrow = zero_time,
     State_LastShrink = zero_time, State_Window = ''''\<rparr>"

text \<open>
  \<^verbatim>\<open>fmt.Sscanf(s, "pr-%d", &id)\<close>: the literal prefix, white space other than a newline, and a
  signed decimal that fits an \<^verbatim>\<open>int\<close>. What follows the number is not looked at.
\<close>

definition Sscanf_pr :: "string \<Rightarrow> int option" where
  "Sscanf_pr s = (if HasPrefix s ''pr-'' then
     let r = trim_left (filter (\<lambda>w. w \<noteq> [CHR 0x0A]) space_runes) (drop 3 s)
     in map_option fst (read_int r) else None)"

definition parseStamp :: "string \<Rightarrow> time" where
  "parseStamp raw = (if raw = '''' then zero_time
     else case parse_rfc3339 raw of None \<Rightarrow> zero_time | Some stamp \<Rightarrow> stamp)"

definition setStamp :: "string \<Rightarrow> time \<Rightarrow> string smap \<Rightarrow> string smap" where
  "setStamp key v annotations = (if IsZero v then AList.delete key annotations
     else AList.update key (format_rfc3339 v) annotations)"

definition setString :: "string \<Rightarrow> string \<Rightarrow> string smap \<Rightarrow> string smap" where
  "setString key v annotations = (if v = '''' then AList.delete key annotations
     else AList.update key v annotations)"

definition stateFromLease :: "Lease \<Rightarrow> LockState" where
  "stateFromLease lease = \<lparr>
     PRID = (case HolderIdentity lease of None \<Rightarrow> 0
       | Some h \<Rightarrow> (case Sscanf_pr h of Some n \<Rightarrow> n | None \<Rightarrow> 0)),
     PRDirection = gets (Lease_Annotations lease) AnnotationPRDirection,
     LastModified = parseStamp (gets (Lease_Annotations lease) AnnotationLastModified),
     State_LastGrow = parseStamp (gets (Lease_Annotations lease) AnnotationLastGrow),
     State_LastShrink = parseStamp (gets (Lease_Annotations lease) AnnotationLastShrink),
     State_Window = gets (Lease_Annotations lease) AnnotationWindow\<rparr>"

definition applyStateToLease :: "LockState \<Rightarrow> Lease \<Rightarrow> Lease" where
  "applyStateToLease st lease = (let
      a = Lease_Annotations lease;
      a = setStamp AnnotationLastModified (LastModified st) a;
      a = setStamp AnnotationLastGrow (State_LastGrow st) a;
      a = setStamp AnnotationLastShrink (State_LastShrink st) a;
      a = setString AnnotationPRDirection (PRDirection st) a;
      a = setString AnnotationWindow (State_Window st) a
    in lease\<lparr>Lease_Annotations := a,
         HolderIdentity := (if PRID st = 0 then None else Some (''pr-'' @ itoa (PRID st)))\<rparr>)"

definition GetState :: "'q client \<Rightarrow> string \<Rightarrow> string \<Rightarrow> ('q, 'm, LockState result) prog" where
  "GetState E targetNS quotaName = do {
     r \<leftarrow> getLease E ControllerNamespace (getLeaseName targetNS quotaName);
     case r of
       Inl err \<Rightarrow> if err_is ((=) NotFound) err then return (Inr zeroState) else return (Inl err)
     | Inr lease \<Rightarrow> return (Inr (stateFromLease lease)) }"

section \<open>\<^verbatim>\<open>lease.go\<close>\<close>

definition newLease :: "string \<Rightarrow> string \<Rightarrow> Lease" where
  "newLease targetNS quotaName = \<lparr>Lease_Name = getLeaseName targetNS quotaName,
     Lease_Namespace = ControllerNamespace, ResourceVersion = '''',
     Lease_Labels = managedLeaseLabels targetNS quotaName, Lease_Annotations = [],
     HolderIdentity = None, AcquireTime = None\<rparr>"

definition ensureLeaseExists :: "'q client \<Rightarrow> string \<Rightarrow> string \<Rightarrow> ('q, 'm, unit result) prog" where
  "ensureLeaseExists E targetNS quotaName = do {
     r \<leftarrow> getLease E ControllerNamespace (getLeaseName targetNS quotaName);
     case r of
       Inr _ \<Rightarrow> return (Inr ())
     | Inl err \<Rightarrow>
         if \<not> err_is ((=) NotFound) err then return (Inl err)
         else do {
           c \<leftarrow> createLease E (newLease targetNS quotaName);
           case c of
             Inl err \<Rightarrow> if \<not> err_is ((=) AlreadyExists) err then return (Inl err) else return (Inr ())
           | Inr _ \<Rightarrow> return (Inr ()) } }"

definition acquire_once :: "'q client \<Rightarrow> string \<Rightarrow> string \<Rightarrow> int \<Rightarrow> ('q, 'm, unit result) prog" where
  "acquire_once E targetNS quotaName prID = (let identity = ''pr-'' @ itoa prID in do {
     r \<leftarrow> getLease E ControllerNamespace (getLeaseName targetNS quotaName);
     case r of
       Inl err \<Rightarrow>
         if err_is ((=) NotFound) err then do {
           now \<leftarrow> time_Now E;
           c \<leftarrow> createLease E ((newLease targetNS quotaName)\<lparr>HolderIdentity := Some identity, AcquireTime := Some now\<rparr>);
           case c of
             Inl createErr \<Rightarrow> if err_is ((=) AlreadyExists) createErr then return (Inl Conflict) else return (Inl createErr)
           | Inr _ \<Rightarrow> return (Inr ()) }
         else return (Inl err)
     | Inr lease \<Rightarrow>
         if HolderIdentity lease \<noteq> None \<and> HolderIdentity lease \<noteq> Some identity
         then return (Inl (Errorf (''lease is already locked by '' @ the (HolderIdentity lease)) []))
         else do {
           now \<leftarrow> time_Now E;
           updateLease E (lease\<lparr>HolderIdentity := Some identity, AcquireTime := Some now\<rparr>) } })"

definition AcquireLock :: "'q client \<Rightarrow> ('q call, 'm) retrier \<Rightarrow> string \<Rightarrow> string \<Rightarrow> int \<Rightarrow> ('q, 'm, unit result) prog" where
  "AcquireLock E R targetNS quotaName prID = R (acquire_once E targetNS quotaName prID)"

text \<open>
  \<^verbatim>\<open>MutateState\<close>. The function given by the caller may read the clock, so it is a program. The
  body of the retried closure is \<open>mutate_once\<close>.
\<close>

definition mutate_once :: "'q client \<Rightarrow> string \<Rightarrow> string \<Rightarrow> (LockState \<Rightarrow> ('q, 'm, LockState) prog) \<Rightarrow> ('q, 'm, unit result) prog" where
  "mutate_once E targetNS quotaName fn =
     or_fail (getLease E ControllerNamespace (getLeaseName targetNS quotaName)) (\<lambda>lease. do {
       st \<leftarrow> fn (stateFromLease lease);
       updateLease E (applyStateToLease st lease) })"

definition MutateState :: "'q client \<Rightarrow> ('q call, 'm) retrier \<Rightarrow> string \<Rightarrow> string
    \<Rightarrow> (LockState \<Rightarrow> ('q, 'm, LockState) prog) \<Rightarrow> ('q, 'm, unit result) prog" where
  "MutateState E R targetNS quotaName fn =
     or_fail (ensureLeaseExists E targetNS quotaName) (\<lambda>_. R (mutate_once E targetNS quotaName fn))"

section \<open>\<^verbatim>\<open>gc.go\<close>\<close>

definition gc_lease :: "'q client \<Rightarrow> Lease \<Rightarrow> unit \<Rightarrow> ('q, 'm, unit) prog" where
  "gc_lease E lease _ = (let targetNS = gets (Lease_Labels lease) labelTargetNS in
     if targetNS = '''' then return ()
     else do {
       r \<leftarrow> getNamespace E targetNS;
       case r of
         Inl err \<Rightarrow>
           if err_is ((=) NotFound) err then do {
             _ \<leftarrow> ask (\<lambda>t. lease_deleted E t lease) (DeleteLease lease);
             return () }
           else return ()
       | Inr _ \<Rightarrow> return () })"

definition cleanup :: "'q client \<Rightarrow> ('q, 'm, unit result) prog" where
  "cleanup E =
     or_fail (ask (\<lambda>t. leases_of E t ControllerNamespace (labelManagedBy, managedByValue))
                (ListLeases ControllerNamespace (labelManagedBy, managedByValue)))
       (\<lambda>items. do { _ \<leftarrow> foldM (gc_lease E) items (); return (Inr ()) })"

text \<open>\<^verbatim>\<open>Start\<close> until the context is cancelled after \<open>n\<close> ticks; errors are logged only.\<close>

fun gc_ticks :: "'q client \<Rightarrow> nat \<Rightarrow> ('q, 'm, unit result) prog" where
  "gc_ticks E 0 = return (Inr ())"
| "gc_ticks E (Suc n) = do { _ \<leftarrow> cleanup E; gc_ticks E n }"

definition gc_Start :: "'q client \<Rightarrow> nat \<Rightarrow> ('q, 'm, unit result) prog" where
  "gc_Start E n = do { _ \<leftarrow> cleanup E; gc_ticks E n }"

end
