(* ===== verification/Lease_Correct.thy ===== *)
theory Lease_Correct
  imports Lease
begin

text \<open>
  The state on the Lease: what is written is read back, updates are atomic although several
  writers may interleave, and the garbage collector removes nothing that is in use.
\<close>

section \<open>Writing and reading the state\<close>

definition whole_seconds :: "time \<Rightarrow> time" where "whole_seconds t = t - t mod second"

definition storable :: "LockState \<Rightarrow> bool" where
  "storable st \<longleftrightarrow> in64 (PRID st)
     \<and> list_all (\<lambda>t. four_digit_year (day_number t)) [LastModified st, State_LastGrow st, State_LastShrink st]"

definition stored :: "LockState \<Rightarrow> LockState" where
  "stored st = st\<lparr>LastModified := whole_seconds (LastModified st),
     State_LastGrow := whole_seconds (State_LastGrow st), State_LastShrink := whole_seconds (State_LastShrink st)\<rparr>"

lemma gets_setStamp [simp]:
  "gets (setStamp k v m) k' = (if k' = k then (if IsZero v then '''' else format_rfc3339 v) else gets m k')"
  by (simp add: gets_def setStamp_def AList.delete_conv')

lemma gets_setString [simp]: "gets (setString k v m) k' = (if k' = k then v else gets m k')"
  by (simp add: gets_def setString_def AList.delete_conv')

lemma format_rfc3339_nonempty: "format_rfc3339 t \<noteq> []"
  by (simp add: format_rfc3339_def split: prod.split)

lemma parseStamp_setStamp:
  assumes "four_digit_year (day_number t)"
  shows "parseStamp (if IsZero t then '''' else format_rfc3339 t) = whole_seconds t"
proof (cases "IsZero t")
  case True
  then show ?thesis by (simp add: parseStamp_def whole_seconds_def IsZero_def zero_time_def)
next
  case False
  then show ?thesis
    using parse_format_rfc3339 [OF assms] by (simp add: parseStamp_def whole_seconds_def format_rfc3339_nonempty)
qed

lemma itoa_Cons: "\<exists>c t. itoa n = c # t \<and> CHR 0x21 \<le> c \<and> c \<le> CHR 0x7E"
proof -
  have d: "CHR 0x21 \<le> c \<and> c \<le> CHR 0x7E" if "digit_val c \<noteq> None" for c
    using that by (auto simp: digit_val_def Let_def less_eq_char_def split: if_splits)
  show ?thesis
  proof (cases "n < 0")
    case False
    have "is_digit (digits10 (nat n) @ [])" by (rule digits10_is_digit)
    with False d show ?thesis by (cases "digits10 (nat n)") (auto simp: itoa_def)
  qed (simp add: itoa_def less_eq_char_def)
qed

lemma Sscanf_pr_itoa: "in64 n \<Longrightarrow> Sscanf_pr (''pr-'' @ itoa n) = Some n"
proof -
  assume n: "in64 n"
  obtain c t where c: "itoa n = c # t" "CHR 0x21 \<le> c" "c \<le> CHR 0x7E" using itoa_Cons by blast
  have w: "no_plain_start (filter (\<lambda>w. w \<noteq> [CHR 0x0A]) space_runes)" by code_simp
  have "trim_left (filter (\<lambda>w. w \<noteq> [CHR 0x0A]) space_runes) (itoa n) = itoa n"
    using trim_left_plain [OF w c(2,3)] c(1) by simp
  then show ?thesis
    using read_int_itoa [OF n, of "[]"] by (simp add: Sscanf_pr_def HasPrefix_def Let_def)
qed

lemma stateFromLease_apply:
  assumes "storable st"
  shows "stateFromLease (applyStateToLease st l) = stored st"
proof -
  have n: "distinct [AnnotationLastModified, AnnotationLastGrow, AnnotationLastShrink, AnnotationPRDirection, AnnotationWindow]"
    by (simp add: annotation_names)
  show ?thesis
    using assms n parseStamp_setStamp [of "LastModified st"] parseStamp_setStamp [of "State_LastGrow st"]
      parseStamp_setStamp [of "State_LastShrink st"] Sscanf_pr_itoa [of "PRID st"]
    by (auto simp: stateFromLease_def applyStateToLease_def stored_def storable_def Let_def)
qed

lemma applyStateToLease_frame:
  "Lease_Name (applyStateToLease st l) = Lease_Name l"
  "Lease_Namespace (applyStateToLease st l) = Lease_Namespace l"
  "Lease_Labels (applyStateToLease st l) = Lease_Labels l"
  "ResourceVersion (applyStateToLease st l) = ResourceVersion l"
  "k \<notin> {AnnotationLastModified, AnnotationLastGrow, AnnotationLastShrink, AnnotationPRDirection, AnnotationWindow}
    \<Longrightarrow> gets (Lease_Annotations (applyStateToLease st l)) k = gets (Lease_Annotations l) k"
  by (simp_all add: applyStateToLease_def Let_def)

text \<open>
  (C26) A state written to a Lease is read back, its time stamps cut to whole seconds.
  Labels, resource version and foreign annotations of the Lease are left alone.
\<close>

theorem state_roundtrip:
  assumes "storable st"
    and "k \<notin> {AnnotationLastModified, AnnotationLastGrow, AnnotationLastShrink, AnnotationPRDirection, AnnotationWindow}"
  shows "stateFromLease (applyStateToLease st l) = stored st
    \<and> Lease_Labels (applyStateToLease st l) = Lease_Labels l
    \<and> ResourceVersion (applyStateToLease st l) = ResourceVersion l
    \<and> gets (Lease_Annotations (applyStateToLease st l)) k = gets (Lease_Annotations l) k"
  using stateFromLease_apply [OF assms(1)] applyStateToLease_frame(3,4) applyStateToLease_frame(5) [OF assms(2)]
  by auto

definition sample_state :: LockState where
  "sample_state = \<lparr>PRID = 42, PRDirection = ''shrink'', LastModified = zero_time, State_LastGrow = 1500000000,
     State_LastShrink = 3600000000000, State_Window = ''{}''\<rparr>"

lemma sample_days: "day_number zero_time = - 719162" "day_number 1500000000 = 0" "day_number 3600000000000 = 0"
  by (simp_all add: day_number_def zero_time_def time_units)

lemma sample_years: "four_digit_year (- 719162)" "four_digit_year 0"
  by (simp_all add: four_digit_year_def year_of_def civil_of_days_def Let_def cong: let_weak_cong)

lemma sample_state_storable: "storable sample_state"
  by (simp add: storable_def sample_state_def in64_iff sample_days sample_years)

theorem state_roundtrip_witness:
  "stateFromLease (applyStateToLease sample_state (newLease ''team'' ''compute''))
     = sample_state\<lparr>State_LastGrow := 1000000000\<rparr>"
proof -
  have k: "''note'' \<notin> {AnnotationLastModified, AnnotationLastGrow, AnnotationLastShrink, AnnotationPRDirection, AnnotationWindow}"
    by (simp add: annotation_names)
  show ?thesis
    using state_roundtrip [OF sample_state_storable k, of "newLease ''team'' ''compute''"]
    by (simp add: stored_def sample_state_def whole_seconds_def second_def zero_time_def)
qed

text \<open>
  Two quotas in two namespaces may share a Lease, and so their lock, their
  cooldowns and their observation window: the parts of the name are joined by a hyphen, which both
  may contain.
\<close>

theorem getLeaseName_collision:
  "getLeaseName ''team-a'' ''compute'' = getLeaseName ''team'' ''a-compute''
     \<and> managedLeaseLabels ''team-a'' ''compute'' \<noteq> managedLeaseLabels ''team'' ''a-compute''"
  by (simp add: getLeaseName_def managedLeaseLabels_def)

text \<open>Within a namespace the names differ.\<close>

lemma getLeaseName_inj: "getLeaseName ns q = getLeaseName ns q' \<Longrightarrow> q = q'"
  by (simp add: getLeaseName_def)

section \<open>Calls of the lock operations\<close>

fun is_clock :: "'q call \<Rightarrow> bool" where
  "is_clock (Clock t) = True"
| "is_clock _ = False"

text \<open>
  One attempt of \<^verbatim>\<open>MutateState\<close> as its calls: the Lease \<open>l\<close> was read, the caller's function
  turned its state into \<open>st\<close> (it may have read the clock), and \<open>l\<close> with \<open>st\<close> was written. \<open>F\<close>
  relates the state before and after.
\<close>

definition mutate_attempt ::
  "string \<Rightarrow> string \<Rightarrow> (LockState \<Rightarrow> LockState \<Rightarrow> 'q call list \<Rightarrow> bool) \<Rightarrow> unit result \<Rightarrow> 'q call list \<Rightarrow> bool" where
  "mutate_attempt ns q F r s \<longleftrightarrow>
     (\<exists>e. s = [GetLease ControllerNamespace (getLeaseName ns q) (Inl e)] \<and> r = Inl e)
   \<or> (\<exists>l st c. s = GetLease ControllerNamespace (getLeaseName ns q) (Inr l) # c @ [UpdateLease (applyStateToLease st l) r]
        \<and> list_all is_clock c \<and> F (stateFromLease l) st c)"

lemma ensures_mutate_once:
  fixes E :: "'q client"
  assumes "\<And>st. ensures (fn st) (\<lambda>st' c. F st st' c \<and> list_all is_clock c)"
  shows "ensures (mutate_once E ns q fn) (mutate_attempt ns q F)"
  unfolding mutate_once_def
proof (rule ensures_ask_or_fail)
  fix l
  show "ensures (fn (stateFromLease l) \<bind> (\<lambda>st. updateLease E (applyStateToLease st l)))
     (\<lambda>y s. mutate_attempt ns q F y (GetLease ControllerNamespace (getLeaseName ns q) (Inr l) # s))"
  proof (rule ensures_bind [OF assms])
    fix st and c :: "'q call list" assume "F (stateFromLease l) st c \<and> list_all is_clock c"
    then show "ensures (updateLease E (applyStateToLease st l))
       (\<lambda>y s'. mutate_attempt ns q F y (GetLease ControllerNamespace (getLeaseName ns q) (Inr l) # c @ s'))"
      by (intro ensures_ask) (auto simp: mutate_attempt_def)
  qed
qed (simp add: mutate_attempt_def)

text \<open>The calls of \<^verbatim>\<open>ensureLeaseExists\<close>: a read, and the creation of an empty Lease at most.\<close>

definition ensure_calls :: "string \<Rightarrow> string \<Rightarrow> 'q call list \<Rightarrow> bool" where
  "ensure_calls ns q s \<longleftrightarrow> (\<exists>r. s = [GetLease ControllerNamespace (getLeaseName ns q) r])
     \<or> (\<exists>e c. s = [GetLease ControllerNamespace (getLeaseName ns q) (Inl e), CreateLease (newLease ns q) c] \<and> err_is ((=) NotFound) e)"

lemma ensures_ensureLeaseExists: "ensures (ensureLeaseExists E ns q) (\<lambda>_ s. ensure_calls ns q s)"
  unfolding ensureLeaseExists_def
  by (intro ensures_intro) (simp_all add: ensure_calls_def)

definition mutate_calls ::
  "string \<Rightarrow> string \<Rightarrow> (LockState \<Rightarrow> LockState \<Rightarrow> 'q call list \<Rightarrow> bool) \<Rightarrow> unit result \<Rightarrow> 'q call list \<Rightarrow> bool" where
  "mutate_calls ns q F r s \<longleftrightarrow> (\<exists>s0. ensure_calls ns q s0 \<and>
     (s = s0 \<and> r \<noteq> Inr ()
      \<or> (\<exists>ss s1. s = s0 @ concat ss @ s1 \<and> (\<forall>t \<in> set ss. mutate_attempt ns q F (Inl Conflict) t) \<and> mutate_attempt ns q F r s1)))"

lemma ensures_MutateState:
  fixes E :: "'q client"
  assumes R: "retries_on_conflict R" and fn: "\<And>st. ensures (fn st) (\<lambda>st' c. F st st' c \<and> list_all is_clock c)"
  shows "ensures (MutateState E R ns q fn) (mutate_calls ns q F)"
  unfolding MutateState_def
proof (rule ensures_or_fail [OF ensures_ensureLeaseExists])
  fix e and s :: "'q call list" assume "ensure_calls ns q s"
  then show "mutate_calls ns q F (Inl e) s" by (auto simp: mutate_calls_def)
next
  fix s0 :: "'q call list" assume s0: "ensure_calls ns q s0"
  obtain n where n: "\<And>m. R m = attempts n m" using R unfolding retries_on_conflict_def by blast
  show "ensures (R (mutate_once E ns q fn)) (\<lambda>y s'. mutate_calls ns q F y (s0 @ s'))"
    unfolding n
  proof (rule ensures_weaken [OF ensures_attempts [OF ensures_mutate_once [OF fn]]])
    fix r and s :: "'q call list"
    assume "\<exists>ss s'. s = concat ss @ s' \<and> (\<forall>t \<in> set ss. mutate_attempt ns q F (Inl Conflict) t)
        \<and> mutate_attempt ns q F r s' \<and> length ss \<le> n"
    with s0 show "mutate_calls ns q F r (s0 @ s)" unfolding mutate_calls_def by blast
  qed
qed

text \<open>What holds of the calls of every attempt and of \<^verbatim>\<open>ensureLeaseExists\<close> holds of all.\<close>

lemma mutate_calls_set:
  assumes "mutate_calls ns q F r s" and "e \<in> set s"
  shows "(\<exists>s0. ensure_calls ns q s0 \<and> e \<in> set s0) \<or> (\<exists>r' t. mutate_attempt ns q F r' t \<and> e \<in> set t)"
proof -
  from assms(1) consider s0 where "ensure_calls ns q s0" "s = s0"
    | s0 ss s1 where "ensure_calls ns q s0" "s = s0 @ concat ss @ s1"
        "\<forall>t \<in> set ss. mutate_attempt ns q F (Inl Conflict) t" "mutate_attempt ns q F r s1"
    unfolding mutate_calls_def by blast
  then show ?thesis
  proof cases
    case 1
    with assms(2) show ?thesis by blast
  next
    case 2
    from 2(2) assms(2) have "e \<in> set s0 \<or> e \<in> set s1 \<or> (\<exists>t \<in> set ss. e \<in> set t)" by auto
    with 2 show ?thesis by blast
  qed
qed

lemma ensure_calls_cases:
  "ensure_calls ns q s \<Longrightarrow> e \<in> set s \<Longrightarrow> (\<exists>r. e = GetLease ControllerNamespace (getLeaseName ns q) r) \<or> (\<exists>c. e = CreateLease (newLease ns q) c)"
  by (auto simp: ensure_calls_def)

lemma mutate_attempt_cases:
  assumes "mutate_attempt ns q F r s" and "e \<in> set s"
  shows "(\<exists>r. e = GetLease ControllerNamespace (getLeaseName ns q) r) \<or> is_clock e
    \<or> (\<exists>l st c r. e = UpdateLease (applyStateToLease st l) r \<and> F (stateFromLease l) st c)"
  using assms unfolding mutate_attempt_def list_all_iff by auto

text \<open>Every call of \<^verbatim>\<open>MutateState\<close> is one of these.\<close>

lemma mutate_calls_cases:
  assumes "mutate_calls ns q F r s" and "e \<in> set s"
  shows "(\<exists>r. e = GetLease ControllerNamespace (getLeaseName ns q) r) \<or> is_clock e \<or> (\<exists>c. e = CreateLease (newLease ns q) c)
    \<or> (\<exists>l st c r. e = UpdateLease (applyStateToLease st l) r \<and> F (stateFromLease l) st c)"
  using mutate_calls_set [OF assms] ensure_calls_cases mutate_attempt_cases by metis

lemma mutate_calls_provider: "mutate_calls ns q F r s \<Longrightarrow> list_all (\<lambda>e. \<not> provider_call e) s"
  unfolding list_all_iff by (auto dest!: mutate_calls_cases elim!: is_clock.elims(2))

text \<open>A success ends in a successful write.\<close>

lemma mutate_calls_success:
  assumes "mutate_calls ns q F (Inr ()) s"
  shows "\<exists>p l st c. s = p @ GetLease ControllerNamespace (getLeaseName ns q) (Inr l) # c @ [UpdateLease (applyStateToLease st l) (Inr ())]
    \<and> list_all is_clock c \<and> F (stateFromLease l) st c"
proof -
  obtain s0 ss s1 where s: "s = s0 @ concat ss @ s1" and m: "mutate_attempt ns q F (Inr ()) s1"
    using assms unfolding mutate_calls_def by blast
  from m obtain l st c where "s1 = GetLease ControllerNamespace (getLeaseName ns q) (Inr l) # c @ [UpdateLease (applyStateToLease st l) (Inr ())]"
    "list_all is_clock c" "F (stateFromLease l) st c" unfolding mutate_attempt_def by auto
  with s show ?thesis by (intro exI [of _ "s0 @ concat ss"] exI [of _ l] exI [of _ st] exI [of _ c]) simp
qed

text \<open>
  (C25) When \<^verbatim>\<open>MutateState\<close> returns without an error, its last two calls read a
  Lease and successfully wrote that very Lease, resource version included, with the caller's
  function applied to its state. All earlier writes created an empty Lease or were updates of the
  same form, each on the Lease read just before.
\<close>

theorem MutateState_atomic:
  assumes "retries_on_conflict R"
  shows "ensures (MutateState E R ns q (\<lambda>st. return (f st))) (\<lambda>r s.
      (r = Inr () \<longrightarrow> (\<exists>p l. s = p @ [GetLease ControllerNamespace (getLeaseName ns q) (Inr l),
         UpdateLease (applyStateToLease (f (stateFromLease l)) l) (Inr ())]))
      \<and> (\<forall>e \<in> set s. writes e \<longrightarrow> (\<exists>c. e = CreateLease (newLease ns q) c)
           \<or> (\<exists>l c. e = UpdateLease (applyStateToLease (f (stateFromLease l)) l) c)))"
proof -
  let ?F = "\<lambda>st st' c. st' = f st \<and> c = []"
  have "ensures (MutateState E R ns q (\<lambda>st. return (f st))) (mutate_calls ns q ?F)"
    by (rule ensures_MutateState [OF assms]) (simp add: ensures_return)
  then show ?thesis
  proof (rule ensures_weaken)
    fix r and s :: "'a call list" assume m: "mutate_calls ns q ?F r s"
    have "r = Inr () \<longrightarrow> (\<exists>p l. s = p @ [GetLease ControllerNamespace (getLeaseName ns q) (Inr l),
         UpdateLease (applyStateToLease (f (stateFromLease l)) l) (Inr ())])"
      using mutate_calls_success [of ns q ?F s] m by auto
    moreover have "\<forall>e \<in> set s. writes e \<longrightarrow> (\<exists>c. e = CreateLease (newLease ns q) c)
           \<or> (\<exists>l c. e = UpdateLease (applyStateToLease (f (stateFromLease l)) l) c)"
      using mutate_calls_cases [OF m] by (fastforce elim: is_clock.elims(2))
    ultimately show "(r = Inr () \<longrightarrow> (\<exists>p l. s = p @ [GetLease ControllerNamespace (getLeaseName ns q) (Inr l),
         UpdateLease (applyStateToLease (f (stateFromLease l)) l) (Inr ())]))
      \<and> (\<forall>e \<in> set s. writes e \<longrightarrow> (\<exists>c. e = CreateLease (newLease ns q) c)
           \<or> (\<exists>l c. e = UpdateLease (applyStateToLease (f (stateFromLease l)) l) c))" ..
  qed
qed

subsection \<open>Acquiring the lock\<close>

definition acquire_attempt :: "string \<Rightarrow> string \<Rightarrow> int \<Rightarrow> unit result \<Rightarrow> 'q call list \<Rightarrow> bool" where
  "acquire_attempt ns q prID r s \<longleftrightarrow> (let name = getLeaseName ns q; identity = ''pr-'' @ itoa prID in
     (\<exists>x e. s = [GetLease ControllerNamespace name x] \<and> r = Inl e)
   \<or> (\<exists>e now c. s = [GetLease ControllerNamespace name (Inl e), Clock now,
          CreateLease ((newLease ns q)\<lparr>HolderIdentity := Some identity, AcquireTime := Some now\<rparr>) c]
        \<and> err_is ((=) NotFound) e \<and> (r = Inr () \<longleftrightarrow> c = Inr ()))
   \<or> (\<exists>l now. s = [GetLease ControllerNamespace name (Inr l), Clock now,
          UpdateLease (l\<lparr>HolderIdentity := Some identity, AcquireTime := Some now\<rparr>) r]
        \<and> HolderIdentity l \<in> {None, Some identity}))"

lemma ensures_acquire_once: "ensures (acquire_once E ns q prID) (acquire_attempt ns q prID)"
  unfolding acquire_once_def Let_def
  by (intro ensures_intro) (auto simp: acquire_attempt_def Let_def)

text \<open>
  \<^verbatim>\<open>AcquireLock\<close> never takes the lock from another pull request: what it
  updates was read as free or as its own just before, with the resource version unchanged. It
  succeeds only when its last call wrote the Lease with this pull request as the holder.
\<close>

theorem AcquireLock_exclusive:
  assumes "retries_on_conflict R"
  shows "ensures (AcquireLock E R ns q prID) (\<lambda>r s. let identity = ''pr-'' @ itoa prID in
      (\<forall>l' c. UpdateLease l' c \<in> set s \<longrightarrow> HolderIdentity l' = Some identity
         \<and> (\<exists>l. GetLease ControllerNamespace (getLeaseName ns q) (Inr l) \<in> set s
              \<and> HolderIdentity l \<in> {None, Some identity} \<and> ResourceVersion l' = ResourceVersion l))
      \<and> (r = Inr () \<longrightarrow> (\<exists>l'. HolderIdentity l' = Some identity
           \<and> last s \<in> {CreateLease l' (Inr ()), UpdateLease l' (Inr ())})))"
proof -
  let ?id = "''pr-'' @ itoa prID"
  obtain n where n: "\<And>m. R m = attempts n m" using assms unfolding retries_on_conflict_def by blast
  have upd: "HolderIdentity l' = Some ?id \<and> (\<exists>l. GetLease ControllerNamespace (getLeaseName ns q) (Inr l) \<in> set t
        \<and> HolderIdentity l \<in> {None, Some ?id} \<and> ResourceVersion l' = ResourceVersion l)"
    if "acquire_attempt ns q prID r t" "UpdateLease l' c \<in> set t" for r l' c and t :: "'a call list"
    using that by (auto simp: acquire_attempt_def Let_def)
  have suc: "t \<noteq> [] \<and> (\<exists>l'. HolderIdentity l' = Some ?id \<and> last t \<in> {CreateLease l' (Inr ()), UpdateLease l' (Inr ())})"
    if "acquire_attempt ns q prID (Inr ()) t" for t :: "'a call list"
    using that by (auto simp: acquire_attempt_def Let_def)
  show ?thesis
    unfolding AcquireLock_def n Let_def
  proof (rule ensures_weaken [OF ensures_attempts [OF ensures_acquire_once]], elim exE conjE)
    fix r s ss and s' :: "'a call list"
    assume s: "s = concat ss @ s'" and ss: "\<forall>t \<in> set ss. acquire_attempt ns q prID (Inl Conflict) t"
      and s': "acquire_attempt ns q prID r s'"
    show "(\<forall>l' c. UpdateLease l' c \<in> set s \<longrightarrow> HolderIdentity l' = Some ?id
         \<and> (\<exists>l. GetLease ControllerNamespace (getLeaseName ns q) (Inr l) \<in> set s
              \<and> HolderIdentity l \<in> {None, Some ?id} \<and> ResourceVersion l' = ResourceVersion l))
      \<and> (r = Inr () \<longrightarrow> (\<exists>l'. HolderIdentity l' = Some ?id \<and> last s \<in> {CreateLease l' (Inr ()), UpdateLease l' (Inr ())}))"
    proof (intro conjI allI impI)
      fix l' c assume "UpdateLease l' c \<in> set s"
      then obtain t r' where t: "UpdateLease l' c \<in> set t" "acquire_attempt ns q prID r' t" "set t \<subseteq> set s"
        using s ss s' by auto
      from upd [OF t(2,1)] show "HolderIdentity l' = Some ?id" by blast
      from upd [OF t(2,1)] t(3) show "\<exists>l. GetLease ControllerNamespace (getLeaseName ns q) (Inr l) \<in> set s
              \<and> HolderIdentity l \<in> {None, Some ?id} \<and> ResourceVersion l' = ResourceVersion l" by blast
    next
      assume "r = Inr ()"
      with suc s' s show "\<exists>l'. HolderIdentity l' = Some ?id \<and> last s \<in> {CreateLease l' (Inr ()), UpdateLease l' (Inr ())}" by auto
    qed
  qed
qed

section \<open>Garbage collection\<close>

definition gc_calls :: "Lease list \<Rightarrow> 'q call list \<Rightarrow> bool" where
  "gc_calls items s \<longleftrightarrow> (\<forall>l c. DeleteLease l c \<in> set s \<longrightarrow> l \<in> set items \<and> gets (Lease_Labels l) labelTargetNS \<noteq> ''''
     \<and> (\<exists>e. GetNamespace (gets (Lease_Labels l) labelTargetNS) (Inl e) \<in> set s \<and> err_is ((=) NotFound) e))
   \<and> (\<forall>e \<in> set s. writes e \<longrightarrow> (\<exists>l c. e = DeleteLease l c))"

lemma gc_calls_append: "gc_calls items s \<Longrightarrow> gc_calls items t \<Longrightarrow> gc_calls items (s @ t)"
  unfolding gc_calls_def by (auto; blast)

lemma ensures_gc_lease: "l \<in> set items \<Longrightarrow> ensures (gc_lease E l u) (\<lambda>_ s. gc_calls items s)"
  unfolding gc_lease_def Let_def
  by (intro ensures_intro) (auto simp: gc_calls_def)

text \<open>
  (C37) The garbage collector deletes a Lease only when the list of the
  managed Leases contained it, it names a target namespace and the API server said that this
  namespace does not exist. It writes nothing else, and a namespace that could not be checked is
  kept.
\<close>

theorem cleanup_deletes_orphans_only:
  "ensures (cleanup E) (\<lambda>r s. \<exists>answer. hd s = ListLeases ControllerNamespace (labelManagedBy, managedByValue) answer
     \<and> (case answer of Inl e \<Rightarrow> r = Inl e \<and> s = [hd s]
        | Inr items \<Rightarrow> r = Inr ()
           \<and> (\<forall>l c. DeleteLease l c \<in> set s \<longrightarrow> l \<in> set items \<and> gets (Lease_Labels l) labelTargetNS \<noteq> ''''
                \<and> (\<exists>e. GetNamespace (gets (Lease_Labels l) labelTargetNS) (Inl e) \<in> set s \<and> err_is ((=) NotFound) e))
           \<and> (\<forall>e \<in> set s. writes e \<longrightarrow> (\<exists>l c. e = DeleteLease l c))))"
  unfolding cleanup_def
proof (rule ensures_ask_or_fail)
  fix items
  let ?hd = "ListLeases ControllerNamespace (labelManagedBy, managedByValue) (Inr items) :: 'a call"
  have "ensures (foldM (gc_lease E) items ()) (\<lambda>_ s'. gc_calls items ([?hd] @ s'))"
  proof (rule ensures_foldM)
    show "gc_calls items [?hd]" by (simp add: gc_calls_def)
  next
    fix l u and s :: "'a call list" assume "l \<in> set items" "gc_calls items s"
    then show "ensures (gc_lease E l u) (\<lambda>_ s'. gc_calls items (s @ s'))"
      by (auto intro: ensures_weaken [OF ensures_gc_lease] gc_calls_append)
  qed
  then show "ensures (foldM (gc_lease E) items () \<bind> (\<lambda>_. return (Inr ()))) (\<lambda>r s.
     \<exists>answer. hd (?hd # s) = ListLeases ControllerNamespace (labelManagedBy, managedByValue) answer
     \<and> (case answer of Inl e \<Rightarrow> r = Inl e \<and> ?hd # s = [hd (?hd # s)]
        | Inr items \<Rightarrow> r = Inr ()
           \<and> (\<forall>l c. DeleteLease l c \<in> set (?hd # s) \<longrightarrow> l \<in> set items \<and> gets (Lease_Labels l) labelTargetNS \<noteq> ''''
                \<and> (\<exists>e. GetNamespace (gets (Lease_Labels l) labelTargetNS) (Inl e) \<in> set (?hd # s) \<and> err_is ((=) NotFound) e))
           \<and> (\<forall>e \<in> set (?hd # s). writes e \<longrightarrow> (\<exists>l c. e = DeleteLease l c))))"
    by (intro ensures_bind_return) (auto elim!: ensures_weaken simp: gc_calls_def)
qed simp

section \<open>Interleaved writers\<close>

text \<open>
  The API server's optimistic concurrency: an update is accepted when its resource version is the
  stored one, and then gets a version no copy has. Writers are attempts of \<^verbatim>\<open>MutateState\<close>: they
  read a copy, and write the copy with their function applied (as \<open>mutate_attempt\<close> says of the
  code). They may interleave in any order.
\<close>

record 'i lease_sys =
  server :: Lease
  copies :: "'i \<Rightarrow> Lease option"

datatype 'i lease_step = Read 'i | Commit 'i | Reject 'i

inductive lease_steps :: "('i \<Rightarrow> LockState \<Rightarrow> LockState) \<Rightarrow> 'i lease_sys \<Rightarrow> 'i lease_step list \<Rightarrow> 'i lease_sys \<Rightarrow> bool"
  for f :: "'i \<Rightarrow> LockState \<Rightarrow> LockState" where
  start: "lease_steps f s [] s"
| read: "lease_steps f s0 ls s \<Longrightarrow> lease_steps f s0 (ls @ [Read i]) (s\<lparr>copies := (copies s)(i := Some (server s))\<rparr>)"
| commit: "lease_steps f s0 ls s \<Longrightarrow> copies s i = Some l \<Longrightarrow> ResourceVersion l = ResourceVersion (server s)
    \<Longrightarrow> \<forall>j l'. copies s j = Some l' \<longrightarrow> rv \<noteq> ResourceVersion l'
    \<Longrightarrow> lease_steps f s0 (ls @ [Commit i])
         (s\<lparr>server := (applyStateToLease (f i (stateFromLease l)) l)\<lparr>ResourceVersion := rv\<rparr>, copies := (copies s)(i := None)\<rparr>)"
| reject: "lease_steps f s0 ls s \<Longrightarrow> copies s i = Some l \<Longrightarrow> ResourceVersion l \<noteq> ResourceVersion (server s)
    \<Longrightarrow> lease_steps f s0 (ls @ [Reject i]) (s\<lparr>copies := (copies s)(i := None)\<rparr>)"

text \<open>The specification: every committed function is applied at once, to the state as it is.\<close>

fun atomic :: "('i \<Rightarrow> LockState \<Rightarrow> LockState) \<Rightarrow> 'i lease_step list \<Rightarrow> LockState \<Rightarrow> LockState" where
  "atomic f [] st = st"
| "atomic f (Commit i # ls) st = atomic f ls (stored (f i st))"
| "atomic f (_ # ls) st = atomic f ls st"

lemma atomic_append: "atomic f (ls @ ms) st = atomic f ms (atomic f ls st)"
  by (induction f ls st rule: atomic.induct) simp_all

definition fresh_copies :: "'i lease_sys \<Rightarrow> bool" where
  "fresh_copies s \<longleftrightarrow> (\<forall>i l. copies s i = Some l \<longrightarrow> ResourceVersion l = ResourceVersion (server s) \<longrightarrow> l = server s)"

lemma stored_storable: "storable st \<Longrightarrow> storable (stored st)"
proof -
  have second_pos: "0 < second" by (simp add: second_def)
  have "(t - t mod second) div day = t div day" for t
  proof -
    have k: "day = second * 86400" by (simp add: time_units)
    have "second * (t div second) div (second * 86400) = t div (second * 86400)"
      using second_pos by (simp add: zdiv_zmult2_eq)
    then show ?thesis by (simp add: minus_mod_eq_mult_div k)
  qed
  then show "storable st \<Longrightarrow> storable (stored st)"
    by (simp add: storable_def stored_def whole_seconds_def day_number_def)
qed

lemma stateFromLease_version [simp]: "stateFromLease (l\<lparr>ResourceVersion := rv\<rparr>) = stateFromLease l"
  by (simp add: stateFromLease_def)

lemma lease_steps_invariant:
  assumes "lease_steps f s0 ls s" and "copies s0 = (\<lambda>_. None)" and "storable (stateFromLease (server s0))"
    and f: "\<And>i st. storable st \<Longrightarrow> storable (f i st)"
  shows "fresh_copies s \<and> storable (stateFromLease (server s))
    \<and> stateFromLease (server s) = atomic f ls (stateFromLease (server s0))"
  using assms(1,2,3)
proof (induction rule: lease_steps.induct)
  case (start s)
  then show ?case by (simp add: fresh_copies_def)
next
  case (read s0 ls s i)
  then show ?case by (auto simp: fresh_copies_def atomic_append)
next
  case (commit s0 ls s i l rv)
  from commit have l: "l = server s" unfolding fresh_copies_def by blast
  have st: "storable (f i (stateFromLease l))" using commit f l by blast
  have "stateFromLease (applyStateToLease (f i (stateFromLease l)) l) = stored (f i (stateFromLease l))"
    by (rule stateFromLease_apply [OF st])
  then show ?case
    using commit l stored_storable [OF st] by (auto simp: fresh_copies_def atomic_append)
next
  case (reject s0 ls s i l)
  then show ?case by (auto simp: fresh_copies_def atomic_append)
qed


section \<open>Examples\<close>

text \<open>A client whose every request fails, to be changed where an example needs an answer.\<close>

definition offline :: "'q client" where
  "offline = (let e = OtherError ''offline'' in
     \<lparr>quota_of = \<lambda>_ _ _. Inl e, namespace_of = \<lambda>_ _. Inl e, statefulset_of = \<lambda>_ _ _. Inl e,
      daemonset_of = \<lambda>_ _ _. Inl e, replicaset_of = \<lambda>_ _ _. Inl e, pod_of = \<lambda>_ _ _. Inl e,
      object_of = \<lambda>_ _ _. Inl e, parse_group_version = \<lambda>_. Inl e, events_of = \<lambda>_ _. Inl e,
      lease_of = \<lambda>_ _ _. Inl e, lease_created = \<lambda>_ _. Inl e, lease_updated = \<lambda>_ _. Inl e,
      lease_deleted = \<lambda>_ _. Inl e, leases_of = \<lambda>_ _ _. Inl e, clock = \<lambda>_. zero_time,
      pr_status = \<lambda>_ _. Inl e, pr_merged = \<lambda>_ _ _. Inl e, pr_created = \<lambda>_ _ _ _ _ _. Inl e,
      pr_updated = \<lambda>_ _ _ _ _ _. Inl e, pr_found = \<lambda>_ _ _. Inl e, pr_closed = \<lambda>_ _ _. Inl e\<rparr>)"

definition empty_world :: "nano call world" where "empty_world = \<lparr>calls = []\<rparr>"

lemma attempts_retry: "retries_on_conflict (attempts n)"
  unfolding retries_on_conflict_def by blast

text \<open>The first update conflicts, the second is accepted.\<close>

definition contended :: "nano client" where
  "contended = offline\<lparr>lease_of := \<lambda>_ _ _. Inr (newLease ''team'' ''compute''),
     lease_updated := \<lambda>t _. if length t < 3 then Inl Conflict else Inr ()\<rparr>"

theorem MutateState_atomic_witness:
  "\<exists>p l. calls (snd (run_state (MutateState contended (attempts 4) ''team'' ''compute'' (\<lambda>st. return (st\<lparr>PRID := 7\<rparr>))) empty_world))
     = p @ [GetLease ControllerNamespace (getLeaseName ''team'' ''compute'') (Inr l),
            UpdateLease (applyStateToLease ((stateFromLease l)\<lparr>PRID := 7\<rparr>) l) (Inr ())]"
proof -
  let ?m = "MutateState contended (attempts 4) ''team'' ''compute'' (\<lambda>st. return (st\<lparr>PRID := 7\<rparr>))"
  have r: "fst (run_state ?m empty_world) = Inr ()"
    by (simp add: MutateState_def ensureLeaseExists_def mutate_once_def run_or_fail contended_def
        empty_world_def numeral_eq_Suc)
  have e: "calls empty_world = []" by (simp add: empty_world_def)
  show ?thesis
    using ensuresD [OF MutateState_atomic [OF attempts_retry [of 4], of contended "''team''" "''compute''" "\<lambda>st. st\<lparr>PRID := 7\<rparr>"],
        of empty_world "Inr ()" "snd (run_state ?m empty_world)"] r e
    by (metis append_Nil prod.collapse)
qed

theorem AcquireLock_exclusive_witness:
  "\<exists>l'. HolderIdentity l' = Some ''pr-7''
     \<and> last (calls (snd (run_state (AcquireLock contended (attempts 4) ''team'' ''compute'' 7) empty_world)))
         \<in> {CreateLease l' (Inr ()), UpdateLease l' (Inr ())}"
proof -
  let ?m = "AcquireLock contended (attempts 4) ''team'' ''compute'' 7"
  have r: "fst (run_state ?m empty_world) = Inr ()"
    by (simp add: AcquireLock_def acquire_once_def newLease_def run_or_fail Let_def contended_def
        empty_world_def numeral_eq_Suc)
  have i: "''pr-'' @ itoa 7 = ''pr-7''" by (simp add: go_eval)
  have e: "calls empty_world = []" by (simp add: empty_world_def)
  show ?thesis
    using ensuresD [OF AcquireLock_exclusive [OF attempts_retry [of 4], of contended "''team''" "''compute''" 7],
        of empty_world "Inr ()" "snd (run_state ?m empty_world)"] r
    unfolding Let_def i e by (metis append_Nil prod.collapse)
qed

definition orphaned :: "nano client" where
  "orphaned = offline\<lparr>leases_of := \<lambda>_ _ _. Inr [newLease ''gone'' ''compute''], namespace_of := \<lambda>_ _. Inl NotFound,
     lease_deleted := \<lambda>_ _. Inr ()\<rparr>"

theorem cleanup_deletes_orphans_only_witness:
  "let s = calls (snd (run_state (cleanup orphaned) empty_world)) in
     DeleteLease (newLease ''gone'' ''compute'') (Inr ()) \<in> set s
     \<and> (\<exists>e. GetNamespace ''gone'' (Inl e) \<in> set s \<and> err_is ((=) NotFound) e)"
proof -
  let ?s = "calls (snd (run_state (cleanup orphaned) empty_world))"
  have s: "?s = [ListLeases ControllerNamespace (labelManagedBy, managedByValue) (Inr [newLease ''gone'' ''compute'']),
      GetNamespace ''gone'' (Inl NotFound), DeleteLease (newLease ''gone'' ''compute'') (Inr ())]"
    by (simp add: cleanup_def gc_lease_def run_or_fail Let_def orphaned_def empty_world_def newLease_def
        managedLeaseLabels_def gets_def)
  have t: "gets (Lease_Labels (newLease ''gone'' ''compute'')) labelTargetNS = ''gone''"
    by (simp add: newLease_def managedLeaseLabels_def gets_def)
  obtain u where "calls (snd (run_state (cleanup orphaned) empty_world)) = calls empty_world @ u"
    "\<exists>answer. hd u = ListLeases ControllerNamespace (labelManagedBy, managedByValue) answer
     \<and> (case answer of Inl e \<Rightarrow> fst (run_state (cleanup orphaned) empty_world) = Inl e \<and> u = [hd u]
        | Inr items \<Rightarrow> fst (run_state (cleanup orphaned) empty_world) = Inr ()
           \<and> (\<forall>l c. DeleteLease l c \<in> set u \<longrightarrow> l \<in> set items \<and> gets (Lease_Labels l) labelTargetNS \<noteq> ''''
                \<and> (\<exists>e. GetNamespace (gets (Lease_Labels l) labelTargetNS) (Inl e) \<in> set u \<and> err_is ((=) NotFound) e))
           \<and> (\<forall>e \<in> set u. writes e \<longrightarrow> (\<exists>l c. e = DeleteLease l c)))"
    using ensuresD [OF cleanup_deletes_orphans_only [of orphaned] prod.collapse [symmetric, of "run_state (cleanup orphaned) empty_world"]]
    by blast
  then show ?thesis unfolding Let_def using s t by (auto simp: empty_world_def)
qed

text \<open>Two writers read the same Lease; the second to write is rejected and tries again.\<close>

definition two_writers :: "bool \<Rightarrow> LockState \<Rightarrow> LockState" where
  "two_writers i st = (if i then st\<lparr>PRID := 7\<rparr> else st\<lparr>State_Window := ''w''\<rparr>)"


end
