(* ===== verification/Window.thy ===== *)
theory Window
  imports Policy
begin

text \<open>
  The rolling observation window: \<^verbatim>\<open>internal/sizing/window.go\<close>. One bucket per day holds the
  peak of every quota key on that day and what is needed to judge whether the day was observed
  continuously.

  A Go map that is nil and one that is empty read alike, so \<^verbatim>\<open>Peaks\<close> is one list. The codec of
  \<^verbatim>\<open>encoding/json\<close> for the window is the argument \<open>unmarshal\<close> and \<open>marshal\<close> of the two functions
  that use it.
\<close>

section \<open>Data\<close>

record DayBucket =
  Date :: string
  N_samples :: int
  First :: string
  Last :: string
  MaxGap :: string
  Peaks :: "string smap"

record Window =
  Version :: int
  UID :: string
  LastSampleAt :: string
  LastWriteAt :: string
  Days :: "DayBucket list"

definition WindowVersion :: int where "WindowVersion = 1"

definition dayCoverageMaxGap :: duration where "dayCoverageMaxGap = hour"

definition coverageFirstBy :: string where "coverageFirstBy = ''00:30''"

definition coverageLastBy :: string where "coverageLastBy = ''23:30''"

definition emptyWindow :: Window where
  "emptyWindow = \<lparr>Version = WindowVersion, UID = '''', LastSampleAt = '''', LastWriteAt = '''', Days = []\<rparr>"

section \<open>Values that do not convert\<close>

text \<open>\<^verbatim>\<open>maxMilliValue\<close>, \<^verbatim>\<open>maxMilliRepresentable\<close> and \<^verbatim>\<open>overflowsMilliValue\<close> of \<^verbatim>\<open>decide.go\<close>.\<close>

definition maxMilliValue :: int where "maxMilliValue = int64_max div 1000"

definition maxMilliRepresentable :: "'q resource_api \<Rightarrow> 'q" where
  "maxMilliRepresentable Q = NewQuantity Q maxMilliValue DecimalSI"

definition overflowsMilliValue :: "'q resource_api \<Rightarrow> 'q \<Rightarrow> bool" where
  "overflowsMilliValue Q q \<longleftrightarrow> Cmp Q q (maxMilliRepresentable Q) > 0 \<or> Sign Q q < 0"

section \<open>Persistence\<close>

fun hasDuplicateDates :: "DayBucket list \<Rightarrow> string list \<Rightarrow> bool" where
  "hasDuplicateDates [] seen \<longleftrightarrow> False"
| "hasDuplicateDates (b # bs) seen \<longleftrightarrow> Date b \<in> set seen \<or> hasDuplicateDates bs (Date b # seen)"

definition DecodeWindow :: "(string \<Rightarrow> Window option) \<Rightarrow> string \<Rightarrow> Window" where
  "DecodeWindow unmarshal raw =
     (if raw = '''' then emptyWindow
      else case unmarshal raw of None \<Rightarrow> emptyWindow
      | Some w \<Rightarrow> if Version w \<noteq> WindowVersion then emptyWindow
          else if hasDuplicateDates (Days w) [] then emptyWindow
          else w)"

definition EncodeWindow :: "(Window \<Rightarrow> string option) \<Rightarrow> Window \<Rightarrow> string option" where
  "EncodeWindow marshal w = marshal (w\<lparr>Version := WindowVersion\<rparr>)"

section \<open>Observing\<close>

definition parseGap :: "string \<Rightarrow> duration option" where
  "parseGap raw = (if raw = '''' then Some 0 else ParseDuration raw)"

definition covered :: "DayBucket \<Rightarrow> bool" where
  "covered b = (if First b = '''' \<or> Last b = '''' then False
     else case parseGap (MaxGap b) of None \<Rightarrow> False
       | Some gap \<Rightarrow> if gap > dayCoverageMaxGap then False
           else First b \<le> coverageFirstBy \<and> coverageLastBy \<le> Last b)"

definition prune :: "time \<Rightarrow> int \<Rightarrow> Window \<Rightarrow> Window \<times> bool" where
  "prune now windowDays w = (let
      today = format_date now; oldest = format_date (AddDate now (- windowDays));
      kept = filter (\<lambda>b. \<not> (Date b > today \<or> Date b < oldest)) (Days w)
    in if length kept = length (Days w) then (w, False) else (w\<lparr>Days := kept\<rparr>, True))"

fun indexOf :: "DayBucket list \<Rightarrow> string \<Rightarrow> nat option" where
  "indexOf [] date = None"
| "indexOf (b # bs) date = (if Date b = date then Some 0 else map_option Suc (indexOf bs date))"

text \<open>The body of the loop over the used list: the peaks and whether one changed.\<close>

definition observe_peak :: "'q resource_api \<Rightarrow> string \<times> 'q \<Rightarrow> string smap \<times> bool \<Rightarrow> string smap \<times> bool" where
  "observe_peak Q rq pc = (case rq of (key, qty) \<Rightarrow>
     (case map_of (fst pc) key of
        None \<Rightarrow> (AList.update key (QString Q qty) (fst pc), True)
      | Some previous \<Rightarrow>
          (case ParseQuantity Q previous of
             None \<Rightarrow> (AList.update key (QString Q qty) (fst pc), True)
           | Some parsed \<Rightarrow> if Cmp Q qty parsed > 0
               then (AList.update key (QString Q qty) (fst pc), True) else pc)))"

definition observe_gap :: "string \<Rightarrow> time \<Rightarrow> DayBucket \<Rightarrow> DayBucket" where
  "observe_gap lastSample stamp b = (case parse_rfc3339 lastSample of None \<Rightarrow> b
     | Some lastAt \<Rightarrow> let gap = Sub stamp lastAt in
         (case parseGap (MaxGap b) of None \<Rightarrow> b
          | Some previous \<Rightarrow> if gap > previous
              then b\<lparr>MaxGap := duration_string (Truncate gap second)\<rparr> else b))"

text \<open>The sample enters its bucket: the gap, the time of day, the count and the peaks.\<close>

definition sample_bucket ::
  "'q resource_api \<Rightarrow> string \<Rightarrow> time \<Rightarrow> 'q resource_list \<Rightarrow> bool \<Rightarrow> DayBucket \<Rightarrow> DayBucket \<times> bool" where
  "sample_bucket Q lastSample stamp usedList changed b = (let
      b = observe_gap lastSample stamp b;
      b = b\<lparr>Last := format_time stamp, N_samples := wrap64 (N_samples b + 1)\<rparr>;
      (peaks, changed) = fold (observe_peak Q) usedList (Peaks b, changed)
    in (b\<lparr>Peaks := peaks\<rparr>, changed))"

definition newBucket :: "time \<Rightarrow> DayBucket" where
  "newBucket stamp = \<lparr>Date = format_date stamp, N_samples = 0, First = format_time stamp, Last = '''',
     MaxGap = '''', Peaks = []\<rparr>"

text \<open>A window of another object of the same name is dropped.\<close>

definition claimWindow :: "string \<Rightarrow> Window \<Rightarrow> Window" where
  "claimWindow uid w = (if UID w \<noteq> '''' \<and> UID w \<noteq> uid then emptyWindow else w)\<lparr>UID := uid, Version := WindowVersion\<rparr>"

definition Observe :: "'q resource_api \<Rightarrow> time \<Rightarrow> string \<Rightarrow> 'q resource_list \<Rightarrow> int \<Rightarrow> Window \<Rightarrow> Window \<times> bool" where
  "Observe Q now uid usedList windowDays w0 = (case prune now windowDays (claimWindow uid w0) of (w, changed) \<Rightarrow>
     (case (case indexOf (Days w) (format_date now) of
          Some i \<Rightarrow> (Days w, i, changed)
        | None \<Rightarrow> (Days w @ [newBucket now], length (Days w), True)) of (days, idx, changed) \<Rightarrow>
       (case sample_bucket Q (LastSampleAt w) now usedList changed (days ! idx) of (bucket, changed) \<Rightarrow>
         (w\<lparr>LastSampleAt := format_rfc3339 now, Days := days[idx := bucket]\<rparr>, changed))))"

section \<open>Reading the window\<close>

definition peak_step ::
  "'q resource_api \<Rightarrow> resource_name \<Rightarrow> string \<Rightarrow> string \<Rightarrow> DayBucket \<Rightarrow> int option \<Rightarrow> int option" where
  "peak_step Q res today oldest bucket best =
     (if Date bucket \<ge> today \<or> Date bucket < oldest then best
      else case map_of (Peaks bucket) res of None \<Rightarrow> best
      | Some raw \<Rightarrow> (case ParseQuantity Q raw of None \<Rightarrow> best
        | Some qty \<Rightarrow> if overflowsMilliValue Q qty then best
            else let milli = MilliValue Q qty in
              (case best of None \<Rightarrow> Some milli
               | Some b \<Rightarrow> if milli > b then Some milli else best)))"

definition Peak :: "'q resource_api \<Rightarrow> Window \<Rightarrow> resource_name \<Rightarrow> time \<Rightarrow> int \<Rightarrow> int option" where
  "Peak Q w res now windowDays = (let
      today = format_date now; oldest = format_date (AddDate now (- windowDays))
    in fold (peak_step Q res today oldest) (Days w) None)"

definition byDate :: "Window \<Rightarrow> string \<Rightarrow> DayBucket option" where
  "byDate w = map_of (rev (map (\<lambda>b. (Date b, b)) (Days w)))"

definition day_complete :: "'q resource_api \<Rightarrow> Window \<Rightarrow> resource_name \<Rightarrow> string \<Rightarrow> bool" where
  "day_complete Q w res date = (case byDate w date of None \<Rightarrow> False
     | Some bucket \<Rightarrow> if \<not> covered bucket then False
         else case map_of (Peaks bucket) res of None \<Rightarrow> False
         | Some raw \<Rightarrow> ParseQuantity Q raw \<noteq> None)"

definition IsComplete :: "'q resource_api \<Rightarrow> Window \<Rightarrow> resource_name \<Rightarrow> time \<Rightarrow> int \<Rightarrow> bool" where
  "IsComplete Q w res now windowDays \<longleftrightarrow>
     list_all (\<lambda>i. day_complete Q w res (format_date (AddDate now (- i)))) [1..windowDays]"

section \<open>Buckets by date\<close>

definition bucket_at :: "DayBucket list \<Rightarrow> string \<Rightarrow> DayBucket option" where
  "bucket_at bs = map_of (map (\<lambda>b. (Date b, b)) bs)"

lemma bucket_at_simps [simp]:
  "bucket_at [] d = None"
  "bucket_at (b # bs) d = (if d = Date b then Some b else bucket_at bs d)"
  by (simp_all add: bucket_at_def)

lemma bucket_at_Some: "bucket_at bs d = Some b \<Longrightarrow> b \<in> set bs \<and> Date b = d"
  by (induction bs) (auto split: if_splits)

lemma bucket_at_None: "bucket_at bs d = None \<longleftrightarrow> d \<notin> Date ` set bs"
  by (induction bs) auto

lemma indexOf_bucket_at: "bucket_at bs d = map_option (\<lambda>i. bs ! i) (indexOf bs d)"
  by (induction bs) (auto simp: option.map_comp o_def)

lemma indexOf_Some: "indexOf bs d = Some i \<Longrightarrow> i < length bs \<and> Date (bs ! i) = d"
  by (induction bs arbitrary: i) (auto split: if_splits)

lemma indexOf_None: "indexOf bs d = None \<longleftrightarrow> d \<notin> Date ` set bs"
  by (induction bs) auto

lemma bucket_at_update:
  "indexOf bs d = Some i \<Longrightarrow> Date b = d \<Longrightarrow> bucket_at (bs[i := b]) d' = (if d' = d then Some b else bucket_at bs d')"
  by (induction bs arbitrary: i) (auto split: if_splits nat.splits)

lemma bucket_at_append: "bucket_at (bs @ [b]) d = (case bucket_at bs d of Some x \<Rightarrow> Some x | None \<Rightarrow> if d = Date b then Some b else None)"
  by (induction bs) auto

lemma bucket_at_filter: "bucket_at (filter (\<lambda>b. P (Date b)) bs) d = (if P d then bucket_at bs d else None)"
  by (induction bs) auto

lemma byDate_distinct: "distinct (map Date (Days w)) \<Longrightarrow> byDate w = bucket_at (Days w)"
  unfolding byDate_def bucket_at_def by (rule map_of_rev_distinct) (simp add: comp_def)

lemma hasDuplicateDates_iff: "hasDuplicateDates bs seen \<longleftrightarrow> \<not> (distinct (map Date bs) \<and> set seen \<inter> Date ` set bs = {})"
  by (induction bs arbitrary: seen) auto

section \<open>One sample\<close>

lemma observe_gap_fields [simp]:
  "Date (observe_gap l t b) = Date b" "N_samples (observe_gap l t b) = N_samples b"
  "First (observe_gap l t b) = First b" "Last (observe_gap l t b) = Last b" "Peaks (observe_gap l t b) = Peaks b"
  by (simp_all add: observe_gap_def Let_def split: option.split)

lemma fold_observe_peak_flag: "fst (fold (observe_peak Q) us (p, c)) = fst (fold (observe_peak Q) us (p, c'))"
proof (induction us arbitrary: p c c')
  case (Cons u us)
  obtain k q where "u = (k, q)" by (cases u)
  then have "fst (observe_peak Q u (p, c)) = fst (observe_peak Q u (p, c'))"
    by (simp add: observe_peak_def split: option.split)
  with Cons show ?case by (cases "observe_peak Q u (p, c)"; cases "observe_peak Q u (p, c')") simp
qed simp

definition sampled :: "'q resource_api \<Rightarrow> string \<Rightarrow> time \<Rightarrow> 'q resource_list \<Rightarrow> DayBucket \<Rightarrow> DayBucket" where
  "sampled Q l t us b = fst (sample_bucket Q l t us False b)"

lemma fst_sample_bucket: "fst (sample_bucket Q l t us c b) = sampled Q l t us b"
  unfolding sampled_def sample_bucket_def Let_def
  using fold_observe_peak_flag [of Q us _ c False] by (simp add: case_prod_beta)

lemma sampled_fields:
  "Date (sampled Q l t us b) = Date b" "First (sampled Q l t us b) = First b"
  "Last (sampled Q l t us b) = format_time t" "MaxGap (sampled Q l t us b) = MaxGap (observe_gap l t b)"
  "Peaks (sampled Q l t us b) = fst (fold (observe_peak Q) us (Peaks b, False))"
  by (simp_all add: sampled_def sample_bucket_def Let_def case_prod_beta)

lemma prune_Days: "Days (fst (prune now wd w)) =
    filter (\<lambda>b. format_date (AddDate now (- wd)) \<le> Date b \<and> Date b \<le> format_date now) (Days w)"
proof -
  let ?P = "\<lambda>b. \<not> (Date b > format_date now \<or> Date b < format_date (AddDate now (- wd)))"
  have e: "filter ?P (Days w) = filter (\<lambda>b. format_date (AddDate now (- wd)) \<le> Date b \<and> Date b \<le> format_date now) (Days w)"
    by (rule filter_cong) auto
  have "filter ?P (Days w) = Days w" if "length (filter ?P (Days w)) = length (Days w)"
    using that by (metis filter_True length_filter_less less_irrefl)
  then show ?thesis unfolding e [symmetric] by (auto simp: prune_def Let_def)
qed

lemma prune_fields [simp]:
  "UID (fst (prune now wd w)) = UID w" "Version (fst (prune now wd w)) = Version w"
  "LastSampleAt (fst (prune now wd w)) = LastSampleAt w" "LastWriteAt (fst (prune now wd w)) = LastWriteAt w"
  by (simp_all add: prune_def Let_def)

lemma Observe_fields:
  "UID (fst (Observe Q now uid us wd w)) = uid" "Version (fst (Observe Q now uid us wd w)) = WindowVersion"
  "LastSampleAt (fst (Observe Q now uid us wd w)) = format_rfc3339 now"
  by (simp_all add: Observe_def case_prod_beta claimWindow_def split: option.split)

lemma Observe_Days:
  fixes w :: Window and now :: time and wd :: int and uid :: string
  defines "ds \<equiv> Days (fst (prune now wd (claimWindow uid w)))"
  shows "Days (fst (Observe Q now uid us wd w)) = (case indexOf ds (format_date now) of
      Some i \<Rightarrow> ds[i := sampled Q (LastSampleAt (claimWindow uid w)) now us (ds ! i)]
    | None \<Rightarrow> ds @ [sampled Q (LastSampleAt (claimWindow uid w)) now us (newBucket now)])"
  by (simp add: Observe_def case_prod_beta ds_def fst_sample_bucket split: option.split)

lemma Date_newBucket [simp]: "Date (newBucket t) = format_date t"
  by (simp add: newBucket_def)

lemma Observe_lookup:
  fixes w :: Window and now :: time and wd :: int and uid :: string
  defines "old \<equiv> (\<lambda>d. if format_date (AddDate now (- wd)) \<le> d \<and> d \<le> format_date now
      then bucket_at (Days (claimWindow uid w)) d else None)"
  shows "bucket_at (Days (fst (Observe Q now uid us wd w))) d =
     (if d = format_date now
      then Some (sampled Q (LastSampleAt (claimWindow uid w)) now us
        (case old d of Some b \<Rightarrow> b | None \<Rightarrow> newBucket now))
      else old d)"
proof -
  define ds where "ds = Days (fst (prune now wd (claimWindow uid w)))"
  have old: "old = bucket_at ds"
    unfolding old_def ds_def prune_Days
    using bucket_at_filter [where P = "\<lambda>d. format_date (AddDate now (- wd)) \<le> d \<and> d \<le> format_date now"]
    by (simp add: fun_eq_iff)
  show ?thesis
  proof (cases "indexOf ds (format_date now)")
    case None
    then have "bucket_at ds (format_date now) = None" by (simp add: indexOf_bucket_at)
    then show ?thesis unfolding old Observe_Days ds_def [symmetric]
      by (auto simp: None bucket_at_append sampled_fields split: option.split)
  next
    case (Some i)
    then have "bucket_at ds (format_date now) = Some (ds ! i)" by (simp add: indexOf_bucket_at)
    with indexOf_Some [OF Some] show ?thesis unfolding old Observe_Days ds_def [symmetric]
      by (auto simp: Some bucket_at_update [OF Some] sampled_fields)
  qed
qed

lemma Observe_dates:
  "map Date (Days (fst (Observe Q now uid us wd w))) =
     (let ds = map Date (Days (fst (prune now wd (claimWindow uid w))))
      in if format_date now \<in> set ds then ds else ds @ [format_date now])"
proof -
  define ds where "ds = Days (fst (prune now wd (claimWindow uid w)))"
  show ?thesis
  proof (cases "indexOf ds (format_date now)")
    case None
    then have "format_date now \<notin> Date ` set ds" by (simp add: indexOf_None)
    then show ?thesis unfolding Observe_Days ds_def [symmetric] by (simp add: None sampled_fields)
  next
    case (Some i)
    then have "format_date now \<in> Date ` set ds" using indexOf_None [of ds "format_date now"] by auto
    with indexOf_Some [OF Some] show ?thesis unfolding Observe_Days ds_def [symmetric]
      by (simp add: Some sampled_fields map_update list_update_same_conv)
  qed
qed

lemma distinct_claimWindow: "distinct (map Date (Days w)) \<Longrightarrow> distinct (map Date (Days (claimWindow uid w)))"
  by (simp add: claimWindow_def emptyWindow_def)

lemma distinct_Observe:
  "distinct (map Date (Days w)) \<Longrightarrow> distinct (map Date (Days (fst (Observe Q now uid us wd w))))"
  using distinct_claimWindow [of w uid]
  by (auto simp: Observe_dates Let_def prune_Days distinct_map_filter)

section \<open>Gaps\<close>

lemma Sub_in64: "in64 (Sub t u)"
  by (simp add: Sub_def in64_def int64_min_def int64_max_def)

lemma Truncate_second:
  assumes "in64 d"
  shows "in64 (Truncate d second)" "second dvd Truncate d second"
    "k * second \<le> d \<Longrightarrow> 0 \<le> k \<Longrightarrow> k * second \<le> Truncate d second"
proof -
  have s: "0 < second" by (simp add: second_def)
  have e: "\<bar>d\<bar> - \<bar>d\<bar> mod second = second * (\<bar>d\<bar> div second)" by (simp add: minus_mod_eq_mult_div)
  have b: "0 \<le> second * (\<bar>d\<bar> div second)" "second * (\<bar>d\<bar> div second) \<le> \<bar>d\<bar>"
    using s zmod_le_nonneg_dividend [of "\<bar>d\<bar>" second] by (simp_all add: pos_imp_zdiv_nonneg_iff flip: e)
  have t: "Truncate d second = sgn d * (second * (\<bar>d\<bar> div second))" using s by (simp add: Truncate_def e)
  show "second dvd Truncate d second" unfolding t by simp
  show "in64 (Truncate d second)"
    using assms b unfolding t in64_iff by (cases d "0 :: int" rule: linorder_cases) auto
  assume k: "k * second \<le> d" "0 \<le> k"
  then have d: "0 \<le> d" using s by (meson mult_nonneg_nonneg order.trans less_imp_le)
  have "k = k * second div second" using s by simp
  also have "\<dots> \<le> d div second" using k(1) s by (rule zdiv_mono1)
  finally show "k * second \<le> Truncate d second"
    using d s mult_right_mono [of k "d div second" second] by (cases "d = 0") (auto simp: t mult.commute Truncate_def [of 0])
qed

lemma duration_string_nonempty: "duration_string d \<noteq> []"
  by (simp add: duration_string_def Let_def)

lemma parseGap_Truncate: "parseGap (duration_string (Truncate (Sub t u) second)) = Some (Truncate (Sub t u) second)"
  using ParseDuration_duration_string [OF Truncate_second(1,2) [OF Sub_in64]]
  by (simp add: parseGap_def duration_string_nonempty)

text \<open>A gap of at least an hour and a second, or one that cannot be read, rules a day out.\<close>

definition long_gap :: "string \<Rightarrow> bool" where
  "long_gap s = (case parseGap s of None \<Rightarrow> True | Some g \<Rightarrow> hour + second \<le> g)"

lemma long_gap_uncovered: "long_gap (MaxGap b) \<Longrightarrow> \<not> covered b"
  by (auto simp: long_gap_def covered_def dayCoverageMaxGap_def second_def split: option.splits)

lemma long_gap_kept:
  assumes "long_gap (MaxGap b)"
  shows "long_gap (MaxGap (observe_gap l t b))"
proof -
  have "hour + second = 3601 * second" by (simp add: time_units)
  then have "hour + second \<le> Truncate (Sub t u) second" if "hour + second \<le> g" "g < Sub t u" for u g
    using Truncate_second(3) [OF Sub_in64, of 3601 t u] that by simp
  with assms show ?thesis
    by (auto simp: long_gap_def observe_gap_def parseGap_Truncate Let_def split: option.splits)
qed

lemma long_gap_outage:
  assumes "parse_rfc3339 l = Some u" and "u + hour + second \<le> t"
  shows "long_gap (MaxGap (observe_gap l t b))"
proof -
  have h: "hour + second = 3601 * second" by (simp add: time_units)
  have s: "3601 * second \<le> Sub t u" using assms(2) by (simp add: Sub_def time_units int64_max_def)
  from Truncate_second(3) [OF Sub_in64 this] have "hour + second \<le> Truncate (Sub t u) second" using h by simp
  with s h show ?thesis
    by (auto simp: long_gap_def observe_gap_def parseGap_Truncate Let_def assms(1) split: option.splits)
qed

lemma claimWindow_same: "UID w = uid \<Longrightarrow> claimWindow uid w = w\<lparr>Version := WindowVersion\<rparr>"
  by (simp add: claimWindow_def)

definition observe_all :: "'q resource_api \<Rightarrow> string \<Rightarrow> int \<Rightarrow> (time \<times> 'q resource_list) list \<Rightarrow> Window \<Rightarrow> Window" where
  "observe_all Q uid wd = fold (\<lambda>(t, us) w. fst (Observe Q t uid us wd w))"

lemma observe_all_simps [simp]:
  "observe_all Q uid wd [] w = w"
  "observe_all Q uid wd ((t, us) # ss) w = observe_all Q uid wd ss (fst (Observe Q t uid us wd w))"
  by (simp_all add: observe_all_def)

lemma distinct_observe_all: "distinct (map Date (Days w)) \<Longrightarrow> distinct (map Date (Days (observe_all Q uid wd ss w)))"
  by (induction ss arbitrary: w) (auto simp: distinct_Observe)

lemma format_date_mono:
  assumes "four_digit_year (day_number t)" "four_digit_year (day_number u)" "t \<le> u"
  shows "format_date t \<le> format_date u"
proof -
  have "day_number t \<le> day_number u" using assms(3) unfolding day_number_def
    by (intro zdiv_mono1) (simp_all add: time_units)
  then show ?thesis
    using format_day_mono [OF assms(1,2)] by (cases "day_number t = day_number u") (auto simp: format_date_def)
qed

text \<open>Dates that print with four-digit years, over the whole window before an instant.\<close>

definition printable :: "int \<Rightarrow> time \<Rightarrow> bool" where
  "printable wd t \<longleftrightarrow> 0 \<le> wd \<and> four_digit_year (day_number t) \<and> four_digit_year (day_number t - wd)"

lemma oldest_le_today: "printable wd t \<Longrightarrow> format_date (AddDate t (- wd)) \<le> format_date t"
  using format_day_mono [of "day_number t - wd" "day_number t"]
  by (cases "wd = 0") (auto simp: printable_def format_date_def)

lemma long_gap_step:
  assumes "UID w = uid" and "d \<le> format_date t" and "printable wd t"
    and "case bucket_at (Days w) d of Some b \<Rightarrow> long_gap (MaxGap b) | None \<Rightarrow> d < format_date t"
  shows "case bucket_at (Days (fst (Observe Q t uid us wd w))) d of Some b \<Rightarrow> long_gap (MaxGap b)
    | None \<Rightarrow> d < format_date t"
  using assms oldest_le_today [OF assms(3)]
  by (auto simp: Observe_lookup claimWindow_same sampled_fields long_gap_kept split: option.splits if_splits)

lemma long_gap_all:
  assumes "UID w = uid" and "d \<le> format_date t0" and "sorted (t0 # map fst ss)"
    and "\<forall>t \<in> set (t0 # map fst ss). printable wd t"
    and "case bucket_at (Days w) d of Some b \<Rightarrow> long_gap (MaxGap b) | None \<Rightarrow> d < format_date t0"
  shows "case bucket_at (Days (observe_all Q uid wd ss w)) d of Some b \<Rightarrow> long_gap (MaxGap b) | None \<Rightarrow> True"
  using assms
proof (induction ss arbitrary: w t0)
  case Nil
  then show ?case by (auto split: option.splits)
next
  case (Cons s ss)
  obtain t us where s: "s = (t, us)" by (cases s)
  have le: "format_date t0 \<le> format_date t" using Cons.prems by (intro format_date_mono) (auto simp: s printable_def)
  have p: "printable wd t" using Cons.prems(4) by (simp add: s)
  have "case bucket_at (Days w) d of Some b \<Rightarrow> long_gap (MaxGap b) | None \<Rightarrow> d < format_date t"
    using Cons.prems(5) le by (auto split: option.splits)
  from long_gap_step [OF Cons.prems(1) _ p this] Cons.prems(2) le
  have "case bucket_at (Days (fst (Observe Q t uid us wd w))) d of Some b \<Rightarrow> long_gap (MaxGap b) | None \<Rightarrow> d < format_date t"
    by (auto intro: order.trans)
  then show ?case
    using Cons.IH [of "fst (Observe Q t uid us wd w)" t] Cons.prems le
    by (auto simp: s Observe_fields intro: order.trans)
qed

text \<open>
  (C12) An outage is never forgotten: when a sample comes an hour and a second or
  more after the previous one, the day of that sample is not covered, whatever samples follow in
  the order of time. So the window cannot become complete over that day.
\<close>

theorem outage_never_covered:
  assumes "UID w = uid" and "distinct (map Date (Days w))"
    and "parse_rfc3339 (LastSampleAt w) = Some before" and "before + hour + second \<le> now"
    and "sorted (now # map fst later)" and "\<forall>t \<in> set (now # map fst later). printable windowDays t"
    and "byDate (observe_all Q uid windowDays ((now, used) # later) w) (format_date now) = Some b"
  shows "\<not> covered b"
proof -
  let ?w = "fst (Observe Q now uid used windowDays w)"
  have "case bucket_at (Days ?w) (format_date now) of Some b \<Rightarrow> long_gap (MaxGap b)
      | None \<Rightarrow> format_date now < format_date now"
    using assms(1) long_gap_outage [OF assms(3,4)]
    by (simp add: Observe_lookup claimWindow_same sampled_fields)
  from long_gap_all [OF Observe_fields(1) order.refl assms(5,6) this]
  have "case bucket_at (Days (observe_all Q uid windowDays later ?w)) (format_date now) of
      Some b \<Rightarrow> long_gap (MaxGap b) | None \<Rightarrow> True" .
  moreover have "distinct (map Date (Days (observe_all Q uid windowDays ((now, used) # later) w)))"
    by (rule distinct_observe_all [OF assms(2)])
  ultimately show ?thesis
    using assms(7) by (simp add: byDate_distinct long_gap_uncovered)
qed

section \<open>The invariant of the window\<close>

text \<open>Every bucket is named by a day.\<close>

definition days_named :: "Window \<Rightarrow> bool" where
  "days_named w \<longleftrightarrow> (\<forall>b \<in> set (Days w). \<exists>n. four_digit_year n \<and> Date b = format_day n)"

text \<open>
  (C23) \<^verbatim>\<open>Observe\<close> keeps the window well-formed and bounded: after every sample the
  dates are distinct and lie between the oldest day of the window and today, today has a
  bucket, and there are at most \<open>windowDays + 1\<close> buckets, so the stored annotation cannot grow
  without bound. The window carries the current version and the identity of the quota.
\<close>

theorem Observe_invariant:
  assumes "distinct (map Date (Days w))" and "days_named w" and "printable windowDays now"
    and "w' = fst (Observe Q now uid used windowDays w)"
  shows "distinct (map Date (Days w')) \<and> days_named w'
    \<and> (\<forall>b \<in> set (Days w'). format_date (AddDate now (- windowDays)) \<le> Date b \<and> Date b \<le> format_date now)
    \<and> format_date now \<in> Date ` set (Days w') \<and> length (Days w') \<le> nat windowDays + 1
    \<and> UID w' = uid \<and> Version w' = WindowVersion"
proof (intro conjI)
  let ?n = "day_number now"
  have dates: "Date ` set (Days w') = insert (format_date now)
      (Date ` set (Days (fst (prune now windowDays (claimWindow uid w)))))"
    using arg_cong [OF Observe_dates, of set Q now uid used windowDays w]
    by (auto simp: assms(4) Let_def)
  have old: "Date ` set (Days (claimWindow uid w)) \<subseteq> Date ` set (Days w)"
    by (auto simp: claimWindow_def emptyWindow_def)
  show d: "distinct (map Date (Days w'))" unfolding assms(4) by (rule distinct_Observe [OF assms(1)])
  show r: "\<forall>b \<in> set (Days w'). format_date (AddDate now (- windowDays)) \<le> Date b \<and> Date b \<le> format_date now"
  proof
    fix b
    assume "b \<in> set (Days w')"
    then have "Date b \<in> Date ` set (Days w')" by simp
    then show "format_date (AddDate now (- windowDays)) \<le> Date b \<and> Date b \<le> format_date now"
      unfolding dates prune_Days using oldest_le_today [OF assms(3)] by auto
  qed
  show "format_date now \<in> Date ` set (Days w')" unfolding dates by simp
  show n: "days_named w'"
    unfolding days_named_def
  proof
    fix b
    assume "b \<in> set (Days w')"
    then have "Date b \<in> Date ` set (Days w')" by simp
    then have "Date b = format_date now \<or> Date b \<in> Date ` set (Days w)"
      unfolding dates prune_Days using old by auto
    then show "\<exists>n. four_digit_year n \<and> Date b = format_day n"
      using assms(2,3) by (auto simp: days_named_def printable_def format_date_def)
  qed
  have "Date ` set (Days w') \<subseteq> format_day ` {?n - windowDays .. ?n}"
  proof
    fix x
    assume "x \<in> Date ` set (Days w')"
    then obtain b where b: "b \<in> set (Days w')" "x = Date b" by auto
    with n obtain m where m: "four_digit_year m" "x = format_day m" by (auto simp: days_named_def)
    from b r have "format_day (?n - windowDays) \<le> x" "x \<le> format_day ?n" by (auto simp: format_date_def)
    then have "\<not> m < ?n - windowDays" "\<not> ?n < m"
      using m assms(3) format_day_less_iff [of m "?n - windowDays"] format_day_less_iff [of ?n m]
      by (auto simp: printable_def)
    then show "x \<in> format_day ` {?n - windowDays .. ?n}" using m by auto
  qed
  from card_mono [OF _ this] have "card (Date ` set (Days w')) \<le> card (format_day ` {?n - windowDays .. ?n})" by simp
  also have "\<dots> \<le> card {?n - windowDays .. ?n}" by (rule card_image_le) simp
  also have "\<dots> = nat windowDays + 1" using assms(3) by (simp add: printable_def nat_add_distrib)
  finally show "length (Days w') \<le> nat windowDays + 1" using distinct_card [OF d] by simp
  show "UID w' = uid" "Version w' = WindowVersion" by (simp_all add: assms(4) Observe_fields)
qed

section \<open>Peaks\<close>

definition raised :: "'q resource_api \<Rightarrow> 'q \<Rightarrow> string option \<Rightarrow> string" where
  "raised Q q old = (case old of None \<Rightarrow> QString Q q
     | Some s \<Rightarrow> (case ParseQuantity Q s of None \<Rightarrow> QString Q q | Some x \<Rightarrow> if Cmp Q q x > 0 then QString Q q else s))"

lemma fold_observe_peak:
  assumes "distinct (map fst us)"
  shows "map_of (fst (fold (observe_peak Q) us (p, c))) k
    = (case map_of us k of None \<Rightarrow> map_of p k | Some q \<Rightarrow> Some (raised Q q (map_of p k)))"
proof -
  have "map_of (fst (observe_peak Q (k', q) pc)) k = (if k' = k then Some (raised Q q (map_of (fst pc) k)) else map_of (fst pc) k)"
    for k' q pc
    by (auto simp: observe_peak_def raised_def split: option.splits)
  from fold_field [where F = "\<lambda>pc. map_of (fst pc) k", OF this assms, of "(p, c)"] show ?thesis
    by (simp only: fst_conv)
qed

definition elig :: "'q resource_api \<Rightarrow> resource_name \<Rightarrow> string \<Rightarrow> string \<Rightarrow> DayBucket \<Rightarrow> int option" where
  "elig Q res today oldest b = (if Date b \<ge> today \<or> Date b < oldest then None
     else case map_of (Peaks b) res of None \<Rightarrow> None
     | Some raw \<Rightarrow> (case ParseQuantity Q raw of None \<Rightarrow> None
       | Some qty \<Rightarrow> if overflowsMilliValue Q qty then None else Some (MilliValue Q qty)))"

lemma peak_step_elig: "peak_step Q res today oldest b best = (case elig Q res today oldest b of None \<Rightarrow> best
    | Some m \<Rightarrow> Some (case best of None \<Rightarrow> m | Some x \<Rightarrow> max x m))"
  by (auto simp: peak_step_def elig_def Let_def max_def split: option.splits)

lemma fold_peak:
  "fold (peak_step Q res today oldest) bs best = (let ms = List.map_filter (elig Q res today oldest) bs in
     case best of None \<Rightarrow> (case ms of [] \<Rightarrow> None | m # ms' \<Rightarrow> Some (fold max ms' m)) | Some x \<Rightarrow> Some (fold max ms x))"
proof (induction bs arbitrary: best)
  case Nil
  then show ?case by (simp add: List.map_filter_simps Let_def split: option.split)
next
  case (Cons b bs)
  then show ?case
    by (auto simp: peak_step_elig map_filter_Cons Let_def max.commute split: option.splits list.splits)
qed

lemma fold_max: "fold max ms (m::int) = Max (set (m # ms))"
  by (simp flip: Max.set_eq_fold)

lemma Peak_cases:
  fixes now wd Q res w
  defines "E \<equiv> elig Q res (format_date now) (format_date (AddDate now (- wd)))"
  shows "Peak Q w res now wd = (let ms = List.map_filter E (Days w) in if ms = [] then None else Some (Max (set ms)))"
  by (simp add: Peak_def fold_peak E_def Let_def fold_max split: list.split)

lemma set_map_filter: "set (List.map_filter f xs) = {y. \<exists>x \<in> set xs. f x = Some y}"
  by (induction xs) (auto simp: List.map_filter_simps split: option.split)

lemma Peak_ge:
  assumes "b \<in> set (Days w)" and "elig Q res (format_date now) (format_date (AddDate now (- wd))) b = Some m"
  shows "\<exists>p. Peak Q w res now wd = Some p \<and> m \<le> p"
proof -
  define ms where "ms = List.map_filter (elig Q res (format_date now) (format_date (AddDate now (- wd)))) (Days w)"
  have "m \<in> set ms" using assms by (auto simp: ms_def set_map_filter)
  then show ?thesis by (auto simp: Peak_cases Let_def simp flip: ms_def)
qed

lemma Peak_SomeD:
  assumes "Peak Q w res now wd = Some p"
  shows "\<exists>b \<in> set (Days w). elig Q res (format_date now) (format_date (AddDate now (- wd))) b = Some p"
proof -
  define ms where "ms = List.map_filter (elig Q res (format_date now) (format_date (AddDate now (- wd)))) (Days w)"
  have "ms \<noteq> []" "p = Max (set ms)" using assms by (auto simp: Peak_cases Let_def simp flip: ms_def split: if_splits)
  then have "p \<in> set ms" by simp
  then show ?thesis by (auto simp: ms_def set_map_filter)
qed

text \<open>
  The stored peak of the day is a running maximum: after a sample, the bucket
  of today holds for every sampled key a value that reads back as the larger of the sample and
  of what was stored before (a stored value that does not parse is replaced).
\<close>

theorem Observe_peak_max:
  assumes "quantity_laws Q val" and "distinct (map fst used)" and "(res, q) \<in> set used"
    and "distinct (map Date (Days w))" and "UID w = uid" and "printable windowDays now"
    and "w' = fst (Observe Q now uid used windowDays w)"
  shows "\<exists>b s p. byDate w' (format_date now) = Some b \<and> map_of (Peaks b) res = Some s \<and> ParseQuantity Q s = Some p
    \<and> val p = (case Option.bind (Option.bind (byDate w (format_date now)) (\<lambda>b. map_of (Peaks b) res)) (ParseQuantity Q) of
        None \<Rightarrow> val q | Some old \<Rightarrow> max (val q) (val old))"
proof -
  let ?old = "case byDate w (format_date now) of Some b \<Rightarrow> b | None \<Rightarrow> newBucket now"
  have "bucket_at (Days w') (format_date now) = Some (sampled Q (LastSampleAt w) now used ?old)"
    using oldest_le_today [OF assms(6)] assms(4,5)
    by (simp add: assms(7) Observe_lookup claimWindow_same byDate_distinct)
  then have b: "byDate w' (format_date now) = Some (sampled Q (LastSampleAt w) now used ?old)"
    using byDate_distinct [of w'] distinct_Observe [OF assms(4), of Q now uid used windowDays] unfolding assms(7) by simp
  have m: "map_of used res = Some q" using assms(2,3) by simp
  have p: "map_of (Peaks (sampled Q (LastSampleAt w) now used ?old)) res = Some (raised Q q (map_of (Peaks ?old) res))"
    by (simp add: sampled_fields fold_observe_peak [OF assms(2)] m)
  obtain q' where q': "ParseQuantity Q (QString Q q) = Some q'" "val q' = val q"
    using quantity_laws.parse_string [OF assms(1), of q] by auto
  have "\<exists>x. ParseQuantity Q (raised Q q old) = Some x \<and> val x = (case Option.bind old (ParseQuantity Q) of
      None \<Rightarrow> val q | Some o' \<Rightarrow> max (val q) (val o'))" for old
    using q' quantity_laws.cmp_greater [OF assms(1), of q]
    by (auto simp: raised_def max_def split: option.splits)
  from this [of "map_of (Peaks ?old) res"] b p show ?thesis
    by (auto simp: newBucket_def split: option.splits)
qed


section \<open>Decoding\<close>

text \<open>
  Whatever text the annotation holds, and whatever the JSON decoder makes of
  it, the decoded window has the current version and no two buckets of one date.
\<close>

theorem DecodeWindow_wellformed:
  "Version (DecodeWindow unmarshal raw) = WindowVersion \<and> distinct (map Date (Days (DecodeWindow unmarshal raw)))"
  by (auto simp: DecodeWindow_def emptyWindow_def hasDuplicateDates_iff split: option.splits)

text \<open>
  A window with distinct dates that the controller wrote decodes to itself, given that
  the JSON codec reads back what it writes and never writes the empty text.
\<close>

theorem Decode_Encode:
  assumes "\<And>x s. marshal x = Some s \<Longrightarrow> s \<noteq> '''' \<and> unmarshal s = Some x"
    and "distinct (map Date (Days w))" and "EncodeWindow marshal w = Some s"
  shows "DecodeWindow unmarshal s = w\<lparr>Version := WindowVersion\<rparr>"
  using assms by (auto simp: DecodeWindow_def EncodeWindow_def hasDuplicateDates_iff split: option.splits)

text \<open>
  A quota that was deleted and recreated starts over: when the stored window
  belongs to another object, the window after the sample has one bucket, of today, with the
  sampled values only, so nothing of the old history can drive a shrink.
\<close>

theorem UID_change_resets:
  assumes "UID w \<noteq> ''''" and "UID w \<noteq> uid" and "distinct (map fst used)"
    and "w' = fst (Observe Q now uid used windowDays w)"
  shows "(\<exists>b. Days w' = [b] \<and> Date b = format_date now \<and> First b = format_time now \<and> Last b = format_time now
      \<and> (\<forall>res. map_of (Peaks b) res = map_option (QString Q) (map_of used res)))
    \<and> (0 < windowDays \<and> four_digit_year (day_number now) \<and> four_digit_year (day_number now - 1)
        \<longrightarrow> \<not> IsComplete Q w' res now windowDays)"
proof (intro conjI impI)
  let ?b = "sampled Q '''' now used (newBucket now)"
  have c: "Days (claimWindow uid w) = []" "LastSampleAt (claimWindow uid w) = ''''"
    using assms(1,2) by (simp_all add: claimWindow_def emptyWindow_def)
  have d: "Days w' = [?b]"
    using Observe_Days [of Q now uid used windowDays w] by (simp add: assms(4) prune_Days c)
  have "map_of (Peaks ?b) r = map_option (QString Q) (map_of used r)" for r
    by (simp add: sampled_fields fold_observe_peak [OF assms(3)] newBucket_def raised_def split: option.split)
  then show "\<exists>b. Days w' = [b] \<and> Date b = format_date now \<and> First b = format_time now \<and> Last b = format_time now
      \<and> (\<forall>res. map_of (Peaks b) res = map_option (QString Q) (map_of used res))"
    using d by (auto simp: sampled_fields newBucket_def)
  assume "0 < windowDays \<and> four_digit_year (day_number now) \<and> four_digit_year (day_number now - 1)"
  then have wd: "0 < windowDays" and y: "four_digit_year (day_number now)" "four_digit_year (day_number now - 1)" by auto
  have "format_date (AddDate now (- 1)) \<noteq> format_date now"
    using y format_day_inj [OF y] by (simp add: format_date_def)
  then have "\<not> day_complete Q w' res (format_date (AddDate now (- 1)))"
    by (simp add: day_complete_def byDate_def d sampled_fields)
  then show "\<not> IsComplete Q w' res now windowDays"
    unfolding IsComplete_def list_all_iff using wd by force
qed

text \<open>
  A day whose stored value is negative counts as complete although
  \<^verbatim>\<open>Peak\<close> skips it: the window can be complete and the peak unknown.
\<close>

theorem IsComplete_without_peak:
  "\<exists>w. IsComplete nano_api w ''pods'' (200000 * second) 1 \<and> Peak nano_api w ''pods'' (200000 * second) 1 = None"
proof -
  let ?b = "\<lparr>Date = format_day 1, N_samples = 24, First = ''00:00'', Last = ''23:59'', MaxGap = '''', Peaks = [(''pods'', ''-1'')]\<rparr>"
  let ?w = "emptyWindow\<lparr>Days := [?b]\<rparr>"
  have n: "day_number (200000 * second) = 2" by (simp add: day_number_def time_units)
  have p: "nano_parse ''-1'' = Some (- (10 ^ 9), DecimalSI)" by (simp add: go_eval)
  have c: "covered ?b" by (simp add: covered_def parseGap_def dayCoverageMaxGap_def time_units coverageFirstBy_def coverageLastBy_def less_eq_char_def)
  have "IsComplete nano_api ?w ''pods'' (200000 * second) 1"
    using c by (simp add: IsComplete_def day_complete_def byDate_def format_date_def n p)
  moreover have "Peak nano_api ?w ''pods'' (200000 * second) 1 = None"
    by (simp add: Peak_def peak_step_def p overflowsMilliValue_def)
  ultimately show ?thesis by blast
qed
section \<open>Witnesses\<close>

lemma four_digit_examples: "four_digit_year 0" "four_digit_year 1" "four_digit_year 2"
  by (simp_all add: four_digit_year_def year_of_def civil_of_days_def Let_def cong: let_weak_cong)

lemma day_number_examples: "day_number (2 * day) = 2" "day_number (2 * day + 2 * hour) = 2"
  by (simp_all add: day_number_def time_units)

lemma printable_examples: "printable 2 (2 * day)" "printable 2 (2 * day + 2 * hour)" "printable 1 (2 * day)"
  by (simp_all add: printable_def day_number_examples four_digit_examples)

theorem outage_never_covered_witness:
  "\<exists>b. byDate (observe_all nano_api ''u'' 2 [(2 * day + 2 * hour, [(''pods'', (5 * 10 ^ 9, DecimalSI))])]
        (emptyWindow\<lparr>UID := ''u'', LastSampleAt := format_rfc3339 (2 * day)\<rparr>)) (format_date (2 * day + 2 * hour)) = Some b
     \<and> \<not> covered b"
proof -
  let ?w = "emptyWindow\<lparr>UID := ''u'', LastSampleAt := format_rfc3339 (2 * day)\<rparr>"
  let ?us = "[(''pods'', (5 * 10 ^ 9, DecimalSI))]"
  let ?t = "2 * day + 2 * hour"
  have d: "distinct (map Date (Days ?w))" by (simp add: emptyWindow_def)
  have "parse_rfc3339 (LastSampleAt ?w) = Some (2 * day - 2 * day mod second)"
    using parse_format_rfc3339 [of "2 * day"] by (simp add: day_number_examples four_digit_examples)
  then have p: "parse_rfc3339 (LastSampleAt ?w) = Some (2 * day)" by (simp add: time_units)
  obtain b where b: "byDate (observe_all nano_api ''u'' 2 [(?t, ?us)] ?w) (format_date ?t) = Some b"
    using distinct_observe_all [OF d, of nano_api "''u''" 2 "[(?t, ?us)]"]
    by (simp add: byDate_distinct Observe_lookup)
  have "2 * day + hour + second \<le> ?t" by (simp add: time_units)
  from outage_never_covered [OF _ d p this, of "''u''" "[]" 2 nano_api ?us b] b printable_examples(2)
  show ?thesis by (auto simp: emptyWindow_def)
qed

theorem Observe_invariant_witness:
  "length (Days (fst (Observe nano_api (2 * day) ''u'' [(''pods'', (5 * 10 ^ 9, DecimalSI))] 2
      (emptyWindow\<lparr>Days := [newBucket 0]\<rparr>)))) \<le> 3"
proof -
  have "distinct (map Date (Days (emptyWindow\<lparr>Days := [newBucket 0]\<rparr>)))"
    "days_named (emptyWindow\<lparr>Days := [newBucket 0]\<rparr>)"
    using four_digit_examples(1) by (auto simp: days_named_def format_date_def day_number_def)
  from Observe_invariant [OF this printable_examples(1) refl, of nano_api "''u''" "[(''pods'', (5 * 10 ^ 9, DecimalSI))]"]
  show ?thesis by simp
qed

theorem Observe_peak_max_witness:
  "\<exists>b s p. byDate (fst (Observe nano_api (2 * day) '''' [(''pods'', (5 * 10 ^ 9, DecimalSI))] 2 emptyWindow)) (format_date (2 * day)) = Some b
     \<and> map_of (Peaks b) ''pods'' = Some s \<and> nano_parse s = Some p \<and> nano_val p = 5"
  using Observe_peak_max [OF nq.quantity_laws_axioms, of "[(''pods'', (5 * 10 ^ 9, DecimalSI))]" "''pods''" "(5 * 10 ^ 9, DecimalSI)"
      emptyWindow "''''" 2 "2 * day" "fst (Observe nano_api (2 * day) '''' [(''pods'', (5 * 10 ^ 9, DecimalSI))] 2 emptyWindow)"]
    printable_examples(1)
  by (auto simp: emptyWindow_def byDate_def nano_val_def)

lemma covered_example:
  "covered \<lparr>Date = format_day 1, N_samples = 24, First = ''00:00'', Last = ''23:59'', MaxGap = '''', Peaks = ps\<rparr>"
  by (simp add: covered_def parseGap_def dayCoverageMaxGap_def time_units coverageFirstBy_def coverageLastBy_def less_eq_char_def)


theorem Decode_Encode_witness:
  "DecodeWindow (\<lambda>s. if s = ''w'' then Some emptyWindow else None) ''w'' = emptyWindow"
proof -
  let ?m = "\<lambda>x. if x = emptyWindow then Some ''w'' else None" and ?u = "\<lambda>s. if s = ''w'' then Some emptyWindow else None"
  have l: "s \<noteq> '''' \<and> ?u s = Some x" if "?m x = Some s" for x s using that by (auto split: if_splits)
  have e: "EncodeWindow ?m emptyWindow = Some ''w''" by (simp add: EncodeWindow_def emptyWindow_def)
  show ?thesis using Decode_Encode [where marshal = ?m and unmarshal = ?u, OF l _ e]
    by (simp add: emptyWindow_def)
qed

theorem UID_change_resets_witness:
  "\<not> IsComplete nano_api (fst (Observe nano_api (2 * day) ''new'' [(''pods'', (5 * 10 ^ 9, DecimalSI))] 1
      (emptyWindow\<lparr>UID := ''old'', Days := [newBucket day]\<rparr>))) ''pods'' (2 * day) 1"
  using UID_change_resets [of "emptyWindow\<lparr>UID := ''old'', Days := [newBucket day]\<rparr>" "''new''"
      "[(''pods'', (5 * 10 ^ 9, DecimalSI))]" _ nano_api "2 * day" 1 "''pods''", OF _ _ _ refl]
    four_digit_examples day_number_examples
  by simp
end
