(* ===== verification/Observer.thy ===== *)
theory Observer
  imports Lease_Correct Window
begin

text \<open>
  The observer: \<^verbatim>\<open>internal/controller/observation.go\<close>. A cache of windows in the memory of the
  process; the Lease is written when a window changed or the heartbeat elapsed.

  The mutex is not modelled: it is never held across a call, and controller-runtime does not
  reconcile one object twice at once.
\<close>

definition observationHeartbeat :: duration where "observationHeartbeat = hour"

record 'q controller = "'q call world" +
  cached :: "Window smap"

type_synonym ('q, 'm, 'a) cprog = "('q call, 'm controller_ext, 'a) io"

text \<open>The codec of \<^verbatim>\<open>encoding/json\<close> for windows.\<close>

record codec =
  Marshal :: "Window \<Rightarrow> string option"
  Unmarshal :: "string \<Rightarrow> Window option"

definition cacheKey :: "string \<Rightarrow> string \<Rightarrow> string" where
  "cacheKey namespace name = namespace @ ''/'' @ name"

definition heartbeatElapsed :: "Window \<Rightarrow> time \<Rightarrow> bool" where
  "heartbeatElapsed window now = (if LastWriteAt window = '''' then True
     else case parse_rfc3339 (LastWriteAt window) of None \<Rightarrow> True
       | Some t \<Rightarrow> Sub now t \<ge> observationHeartbeat)"

text \<open>
  The window taken from the cache shares its slice and its maps with the cached copy. What
  \<open>Observe\<close> wrote through them is seen in the cache even when the sample is not stored in the end:
  the bucket of the day, when no bucket was pruned; its peaks only, when the slice was copied by
  pruning; nothing, when the window was reset or the bucket is new.
\<close>

definition aliased :: "time \<Rightarrow> string \<Rightarrow> int \<Rightarrow> Window \<Rightarrow> Window \<Rightarrow> Window" where
  "aliased now uid windowDays old new =
     (if UID old \<noteq> '''' \<and> UID old \<noteq> uid then old
      else case prune now windowDays old of (pruned, copied) \<Rightarrow>
        (case (indexOf (Days pruned) (format_date now), indexOf (Days old) (format_date now)) of
           (Some j, Some i) \<Rightarrow>
             if copied then old\<lparr>Days := (Days old)[i := (Days old ! i)\<lparr>Peaks := Peaks (Days new ! j)\<rparr>]\<rparr>
             else old\<lparr>Days := (Days old)[i := Days new ! j]\<rparr>
         | _ \<Rightarrow> old))"

definition store_window :: "string \<Rightarrow> Window \<Rightarrow> ('q, 'm, unit) cprog" where
  "store_window key window = modify (\<lambda>w. w\<lparr>cached := AList.update key window (cached w)\<rparr>)"

definition alias_window :: "string \<Rightarrow> time \<Rightarrow> string \<Rightarrow> int \<Rightarrow> Window \<Rightarrow> ('q, 'm, unit) cprog" where
  "alias_window key now uid windowDays new = modify (\<lambda>w. case map_of (cached w) key of None \<Rightarrow> w
     | Some old \<Rightarrow> w\<lparr>cached := AList.update key (aliased now uid windowDays old new) (cached w)\<rparr>)"

definition load_window :: "'q client \<Rightarrow> codec \<Rightarrow> string \<Rightarrow> string \<Rightarrow> ('q, 'm, Window result) cprog" where
  "load_window E J namespace name = do {
     c \<leftarrow> look (\<lambda>w. map_of (cached w) (cacheKey namespace name));
     case c of
       Some window \<Rightarrow> return (Inr window)
     | None \<Rightarrow> or_fail (GetState E namespace name)
         (\<lambda>st. return (Inr (DecodeWindow (Unmarshal J) (State_Window st)))) }"

definition Observer_Observe ::
  "'q resource_api \<Rightarrow> 'q client \<Rightarrow> ('q call, 'm controller_ext) retrier \<Rightarrow> codec \<Rightarrow> 'q ResourceQuota \<Rightarrow> int
    \<Rightarrow> ('q, 'm, Window result) cprog" where
  "Observer_Observe Q E R J quota windowDays = (let
      ns = Quota_Namespace quota; name = Quota_Name quota; key = cacheKey ns name; uid = Quota_UID quota in
    or_fail (load_window E J ns name) (\<lambda>window. do {
      now \<leftarrow> time_Now E;
      case Observe Q now uid (Status_Used quota) windowDays window of (window, changed) \<Rightarrow>
        if changed \<or> heartbeatElapsed window now then
          let window = window\<lparr>LastWriteAt := format_rfc3339 now\<rparr> in
          case EncodeWindow (Marshal J) window of
            None \<Rightarrow> do { alias_window key now uid windowDays window; return (Inl (OtherError ''json'')) }
          | Some encoded \<Rightarrow> do {
              r \<leftarrow> MutateState E R ns name (\<lambda>s. return (s\<lparr>State_Window := encoded\<rparr>));
              case r of
                Inl err \<Rightarrow> do { alias_window key now uid windowDays window; return (Inl err) }
              | Inr _ \<Rightarrow> do { store_window key window; return (Inr window) } }
        else do { store_window key window; return (Inr window) } }))"

definition Forget :: "string \<Rightarrow> string \<Rightarrow> ('q, 'm, unit) cprog" where
  "Forget namespace name = modify (\<lambda>w. w\<lparr>cached := AList.delete (cacheKey namespace name) (cached w)\<rparr>)"

section \<open>Lock operations leave the cache alone\<close>

lemma keeps_GetState: "keeps (GetState E ns q)"
  unfolding GetState_def by (intro keeps_bind) (auto split: sum.split)

lemma keeps_mutate_once: "(\<And>st. keeps (fn st)) \<Longrightarrow> keeps (mutate_once E ns q fn)"
  unfolding mutate_once_def by (intro keeps_or_fail keeps_bind) auto

lemma keeps_ensureLeaseExists: "keeps (ensureLeaseExists E ns q)"
  unfolding ensureLeaseExists_def by (intro keeps_bind) (auto intro!: keeps_bind split: sum.split)

lemma keeps_MutateState:
  assumes "retries_on_conflict R" and "\<And>st. keeps (fn st)"
  shows "keeps (MutateState E R ns q fn)"
  unfolding MutateState_def
  by (rule keeps_or_fail [OF keeps_ensureLeaseExists]) (rule keeps_retry [OF assms(1) keeps_mutate_once [OF assms(2)]])

lemma keeps_cached:
  assumes "keeps m" and "run_state m w = (x, w')"
  shows "cached w' = cached w"
proof -
  have "cached w' = cached (w\<lparr>calls := calls w'\<rparr>)" by (rule arg_cong [OF keeps_run [OF assms]])
  then show ?thesis by simp
qed

section \<open>The cache and the Lease\<close>

text \<open>The state an answer to a read of the Lease stands for.\<close>

definition read_state :: "Lease result \<Rightarrow> LockState" where
  "read_state r = (case r of Inl _ \<Rightarrow> zeroState | Inr lease \<Rightarrow> stateFromLease lease)"

lemma ensures_load_window:
  "ensures (load_window E J ns q) (\<lambda>r s. s = [] \<or> (\<exists>x. s = [GetLease ControllerNamespace (getLeaseName ns q) x]))"
  unfolding load_window_def GetState_def or_fail_def
  by (intro ensures_intro) (auto intro!: ensures_intro ensures_bind_return split: sum.split)

lemma load_window_run:
  assumes "run_state (load_window E J ns q) w = (Inr window, w')"
  shows "\<exists>s. w' = w\<lparr>calls := calls w @ s\<rparr> \<and> (case map_of (cached w) (cacheKey ns q) of
      Some b \<Rightarrow> s = [] \<and> window = b
    | None \<Rightarrow> \<exists>r. s = [GetLease ControllerNamespace (getLeaseName ns q) r] \<and> window = DecodeWindow (Unmarshal J) (State_Window (read_state r)))"
  using assms
  by (auto simp: load_window_def GetState_def run_or_fail read_state_def split: option.splits sum.splits if_splits)

lemma load_window_fails: "run_state (load_window E J ns q) w = (Inl e, w') \<Longrightarrow> cached w' = cached w"
  by (auto simp: load_window_def GetState_def run_or_fail split: option.splits sum.splits if_splits)

text \<open>The two ways in which a sample is kept: in the cache only, or on the Lease too.\<close>

definition sample_kept :: "codec \<Rightarrow> time \<Rightarrow> Window \<times> bool \<Rightarrow> Window \<Rightarrow> 'q call list \<Rightarrow> bool" where
  "sample_kept J now obs window s \<longleftrightarrow> (case obs of (observed, changed) \<Rightarrow>
     (window = observed \<and> \<not> changed \<and> \<not> heartbeatElapsed observed now)
   \<or> (window = observed\<lparr>LastWriteAt := format_rfc3339 now\<rparr>
      \<and> (\<exists>p l st. s = p @ [UpdateLease (applyStateToLease st l) (Inr ())] \<and> EncodeWindow (Marshal J) window = Some (State_Window st))))"

lemma persist_run:
  assumes R: "retries_on_conflict R"
    and r: "run_state (MutateState E R ns q (\<lambda>s. return (s\<lparr>State_Window := enc\<rparr>))) w = (r, w')"
  shows "cached w' = cached w \<and> (\<exists>s. calls w' = calls w @ s \<and>
     (r = Inr () \<longrightarrow> (\<exists>p l st. s = p @ [UpdateLease (applyStateToLease st l) (Inr ())] \<and> State_Window st = enc)))"
proof -
  let ?F = "\<lambda>st st' c. st' = st\<lparr>State_Window := enc\<rparr>"
  have "ensures (MutateState E R ns q (\<lambda>s. return (s\<lparr>State_Window := enc\<rparr>))) (mutate_calls ns q ?F)"
    by (rule ensures_MutateState [OF R]) (simp add: ensures_return)
  from ensuresD [OF this r] obtain s where s: "calls w' = calls w @ s" "mutate_calls ns q ?F r s" by blast
  have "r = Inr () \<longrightarrow> (\<exists>p l st. s = p @ [UpdateLease (applyStateToLease st l) (Inr ())] \<and> State_Window st = enc)"
  proof
    assume "r = Inr ()"
    with s(2) mutate_calls_success [of ns q ?F s] obtain p l st c where
      e: "s = p @ GetLease ControllerNamespace (getLeaseName ns q) (Inr l) # c @ [UpdateLease (applyStateToLease st l) (Inr ())]"
      "st = (stateFromLease l)\<lparr>State_Window := enc\<rparr>" by blast
    show "\<exists>p l st. s = p @ [UpdateLease (applyStateToLease st l) (Inr ())] \<and> State_Window st = enc"
      by (rule exI [of _ "p @ GetLease ControllerNamespace (getLeaseName ns q) (Inr l) # c"], rule exI [of _ l],
          rule exI [of _ st]) (simp add: e)
  qed
  with s(1) keeps_cached [OF keeps_MutateState [OF R] r] show ?thesis by auto
qed

lemma Observer_run_ok:
  assumes R: "retries_on_conflict R"
    and run: "run_state (Observer_Observe Q E R J quota wd) w = (Inr window, w')"
  defines "key \<equiv> cacheKey (Quota_Namespace quota) (Quota_Name quota)"
  shows "cached w' = AList.update key window (cached w)
    \<and> (\<exists>s before now. calls w' = calls w @ s \<and> Clock now \<in> set s
       \<and> (case map_of (cached w) key of Some b \<Rightarrow> before = b
          | None \<Rightarrow> \<exists>r. GetLease ControllerNamespace (getLeaseName (Quota_Namespace quota) (Quota_Name quota)) r \<in> set s
               \<and> before = DecodeWindow (Unmarshal J) (State_Window (read_state r)))
       \<and> sample_kept J now (Observe Q now (Quota_UID quota) (Status_Used quota) wd before) window s)"
proof -
  let ?ns = "Quota_Namespace quota" and ?n = "Quota_Name quota"
  obtain r0 w0 where r0: "run_state (load_window E J ?ns ?n) w = (r0, w0)" by force
  with run obtain b where b: "r0 = Inr b" by (cases r0) (simp_all add: Observer_Observe_def run_or_fail Let_def)
  obtain s0 where s0: "w0 = w\<lparr>calls := calls w @ s0\<rparr>" and before: "case map_of (cached w) key of
      Some c \<Rightarrow> s0 = [] \<and> b = c
    | None \<Rightarrow> \<exists>r. s0 = [GetLease ControllerNamespace (getLeaseName ?ns ?n) r] \<and> b = DecodeWindow (Unmarshal J) (State_Window (read_state r))"
    using load_window_run [OF r0 [unfolded b]] unfolding key_def by blast
  let ?now = "clock E (calls w0)" and ?w1 = "w0\<lparr>calls := calls w0 @ [Clock (clock E (calls w0))]\<rparr>"
  obtain obs ch where o: "Observe Q ?now (Quota_UID quota) (Status_Used quota) wd b = (obs, ch)" by force
  let ?win = "obs\<lparr>LastWriteAt := format_rfc3339 ?now\<rparr>"
  have before': "case map_of (cached w) key of Some c \<Rightarrow> b = c
      | None \<Rightarrow> \<exists>r. GetLease ControllerNamespace (getLeaseName ?ns ?n) r \<in> set (s0 @ Clock ?now # t)
           \<and> b = DecodeWindow (Unmarshal J) (State_Window (read_state r))" for t
    using before by (auto split: option.splits)
  show ?thesis
  proof (cases "ch \<or> heartbeatElapsed obs ?now")
    case False
    with run r0 b o have "window = obs" "w' = ?w1\<lparr>cached := AList.update key obs (cached w)\<rparr>"
      by (auto simp: Observer_Observe_def run_or_fail Let_def store_window_def key_def s0)
    with False o before' [of "[]"] s0 show ?thesis
      by (intro conjI exI [of _ "s0 @ [Clock ?now]"] exI [of _ b] exI [of _ ?now]) (simp_all add: sample_kept_def)
  next
    case True
    with run r0 b o obtain enc where enc: "EncodeWindow (Marshal J) ?win = Some enc"
      by (cases "EncodeWindow (Marshal J) ?win") (simp_all add: Observer_Observe_def run_or_fail Let_def split: prod.splits)
    obtain r2 w2 where r2: "run_state (MutateState E R ?ns ?n (\<lambda>s. return (s\<lparr>State_Window := enc\<rparr>))) ?w1 = (r2, w2)" by force
    with run r0 b o True enc have m: "r2 = Inr ()" "window = ?win" "w' = w2\<lparr>cached := AList.update key ?win (cached w2)\<rparr>"
      by (cases r2; simp add: Observer_Observe_def run_or_fail Let_def store_window_def key_def split: prod.splits)+
    from persist_run [OF R r2] m(1) obtain s2 p l st where
      s2: "cached w2 = cached ?w1" "calls w2 = calls ?w1 @ s2" "s2 = p @ [UpdateLease (applyStateToLease st l) (Inr ())]" "State_Window st = enc"
      by blast
    have "sample_kept J ?now (obs, ch) window (s0 @ Clock ?now # s2)"
      unfolding sample_kept_def using m(2) enc s2(3,4)
      by (simp, intro disjI2 exI [of _ "s0 @ Clock ?now # p"] exI [of _ l] exI [of _ st]) simp
    with m s2(1,2) o before' [of s2] s0 show ?thesis
      by (intro conjI exI [of _ "s0 @ Clock ?now # s2"] exI [of _ b] exI [of _ ?now]) simp_all
  qed
qed


text \<open>The fields that date the cached window.\<close>

definition window_stamps :: "Window \<Rightarrow> string \<times> string \<times> string" where
  "window_stamps b = (UID b, LastSampleAt b, LastWriteAt b)"

lemma aliased_stamps: "window_stamps (aliased now uid wd old new) = window_stamps old"
  by (auto simp: aliased_def window_stamps_def split: prod.splits option.splits)

lemma alias_window_stamps:
  "run_state (alias_window key now uid wd new) w = (x, w') \<Longrightarrow>
    map_option window_stamps (map_of (cached w') k) = map_option window_stamps (map_of (cached w) k)"
  by (auto simp: alias_window_def aliased_stamps split: option.splits)

text \<open>
  (C36) When the observer fails, the cached windows keep their owner and the
  times of their last sample and last write, although the failed sample may have changed a bucket
  through shared memory: the next sample still measures its gap from the last one that was kept.
\<close>

theorem Observer_failure_keeps_clock:
  assumes "retries_on_conflict R"
    and "run_state (Observer_Observe Q E R J quota wd) w = (Inl e, w')"
  shows "map_option window_stamps (map_of (cached w') k) = map_option window_stamps (map_of (cached w) k)"
proof -
  let ?ns = "Quota_Namespace quota" and ?n = "Quota_Name quota"
  obtain r0 w0 where r0: "run_state (load_window E J ?ns ?n) w = (r0, w0)" by force
  show ?thesis
  proof (cases r0)
    case (Inl e')
    then show ?thesis using assms(2) r0 load_window_fails by (fastforce simp: Observer_Observe_def run_or_fail Let_def)
  next
    case (Inr b)
    then obtain s0 where s0: "w0 = w\<lparr>calls := calls w @ s0\<rparr>" using load_window_run r0 by blast
    let ?now = "clock E (calls w0)" and ?w1 = "w0\<lparr>calls := calls w0 @ [Clock (clock E (calls w0))]\<rparr>"
    obtain obs ch where o: "Observe Q ?now (Quota_UID quota) (Status_Used quota) wd b = (obs, ch)" by force
    have t: "ch \<or> heartbeatElapsed obs ?now"
      by (rule ccontr) (use assms(2) r0 Inr o in \<open>simp add: Observer_Observe_def run_or_fail Let_def store_window_def\<close>)
    show ?thesis
    proof (cases "EncodeWindow (Marshal J) (obs\<lparr>LastWriteAt := format_rfc3339 ?now\<rparr>)")
      case None
      with assms(2) r0 Inr o t show ?thesis
        using s0 by (auto simp: Observer_Observe_def run_or_fail Let_def dest!: alias_window_stamps split: prod.splits)
    next
      case (Some enc)
      obtain r2 w2 where r2: "run_state (MutateState E R ?ns ?n (\<lambda>s. return (s\<lparr>State_Window := enc\<rparr>))) ?w1 = (r2, w2)" by force
      then have c: "cached w2 = cached w" using persist_run [OF assms(1) r2] s0 by simp
      from r2 assms(2) r0 Inr o t Some obtain e2 where "r2 = Inl e2"
        by (cases r2) (simp_all add: Observer_Observe_def run_or_fail Let_def store_window_def)
      with r2 assms(2) r0 Inr o t Some c show ?thesis
        by (auto simp: Observer_Observe_def run_or_fail Let_def dest!: alias_window_stamps split: prod.splits)
    qed
  qed
qed

section \<open>Examples\<close>

definition sample_quota :: "nano ResourceQuota" where
  "sample_quota = \<lparr>Quota_Namespace = ''team'', Quota_Name = ''compute'', Quota_UID = ''u'', Spec_Hard = [], Status_Hard = [], Status_Used = []\<rparr>"

definition sample_codec :: codec where
  "sample_codec = \<lparr>Marshal = \<lambda>_. Some ''{}'', Unmarshal = \<lambda>_. None\<rparr>"

lemma Observe_LastWriteAt: "LastWriteAt (fst (Observe Q now uid us wd emptyWindow)) = ''''"
  by (simp add: Observe_def claimWindow_def prune_def emptyWindow_def Let_def split: prod.split option.split)

lemma sample_heartbeat: "Observe Q now uid us wd emptyWindow = (obs, ch) \<Longrightarrow> heartbeatElapsed obs t"
  using Observe_LastWriteAt [of Q now uid us wd] by (simp add: heartbeatElapsed_def)

definition writable :: "nano client" where
  "writable = offline\<lparr>lease_of := \<lambda>_ _ _. Inr (newLease ''team'' ''compute''), lease_updated := \<lambda>_ _. Inr ()\<rparr>"


theorem Observer_failure_keeps_clock_witness:
  "\<exists>e w'. run_state (Observer_Observe nano_api offline (attempts 4) sample_codec sample_quota 14)
        \<lparr>calls = [], cached = [(''team/compute'', emptyWindow)]\<rparr> = (Inl e, w')
     \<and> map_option window_stamps (map_of (cached w') ''team/compute'') = Some ('''', '''', '''')"
proof -
  let ?w = "\<lparr>calls = [], cached = [(''team/compute'', emptyWindow)]\<rparr> :: nano controller"
  let ?m = "Observer_Observe nano_api offline (attempts 4) sample_codec sample_quota 14"
  obtain obs ch where o: "Observe nano_api zero_time ''u'' [] 14 emptyWindow = (obs, ch)" by force
  note hb = sample_heartbeat [OF o]
  have "\<exists>e w'. run_state ?m ?w = (Inl e, w')"
    using o hb
    by (simp add: Observer_Observe_def load_window_def MutateState_def ensureLeaseExists_def run_or_fail offline_def Let_def
        sample_quota_def sample_codec_def EncodeWindow_def cacheKey_def alias_window_def)
  then obtain e w' where r: "run_state ?m ?w = (Inl e, w')" by blast
  from Observer_failure_keeps_clock [OF attempts_retry r, of "''team/compute''"]
  have "map_option window_stamps (map_of (cached w') ''team/compute'') = Some ('''', '''', '''')"
    by (simp add: window_stamps_def emptyWindow_def)
  with r show ?thesis by blast
qed

end
