(* ===== verification/Events.thy ===== *)
theory Events
  imports Cluster
begin

text \<open>
  Event analysis: \<^verbatim>\<open>internal/controller/resourcequota_utils.go\<close> and the functions
  \<^verbatim>\<open>collectDeficits\<close> and \<^verbatim>\<open>resolveQuotaKey\<close> of \<^verbatim>\<open>resourcequota_controller.go\<close>. Events of
  workloads that could not create their pods become, per quota key, a demand in milli-units.
\<close>

section \<open>Routing events to quotas\<close>

definition reasonFailedCreate :: string where "reasonFailedCreate = ''FailedCreate''"

abbreviation EventTypeWarning :: string where "EventTypeWarning \<equiv> ''Warning''"
abbreviation EventTypeNormal :: string where "EventTypeNormal \<equiv> ''Normal''"
abbreviation exceeded :: string where "exceeded \<equiv> ''exceeded quota''"

definition quota_in_message :: "string \<Rightarrow> string" where
  "quota_in_message message = (let idx = Index message ''exceeded quota: '' in
     if idx \<noteq> - 1 then
       let rest = drop (nat idx + length ''exceeded quota: '') message; commaIdx = Index rest '','' in
       if commaIdx \<noteq> - 1 then take (nat commaIdx) rest else rest
     else '''')"

text \<open>The argument is \<^term>\<open>None\<close> for an object that is not an event.\<close>

definition mapEventToQuota :: "Event option \<Rightarrow> (string \<times> string) list" where
  "mapEventToQuota obj = (case obj of None \<Rightarrow> []
   | Some evt \<Rightarrow>
       if Event_Type evt \<noteq> EventTypeWarning \<or> Event_Reason evt \<noteq> reasonFailedCreate then []
       else if \<not> Contains (Event_Message evt) exceeded then []
       else let parts = Split (Event_Message evt) '': '' in
         if length parts < 2 then []
         else let quotaName = (if list_ex (\<lambda>part. Contains part exceeded) parts
                               then quota_in_message (Event_Message evt) else '''') in
           if quotaName = '''' then [] else [(Event_Namespace evt, quotaName)])"

section \<open>The demand of one workload\<close>

definition wrap32 :: "int \<Rightarrow> int" where "wrap32 x = signed_take_bit 31 x"

definition applySmartCalculation ::
  "'q resource_api \<Rightarrow> 'q PodSpec \<Rightarrow> 'q PersistentVolumeClaim list \<Rightarrow> int \<Rightarrow> int smap \<Rightarrow> int smap" where
  "applySmartCalculation Q podSpec pvcTemplates missing deficits =
     (if missing \<le> 0 then deficits
      else let reqs = PodRequests Q podSpec;
               reqs = (if pvcTemplates \<noteq> [] then
                 fold (\<lambda>(k, v) reqs. AList.update k (wrap64 (getd reqs k + v)) reqs) (PVCRequests Q pvcTemplates) reqs
               else reqs)
           in map (\<lambda>(res, val). (res, wrap64 (val * missing))) reqs)"

definition calculateWorkloadDeficit ::
  "'q resource_api \<Rightarrow> 'q client \<Rightarrow> Event \<Rightarrow> resource_name \<Rightarrow> 'q \<Rightarrow> ('q, 'm, string \<times> int smap) prog" where
  "calculateWorkloadDeficit Q E evt failedRes failedQty = (let
      ref = InvolvedObject evt; ns = Ref_Namespace ref; name = Ref_Name ref;
      key = WorkloadKey name; deficits = [(failedRes, MilliValue Q failedQty)] in
    if Ref_Kind ref = ''StatefulSet'' then do {
      r \<leftarrow> ask (\<lambda>t. statefulset_of E t ns name) (GetStatefulSet ns name);
      return (key, case r of Inl _ \<Rightarrow> deficits
        | Inr sts \<Rightarrow> (case Sts_Spec_Replicas sts of None \<Rightarrow> deficits
          | Some desired \<Rightarrow> let current = Sts_Status_Replicas sts in
              if desired > current then
                applySmartCalculation Q (Sts_Template sts) (VolumeClaimTemplates sts) (wrap32 (desired - current)) deficits
              else deficits)) }
    else if Ref_Kind ref = ''DaemonSet'' then do {
      r \<leftarrow> ask (\<lambda>t. daemonset_of E t ns name) (GetDaemonSet ns name);
      return (key, case r of Inl _ \<Rightarrow> deficits
        | Inr ds \<Rightarrow> let desired = DesiredNumberScheduled ds; current = CurrentNumberScheduled ds in
            if desired > current then
              applySmartCalculation Q (Ds_Template ds) [] (wrap32 (desired - current)) deficits
            else deficits) }
    else if Ref_Kind ref = ''ReplicaSet'' then do {
      r \<leftarrow> ask (\<lambda>t. replicaset_of E t ns name) (GetReplicaSet ns name);
      return (key, case r of Inl _ \<Rightarrow> deficits
        | Inr rs \<Rightarrow> (case Rs_Spec_Replicas rs of None \<Rightarrow> deficits
          | Some desired \<Rightarrow> let current = Rs_Status_Replicas rs in
              if desired > current then
                applySmartCalculation Q (Rs_Template rs) [] (wrap32 (desired - current)) deficits
              else deficits)) }
    else if Ref_Kind ref = ''Pod'' then do {
      _ \<leftarrow> ask (\<lambda>t. pod_of E t ns name) (GetPod ns name);
      return (key, deficits) }
    else return (key, deficits))"

definition isObjectAlive :: "'q client \<Rightarrow> ObjectReference \<Rightarrow> string \<Rightarrow> ('q, 'm, bool) prog" where
  "isObjectAlive E ref namespace = (case parse_group_version E (Ref_APIVersion ref) of
     Inl _ \<Rightarrow> return False
   | Inr _ \<Rightarrow> do {
       r \<leftarrow> ask (\<lambda>t. object_of E t ref namespace) (GetObject ref namespace);
       return (case r of Inl _ \<Rightarrow> False | Inr _ \<Rightarrow> True) })"

section \<open>\<^verbatim>\<open>collectDeficits\<close>\<close>

definition quota_candidates :: "resource_name smap" where
  "quota_candidates = [(''cpu'', ''requests.cpu''), (''memory'', ''requests.memory''), (''storage'', ''requests.storage''),
     (''requests.cpu'', ''cpu''), (''requests.memory'', ''memory''), (''requests.storage'', ''storage'')]"

definition resolveQuotaKey :: "'q ResourceQuota \<Rightarrow> resource_name \<Rightarrow> resource_name option" where
  "resolveQuotaKey quota res =
     (if map_of (Status_Hard quota) res \<noteq> None then Some res
      else case map_of quota_candidates res of None \<Rightarrow> None
        | Some alt \<Rightarrow> if map_of (Status_Hard quota) alt \<noteq> None then Some alt else None)"

text \<open>The filters on one event, in the order of the code.\<close>

definition event_relevant :: "'q ResourceQuota \<Rightarrow> time \<Rightarrow> time \<Rightarrow> Event \<Rightarrow> bool" where
  "event_relevant quota cutoff since evt =
     (if LastTimestamp evt < cutoff then False
      else if \<not> IsZero since \<and> LastTimestamp evt < since then False
      else if Event_Type evt \<noteq> EventTypeWarning \<or> Event_Reason evt \<noteq> reasonFailedCreate then False
      else if \<not> Contains (Event_Message evt) exceeded \<or> \<not> Contains (Event_Message evt) (Quota_Name quota) then False
      else True)"

type_synonym per_workload = "int smap smap"

definition inner :: "per_workload \<Rightarrow> resource_name \<Rightarrow> int smap" where
  "inner m r = (case map_of m r of None \<Rightarrow> [] | Some ws \<Rightarrow> ws)"

definition merge_deficit :: "string \<Rightarrow> resource_name \<times> int \<Rightarrow> per_workload \<Rightarrow> per_workload" where
  "merge_deficit key rv perWorkload = (case rv of (rName, v) \<Rightarrow>
     let m = (if map_of perWorkload rName = None then AList.update rName [] perWorkload else perWorkload);
         ws = inner m rName
     in if v > getd ws key then AList.update rName (AList.update key v ws) m else m)"

definition merge_workload :: "string \<times> int smap \<Rightarrow> per_workload \<Rightarrow> per_workload" where
  "merge_workload kd perWorkload = (case kd of (key, workloadDeficits) \<Rightarrow>
     fold (merge_deficit key) workloadDeficits perWorkload)"

definition workload_total :: "int smap \<Rightarrow> int" where
  "workload_total workloads = fold (\<lambda>(_, v) total. wrap64 (total + v)) workloads 0"

definition add_total :: "'q ResourceQuota \<Rightarrow> resource_name \<times> int smap \<Rightarrow> int smap \<Rightarrow> int smap" where
  "add_total quota rw deficits = (case rw of (resName, workloads) \<Rightarrow>
     case resolveQuotaKey quota resName of None \<Rightarrow> deficits
     | Some quotaKey \<Rightarrow> AList.update quotaKey (wrap64 (getd deficits quotaKey + workload_total workloads)) deficits)"

definition total_deficits :: "'q ResourceQuota \<Rightarrow> per_workload \<Rightarrow> int smap" where
  "total_deficits quota perWorkload = fold (add_total quota) perWorkload []"

definition collect_event ::
  "'q resource_api \<Rightarrow> 'q client \<Rightarrow> 'q ResourceQuota \<Rightarrow> time \<Rightarrow> time \<Rightarrow> Event \<Rightarrow> per_workload \<Rightarrow> ('q, 'm, per_workload) prog" where
  "collect_event Q E quota cutoff since evt perWorkload =
     (if \<not> event_relevant quota cutoff since evt then return perWorkload
      else case ParseEventMessage Q (Event_Message evt) of
        None \<Rightarrow> return perWorkload
      | Some (resName, reqQty) \<Rightarrow> do {
          alive \<leftarrow> isObjectAlive E (InvolvedObject evt) (Quota_Namespace quota);
          if \<not> alive then return perWorkload
          else do {
            kd \<leftarrow> calculateWorkloadDeficit Q E evt resName reqQty;
            return (merge_workload kd perWorkload) } })"

definition collectDeficits ::
  "'q resource_api \<Rightarrow> 'q client \<Rightarrow> 'q ResourceQuota \<Rightarrow> time \<Rightarrow> ('q, 'm, int smap result) prog" where
  "collectDeficits Q E quota since =
     or_fail (ask (\<lambda>t. events_of E t (Quota_Namespace quota)) (ListEvents (Quota_Namespace quota))) (\<lambda>items. do {
       now \<leftarrow> time_Now E;
       perWorkload \<leftarrow> foldM (collect_event Q E quota (now - hour) since) items [];
       return (Inr (total_deficits quota perWorkload)) })"

end
