(* ===== verification/Events_Correct.thy ===== *)
theory Events_Correct
  imports Events
begin

text \<open>
  Event analysis: retries of a workload do not accumulate, workloads add up, only current events
  of live objects count, and an event wakes the quota it names.
\<close>

section \<open>Maximum per workload, sum over workloads\<close>

text \<open>The contributions of a list of workload deficits: resource, workload, value.\<close>

definition contributions :: "(string \<times> int smap) list \<Rightarrow> (resource_name \<times> string \<times> int) list" where
  "contributions cs = concat (map (\<lambda>(w, ds). map (\<lambda>(r, v). (r, w, v)) ds) cs)"

definition merge_one :: "resource_name \<times> string \<times> int \<Rightarrow> per_workload \<Rightarrow> per_workload" where
  "merge_one c = (case c of (r, w, v) \<Rightarrow> merge_deficit w (r, v))"

lemma contributions_Cons: "contributions ((w, ds) # cs) = map (\<lambda>(r, v). (r, w, v)) ds @ contributions cs"
  by (simp add: contributions_def)

lemma fold_merge_deficit: "fold (merge_deficit w) ds m = fold merge_one (map (\<lambda>(r, v). (r, w, v)) ds) m"
  by (induction ds arbitrary: m) (auto simp: merge_one_def)

lemma fold_merge_workload: "fold merge_workload cs m = fold merge_one (contributions cs) m"
proof (induction cs arbitrary: m)
  case (Cons c cs)
  obtain w ds where c: "c = (w, ds)" by (cases c)
  have "merge_workload c m = fold merge_one (map (\<lambda>(r, v). (r, w, v)) ds) m"
    by (simp add: merge_workload_def c fold_merge_deficit)
  then show ?case by (simp add: c Cons contributions_Cons)
qed (simp add: contributions_def)

definition peak_of :: "(resource_name \<times> string \<times> int) list \<Rightarrow> resource_name \<Rightarrow> string \<Rightarrow> int" where
  "peak_of cs r w = Max (insert 0 {v. (r, w, v) \<in> set cs})"

lemma finite_peak: "finite {v. (r, w, v) \<in> set cs}"
  by (rule finite_subset [of _ "(\<lambda>(r, w, v). v) ` set cs"]) force+

lemma getd_Nil [simp]: "getd [] k = 0"
  by (simp add: getd_def)

lemma inner_update [simp]: "inner (AList.update r ws m) r' = (if r' = r then ws else inner m r')"
  by (simp add: inner_def)

lemma inner_none [simp]: "map_of m r = None \<Longrightarrow> inner m r = []"
  by (simp add: inner_def)

lemma getd_merge_one:
  "getd (inner (merge_one (r, w, v) m) r') w' = (if r' = r \<and> w' = w then max (getd (inner m r) w) v else getd (inner m r') w')"
  by (auto simp: merge_one_def merge_deficit_def Let_def getd_def)

lemma getd_fold_merge: "getd (inner (fold merge_one cs m) r) w = fold (\<lambda>c p. if fst c = r \<and> fst (snd c) = w then max p (snd (snd c)) else p) cs (getd (inner m r) w)"
proof (induction cs arbitrary: m)
  case (Cons c cs)
  obtain r' w' v where "c = (r', w', v)" by (cases c)
  then show ?case using Cons [of "merge_one c m"] by (simp add: getd_merge_one)
qed simp

lemma fold_max_peak:
  "fold (\<lambda>c p. if fst c = r \<and> fst (snd c) = w then max p (snd (snd c)) else p) cs p = Max (insert p {v. (r, w, v) \<in> set cs})"
proof (induction cs arbitrary: p)
  case (Cons c cs)
  obtain r' w' v where c: "c = (r', w', v)" by (cases c)
  show ?case
  proof (cases "r' = r \<and> w' = w")
    case True
    then have "{x. (r, w, x) \<in> set (c # cs)} = insert v {x. (r, w, x) \<in> set cs}" using c by auto
    moreover have "Max (insert (max p v) S) = Max (insert p (insert v S))" if "finite S" for S
      using that by (cases "S = {}") (simp_all add: max.assoc)
    ultimately show ?thesis using Cons [of "max p v"] True c finite_peak [of r w cs] by simp
  next
    case False
    then have "{x. (r, w, x) \<in> set (c # cs)} = {x. (r, w, x) \<in> set cs}" using c by auto
    then show ?thesis using Cons False c by auto
  qed
qed simp

lemma getd_merged: "getd (inner (fold merge_one cs []) r) w = peak_of cs r w"
  unfolding getd_fold_merge fold_max_peak by (simp add: peak_of_def inner_def)

text \<open>Keys are distinct, and every entry comes from a contribution.\<close>

definition pw_ok :: "(resource_name \<times> string \<times> int) list \<Rightarrow> per_workload \<Rightarrow> bool" where
  "pw_ok cs m \<longleftrightarrow> distinct (map fst m) \<and> fst ` set m \<subseteq> fst ` set cs
     \<and> (\<forall>r. distinct (map fst (inner m r)) \<and> fst ` set (inner m r) \<subseteq> (fst \<circ> snd) ` set cs)"

lemma fst_set_update: "fst ` set (AList.update a b xs) = insert a (fst ` set xs)"
  by (simp add: dom_update)

lemma pw_ok_update:
  assumes "pw_ok cs m" and "r \<in> fst ` set cs" and "distinct (map fst ws)" and "fst ` set ws \<subseteq> (fst \<circ> snd) ` set cs"
  shows "pw_ok cs (AList.update r ws m)"
proof -
  have "distinct (map fst (AList.update r ws m))" using assms(1) unfolding pw_ok_def by (intro distinct_update) blast
  moreover have "fst ` set (AList.update r ws m) \<subseteq> fst ` set cs"
    using assms(1,2) unfolding pw_ok_def fst_set_update by blast
  ultimately show ?thesis using assms(1,3,4) unfolding pw_ok_def inner_update by simp
qed

lemma pw_ok_merge:
  assumes "pw_ok cs m"
  shows "pw_ok (cs @ [c]) (merge_one c m)"
proof -
  obtain r w v where c: "c = (r, w, v)" by (cases c)
  let ?cs = "cs @ [c]"
  let ?m = "if map_of m r = None then AList.update r [] m else m"
  have "pw_ok ?cs m" using assms unfolding pw_ok_def set_append image_Un by blast
  then have m: "pw_ok ?cs ?m" by (auto intro!: pw_ok_update simp: c)
  then have i: "distinct (map fst (inner ?m r))" "fst ` set (inner ?m r) \<subseteq> (fst \<circ> snd) ` set ?cs"
    unfolding pw_ok_def by blast+
  have "pw_ok ?cs (AList.update r (AList.update w v (inner ?m r)) ?m)"
  proof (rule pw_ok_update [OF m])
    show "distinct (map fst (AList.update w v (inner ?m r)))" by (rule distinct_update [OF i(1)])
    show "fst ` set (AList.update w v (inner ?m r)) \<subseteq> (fst \<circ> snd) ` set ?cs"
      unfolding fst_set_update using i(2) by (simp add: c)
  qed (simp add: c)
  with m show ?thesis unfolding c merge_one_def merge_deficit_def Let_def by simp
qed

lemma pw_ok_merged: "pw_ok cs (fold merge_one cs [])"
proof (induction cs rule: rev_induct)
  case (snoc c cs)
  then show ?case using pw_ok_merge by simp
qed (simp add: pw_ok_def inner_def)

lemma wrap64_workload_total: "wrap64 (workload_total ws) = wrap64 (\<Sum>(_, v) \<leftarrow> ws. v)"
proof -
  have "wrap64 (fold (\<lambda>(_, v) t. wrap64 (t + v)) ws a) = wrap64 (a + (\<Sum>(_, v) \<leftarrow> ws. v))" for a
  proof (induction ws arbitrary: a)
    case (Cons x ws)
    then show ?case by (cases x) (simp add: wrap64_add add.assoc)
  qed simp
  from this [of 0] show ?thesis by (simp add: workload_total_def)
qed

lemma sum_getd:
  assumes "distinct (map fst ws)" and "finite W" and "fst ` set ws \<subseteq> W"
  shows "(\<Sum>(_, v) \<leftarrow> ws. v) = (\<Sum>w \<in> W. getd ws w)"
proof -
  have "(\<Sum>(_, v) \<leftarrow> ws. v) = (\<Sum>x \<leftarrow> ws. getd ws (fst x))"
    using assms(1) by (intro arg_cong [of _ _ sum_list] map_cong) (auto simp: getd_def)
  also have "\<dots> = (\<Sum>w \<in> fst ` set ws. getd ws w)"
    using sum_list_distinct_conv_sum_set [OF assms(1), of "getd ws"] by (simp add: comp_def)
  also have "\<dots> = (\<Sum>w \<in> W. getd ws w)"
    using assms(2,3) by (intro sum.mono_neutral_left) (auto simp: getd_def split: option.split dest!: map_of_SomeD intro: rev_image_eqI)
  finally show ?thesis .
qed

lemma wrap64_cong: "wrap64 a = wrap64 b \<Longrightarrow> wrap64 (x + a + y) = wrap64 (x + b + y)"
proof -
  assume h: "wrap64 a = wrap64 b"
  have e: "wrap64 (x + c + y) = wrap64 (wrap64 c + (x + y))" for c
    unfolding wrap64_add by (rule arg_cong [of _ _ wrap64]) simp
  show ?thesis unfolding e h ..
qed

text \<open>What resolves to one quota key is added up.\<close>

definition entry_total :: "'q ResourceQuota \<Rightarrow> resource_name \<Rightarrow> resource_name \<times> int smap \<Rightarrow> int" where
  "entry_total quota k e = (if resolveQuotaKey quota (fst e) = Some k then \<Sum>(_, v) \<leftarrow> snd e. v else 0)"

lemma wrap64_add_total: "wrap64 (getd (add_total quota e d) k + y) = wrap64 (getd d k + entry_total quota k e + y)"
proof -
  obtain r ws where e: "e = (r, ws)" by (cases e)
  show ?thesis
  proof (cases "resolveQuotaKey quota r = Some k")
    case True
    then have "wrap64 (getd (add_total quota e d) k + y) = wrap64 (getd d k + workload_total ws + y)"
      by (simp add: add_total_def e wrap64_add)
    also have "\<dots> = wrap64 (getd d k + (\<Sum>(_, v) \<leftarrow> ws. v) + y)"
      by (rule wrap64_cong) (rule wrap64_workload_total)
    finally show ?thesis using True by (simp add: e entry_total_def)
  qed (simp add: e add_total_def entry_total_def split: option.split)
qed

lemma wrap64_total: "wrap64 (getd (fold (add_total quota) m d) k) = wrap64 (getd d k + sum_list (map (entry_total quota k) m))"
  by (induction m arbitrary: d) (simp_all add: wrap64_add_total add.assoc)

lemma in64_add_total: "\<forall>k. in64 (getd d k) \<Longrightarrow> \<forall>k. in64 (getd (add_total quota e d) k)"
  by (auto simp: add_total_def in64_wrap64 split: option.split prod.split)

lemma in64_total: "in64 (getd (total_deficits quota m) k)"
proof -
  have "\<forall>k. in64 (getd (fold (add_total quota) m d) k)" if "\<forall>k. in64 (getd d k)" for d
    using that
  proof (induction m arbitrary: d)
    case (Cons e m)
    show ?case using Cons.IH [OF in64_add_total [OF Cons.prems]] by simp
  qed simp
  then show ?thesis unfolding total_deficits_def by (simp add: in64_iff)
qed

text \<open>
  (C22) The demand of a quota key is, over all resources that resolve to the key
  and all workloads, the sum of the largest value that an event of the workload reported for the
  resource: retries of one workload never accumulate, different workloads do. The arithmetic is
  that of \<^verbatim>\<open>int64\<close>.
\<close>

theorem deficit_max_per_workload:
  "getd (total_deficits quota (fold merge_workload cs [])) k =
     wrap64 (\<Sum>r \<in> {r \<in> fst ` set (contributions cs). resolveQuotaKey quota r = Some k}.
       \<Sum>w \<in> (fst \<circ> snd) ` set (contributions cs). peak_of (contributions cs) r w)"
proof -
  let ?c = "contributions cs" and ?m = "fold merge_one (contributions cs) []"
  let ?g = "\<lambda>r. if resolveQuotaKey quota r = Some k then \<Sum>w \<in> (fst \<circ> snd) ` set ?c. peak_of ?c r w else 0"
  have ok: "distinct (map fst ?m)" "fst ` set ?m \<subseteq> fst ` set ?c"
    "distinct (map fst (inner ?m r))" "fst ` set (inner ?m r) \<subseteq> (fst \<circ> snd) ` set ?c" for r
    using pw_ok_merged [of ?c] unfolding pw_ok_def by auto
  have inner: "(\<Sum>(_, v) \<leftarrow> inner ?m r. v) = (\<Sum>w \<in> (fst \<circ> snd) ` set ?c. peak_of ?c r w)" for r
    using sum_getd [OF ok(3) _ ok(4)] by (simp add: getd_merged)
  have entry: "entry_total quota k e = ?g (fst e)" if "e \<in> set ?m" for e
  proof -
    have "inner ?m (fst e) = snd e" using map_of_is_SomeI [OF ok(1), of "fst e" "snd e"] that by (simp add: inner_def)
    then show ?thesis using inner [of "fst e"] by (simp add: entry_total_def)
  qed
  have zero: "?g r = 0" if "r \<notin> fst ` set ?m" for r
  proof -
    have "inner ?m r = []" using that by (simp add: inner_def map_of_eq_None_iff [THEN iffD2])
    then show ?thesis using inner [of r] by simp
  qed
  have "sum_list (map (entry_total quota k) ?m) = sum_list (map ?g (map fst ?m))"
    using entry by (simp cong: map_cong)
  also have "\<dots> = (\<Sum>r \<in> fst ` set ?m. ?g r)"
    using sum_list_distinct_conv_sum_set [OF ok(1), of ?g] by simp
  also have "\<dots> = (\<Sum>r \<in> fst ` set ?c. ?g r)"
    using ok(2) zero by (intro sum.mono_neutral_left) auto
  also have "\<dots> = (\<Sum>r \<in> {r \<in> fst ` set ?c. resolveQuotaKey quota r = Some k}. \<Sum>w \<in> (fst \<circ> snd) ` set ?c. peak_of ?c r w)"
    by (rule sum.inter_filter [symmetric]) simp
  finally have s: "sum_list (map (entry_total quota k) ?m) = \<dots>" .
  have "getd (total_deficits quota ?m) k = wrap64 (sum_list (map (entry_total quota k) ?m))"
    using wrap64_total [of quota ?m "[]" k] wrap64_id [OF in64_total [of quota ?m k]]
    by (simp add: total_deficits_def)
  then show ?thesis unfolding fold_merge_workload s .
qed

section \<open>Which events count\<close>

definition counted ::
  "'q ResourceQuota \<Rightarrow> Event list \<Rightarrow> time \<Rightarrow> time \<Rightarrow> 'q call list \<Rightarrow> string \<times> int smap \<Rightarrow> bool" where
  "counted quota items now since s kd \<longleftrightarrow> (\<exists>evt \<in> set items.
     fst kd = WorkloadKey (Ref_Name (InvolvedObject evt)) \<and> event_relevant quota (now - hour) since evt
     \<and> GetObject (InvolvedObject evt) (Quota_Namespace quota) (Inr ()) \<in> set s)"

lemma counted_append: "counted quota items now since s kd \<Longrightarrow> counted quota items now since (s @ t) kd"
  by (auto simp: counted_def)

lemma ensures_isObjectAlive:
  "ensures (isObjectAlive E ref ns) (\<lambda>b s. list_all (\<lambda>e. \<not> writes e \<and> \<not> provider_call e) s
     \<and> (b \<longrightarrow> GetObject ref ns (Inr ()) \<in> set s))"
  unfolding isObjectAlive_def by (intro ensures_intro) (auto split: sum.split)

lemma ensures_calculateWorkloadDeficit:
  "ensures (calculateWorkloadDeficit Q E evt r v) (\<lambda>kd s. list_all (\<lambda>e. \<not> writes e \<and> \<not> provider_call e) s
     \<and> fst kd = WorkloadKey (Ref_Name (InvolvedObject evt)))"
  unfolding calculateWorkloadDeficit_def Let_def by (intro ensures_intro) auto

lemma ensures_collect_event:
  fixes E :: "'q client"
  assumes "evt \<in> set items"
  shows "ensures (collect_event Q E quota (now - hour) since evt m) (\<lambda>m' s.
     list_all (\<lambda>e. \<not> writes e \<and> \<not> provider_call e) s \<and> (m' = m \<or> (\<exists>kd. m' = merge_workload kd m \<and> counted quota items now since s kd)))"
  unfolding collect_event_def
proof (intro ensures_if ensures_option ensures_prod ensures_return)
  fix rv r q assume rel: "\<not> \<not> event_relevant quota (now - hour) since evt"
  show "ensures (isObjectAlive E (InvolvedObject evt) (Quota_Namespace quota) \<bind>
         (\<lambda>alive. if \<not> alive then return m
           else calculateWorkloadDeficit Q E evt r q \<bind> (\<lambda>kd. return (merge_workload kd m))))
      (\<lambda>m' s. list_all (\<lambda>e. \<not> writes e \<and> \<not> provider_call e) s \<and> (m' = m \<or> (\<exists>kd. m' = merge_workload kd m \<and> counted quota items now since s kd)))"
  proof (rule ensures_bind [OF ensures_isObjectAlive], rule ensures_if)
    fix alive and s :: "'q call list"
    assume h: "list_all (\<lambda>e. \<not> writes e \<and> \<not> provider_call e) s \<and> (alive \<longrightarrow> GetObject (InvolvedObject evt) (Quota_Namespace quota) (Inr ()) \<in> set s)"
    then show "ensures (return m) (\<lambda>m' s'. list_all (\<lambda>e. \<not> writes e \<and> \<not> provider_call e) (s @ s')
        \<and> (m' = m \<or> (\<exists>kd. m' = merge_workload kd m \<and> counted quota items now since (s @ s') kd)))"
      by (simp add: ensures_return)
    assume "\<not> \<not> alive"
    with h rel assms show "ensures (calculateWorkloadDeficit Q E evt r q \<bind> (\<lambda>kd. return (merge_workload kd m)))
        (\<lambda>m' s'. list_all (\<lambda>e. \<not> writes e \<and> \<not> provider_call e) (s @ s')
        \<and> (m' = m \<or> (\<exists>kd. m' = merge_workload kd m \<and> counted quota items now since (s @ s') kd)))"
      by (intro ensures_bind_return ensures_weaken [OF ensures_calculateWorkloadDeficit])
         (auto simp: counted_def, blast)
  qed
qed simp_all

definition collected :: "'q ResourceQuota \<Rightarrow> time \<Rightarrow> int smap result \<Rightarrow> 'q call list \<Rightarrow> bool" where
  "collected quota since r s \<longleftrightarrow> list_all (\<lambda>e. \<not> writes e \<and> \<not> provider_call e) s \<and>
     (case r of
        Inl e \<Rightarrow> s = [ListEvents (Quota_Namespace quota) (Inl e)]
      | Inr deficits \<Rightarrow> \<exists>items now cs t. s = ListEvents (Quota_Namespace quota) (Inr items) # Clock now # t
          \<and> deficits = total_deficits quota (fold merge_workload cs [])
          \<and> (\<forall>kd \<in> set cs. counted quota items now since s kd))"

lemma ensures_collectDeficits: "ensures (collectDeficits Q E quota since) (collected quota since)"
  unfolding collectDeficits_def
proof (rule ensures_ask_or_fail)
  fix items
  show "ensures (time_Now E \<bind> (\<lambda>now. foldM (collect_event Q E quota (now - hour) since) items []
            \<bind> (\<lambda>m. return (Inr (total_deficits quota m)))))
     (\<lambda>y s. collected quota since y (ListEvents (Quota_Namespace quota) (Inr items) # s))"
  proof (rule ensures_ask_bind)
    fix now
    let ?p = "[ListEvents (Quota_Namespace quota) (Inr items), Clock now] :: 'a call list"
    let ?I = "\<lambda>m s. list_all (\<lambda>e. \<not> writes e \<and> \<not> provider_call e) s \<and>
        (\<exists>cs. m = fold merge_workload cs [] \<and> (\<forall>kd \<in> set cs. counted quota items now since s kd))"
    have "ensures (foldM (collect_event Q E quota (now - hour) since) items []) (\<lambda>m s. ?I m (?p @ s))"
    proof (rule ensures_foldM)
      show "?I [] ?p" by (auto intro!: exI [of _ "[]"])
    next
      fix evt m and s :: "'a call list" assume evt: "evt \<in> set items" and I: "?I m s"
      then obtain cs where cs: "m = fold merge_workload cs []" "\<forall>kd \<in> set cs. counted quota items now since s kd" by blast
      show "ensures (collect_event Q E quota (now - hour) since evt m) (\<lambda>m' s'. ?I m' (s @ s'))"
      proof (rule ensures_weaken [OF ensures_collect_event [OF evt]], intro conjI)
        fix m' s'
        assume h: "list_all (\<lambda>e. \<not> writes e \<and> \<not> provider_call e) s'
           \<and> (m' = m \<or> (\<exists>kd. m' = merge_workload kd m \<and> counted quota items now since s' kd))"
        with I show "list_all (\<lambda>e. \<not> writes e \<and> \<not> provider_call e) (s @ s')" by simp
        have old: "\<forall>kd \<in> set cs. counted quota items now since (s @ s') kd" using cs(2) counted_append by blast
        from h consider "m' = m" | kd where "m' = merge_workload kd m" "counted quota items now since s' kd" by blast
        then show "\<exists>cs. m' = fold merge_workload cs [] \<and> (\<forall>kd \<in> set cs. counted quota items now since (s @ s') kd)"
        proof cases
          case 2
          then have "counted quota items now since (s @ s') kd" by (auto simp: counted_def)
          with 2 cs(1) old show ?thesis by (intro exI [of _ "cs @ [kd]"]) auto
        qed (use cs(1) old in blast)
      qed
    qed
    then show "ensures (foldM (collect_event Q E quota (now - hour) since) items []
            \<bind> (\<lambda>m. return (Inr (total_deficits quota m))))
       (\<lambda>y s. collected quota since y (ListEvents (Quota_Namespace quota) (Inr items) # Clock now # s))"
      by (intro ensures_bind_return) (erule ensures_weaken, auto simp: collected_def)
  qed
qed (simp add: collected_def)


text \<open>
  An event that names another quota of the namespace counts for this one when
  the name of this quota is contained in the message, for example as a prefix of the other name.
\<close>

theorem neighbour_event_counts:
  "let evt = \<lparr>Event_Namespace = ''team'', LastTimestamp = 0, Event_Type = ''Warning'', Event_Reason = ''FailedCreate'',
         Event_Message = ''exceeded quota: compute-gpu, requested: cpu=1'',
         InvolvedObject = \<lparr>Ref_APIVersion = ''apps/v1'', Ref_Kind = ''ReplicaSet'', Ref_Name = ''web'', Ref_Namespace = ''team''\<rparr>\<rparr>;
       quota = \<lparr>Quota_Namespace = ''team'', Quota_Name = ''compute'', Quota_UID = ''u'', Spec_Hard = [], Status_Hard = [], Status_Used = []\<rparr>
   in event_relevant quota (0 - hour) zero_time evt \<and> mapEventToQuota (Some evt) = [(''team'', ''compute-gpu'')]"
  by (simp add: event_relevant_def mapEventToQuota_def quota_in_message_def reasonFailedCreate_def go_eval
      IsZero_def time_units)

section \<open>Routing\<close>

text \<open>A text without a colon, not starting with a blank, is not cut by splitting at \<^verbatim>\<open>": "\<close>.\<close>

lemma Index_split: "0 \<le> Index s sep \<Longrightarrow> s = take (nat (Index s sep)) s @ sep @ drop (nat (Index s sep) + length sep) s"
proof (induction s)
  case (Cons c s)
  show ?case
  proof (cases "HasPrefix (c # s) sep")
    case True
    then have "Index (c # s) sep = 0" by simp
    moreover from True obtain r where "c # s = sep @ r" unfolding HasPrefix_iff ..
    ultimately show ?thesis by simp
  next
    case False
    then have i: "0 \<le> Index s sep" "Index (c # s) sep = Index s sep + 1"
      using Cons.prems by (auto simp: Let_def split: if_splits)
    then have "nat (Index (c # s) sep) = Suc (nat (Index s sep))" by simp
    with Cons.IH [OF i(1)] show ?thesis by simp
  qed
qed (auto split: if_splits)

lemma sublist_not_cut:
  assumes "sublist sub (a @ '': '' @ b)" and "CHR '':'' \<notin> set sub" and "sub \<noteq> []" and "hd sub \<noteq> CHR '' ''"
  shows "sublist sub a \<or> sublist sub b"
proof -
  obtain p q where e: "a @ '': '' @ b = p @ sub @ q" using assms(1) unfolding sublist_def by blast
  show ?thesis
  proof (cases "length p + length sub \<le> length a")
    case True
    then have "take (length p + length sub) (a @ '': '' @ b) = take (length p + length sub) a" by simp
    then have "p @ sub = take (length p + length sub) a" unfolding e by simp
    then show ?thesis by (metis append_take_drop_id append.assoc sublist_appendI)
  next
    case False
    have "length a < length p"
    proof (rule ccontr)
      assume "\<not> length a < length p"
      with False have "length a - length p < length sub" by linarith
      with \<open>\<not> length a < length p\<close> have "(p @ sub @ q) ! length a \<in> set sub" by (simp add: nth_append)
      then show False using assms(2) unfolding e [symmetric] by (simp add: nth_append)
    qed
    moreover have "length p \<noteq> Suc (length a)"
    proof
      assume l: "length p = Suc (length a)"
      have "(p @ sub @ q) ! length p = hd sub" using assms(3) by (cases sub) simp_all
      then show False using assms(4) unfolding e [symmetric] l by (simp add: nth_append)
    qed
    ultimately have l: "length a + 2 \<le> length p" by simp
    have "drop (length a + 2) (a @ '': '' @ b) = b" by simp
    then have "b = drop (length a + 2) p @ sub @ q" unfolding e using l by simp
    then show ?thesis by simp
  qed
qed

lemma Split_keeps_part:
  assumes "Contains s sub" and "CHR '':'' \<notin> set sub" and "sub \<noteq> []" and "hd sub \<noteq> CHR '' ''"
  shows "list_ex (\<lambda>part. Contains part sub) (Split s '': '')"
  using assms(1)
proof (induction "length s" arbitrary: s rule: less_induct)
  case less
  let ?i = "Index s '': ''"
  show ?case
  proof (cases "?i < 0")
    case True
    then show ?thesis using less.prems by (subst Split.simps) (simp add: Let_def)
  next
    case False
    let ?a = "take (nat ?i) s" and ?b = "drop (nat ?i + 2) s"
    have s: "s = ?a @ '': '' @ ?b" using Index_split [of s "'': ''"] False by simp
    have sp: "Split s '': '' = ?a # Split ?b '': ''" using False by (subst Split.simps) (simp add: Let_def)
    have "length ?b < length s" using arg_cong [OF s, of length] by simp
    moreover have "Contains ?a sub \<or> Contains ?b sub"
      using sublist_not_cut [OF _ assms(2-4)] less.prems s unfolding Contains_iff by metis
    ultimately show ?thesis using less.hyps [of ?b] unfolding sp by auto
  qed
qed

lemma Split_two: "Contains s '': '' \<Longrightarrow> 2 \<le> length (Split s '': '')"
proof -
  assume "Contains s '': ''"
  then have "0 \<le> Index s '': ''" by (induction s) (auto simp: Let_def)
  then have "Split s '': '' = take (nat (Index s '': '')) s # Split (drop (nat (Index s '': '') + 2) s) '': ''"
    by (subst Split.simps) (simp add: Let_def)
  moreover have "Split r '': '' \<noteq> []" for r by (subst Split.simps) (simp add: Let_def)
  ultimately show ?thesis by (cases "Split (drop (nat (Index s '': '') + 2) s) '': ''") simp_all
qed

text \<open>
  A warning about a failed creation whose message holds, for the first time,
  \<^verbatim>\<open>exceeded quota: \<close> followed by a name without comma wakes exactly the quota of that name in the
  namespace of the event.
\<close>

theorem mapEventToQuota_routes:
  assumes "Event_Type evt = ''Warning''" and "Event_Reason evt = ''FailedCreate''"
    and "Event_Message evt = before @ ''exceeded quota: '' @ name @ rest"
    and "Index (Event_Message evt) ''exceeded quota: '' = int (length before)"
    and "name \<noteq> ''''" and "CHR '','' \<notin> set name" and "rest = [] \<or> hd rest = CHR '',''"
  shows "mapEventToQuota (Some evt) = [(Event_Namespace evt, name)]"
proof -
  have c: "Contains (Event_Message evt) ''exceeded quota: ''" unfolding Contains_iff assms(3) by (rule sublist_appendI)
  have "sublist ''exceeded quota'' ''exceeded quota: ''" "sublist '': '' ''exceeded quota: ''"
    by (simp_all add: sublist_Cons_right prefix_def)
  with c have c2: "Contains (Event_Message evt) exceeded" "Contains (Event_Message evt) '': ''"
    unfolding Contains_iff using sublist_order.order.trans by blast+
  have parts: "list_ex (\<lambda>part. Contains part exceeded) (Split (Event_Message evt) '': '')"
    by (rule Split_keeps_part [OF c2(1)]) simp_all
  have q: "quota_in_message (Event_Message evt) = name"
  proof (cases rest)
    case Nil
    then show ?thesis using assms(4,6) by (simp add: quota_in_message_def assms(3) Index_char_None Let_def)
  next
    case (Cons x xs)
    then have "rest = CHR '','' # xs" using assms(7) by simp
    then show ?thesis using assms(4) Index_char [OF assms(6), of xs] by (simp add: quota_in_message_def assms(3) Let_def)
  qed
  show ?thesis
    using Split_two [OF c2(2)] parts q c2(1) assms(1,2,5)
    by (simp add: mapEventToQuota_def Let_def reasonFailedCreate_def)
qed

section \<open>Examples\<close>

definition sample_event :: Event where
  "sample_event = \<lparr>Event_Namespace = ''team'', LastTimestamp = 0, Event_Type = ''Warning'', Event_Reason = ''FailedCreate'',
     Event_Message = ''Error creating: exceeded quota: compute, requested: cpu=1'',
     InvolvedObject = \<lparr>Ref_APIVersion = ''apps/v1'', Ref_Kind = ''ReplicaSet'', Ref_Name = ''web'', Ref_Namespace = ''team''\<rparr>\<rparr>"

theorem mapEventToQuota_routes_witness: "mapEventToQuota (Some sample_event) = [(''team'', ''compute'')]"
  using mapEventToQuota_routes [of sample_event "''Error creating: ''" "''compute''" "'', requested: cpu=1''"]
  by (simp add: sample_event_def go_eval)

end
