(* ===== verification/Decide.thy ===== *)
theory Decide
  imports Window "HOL-Library.Multiset"
begin

text \<open>
  The decision: \<^verbatim>\<open>internal/sizing/decide.go\<close>. \<^verbatim>\<open>Decide\<close> computes a target for every quota key
  and folds the candidates into one direction, growth first, with the gates of a shrink.

  The order of the list \<open>Hard\<close> is the order in which one execution ranges over the map.
\<close>

section \<open>Data\<close>

datatype Direction = DirectionNone | DirectionGrow | DirectionShrink

fun Direction_String :: "Direction \<Rightarrow> string" where
  "Direction_String DirectionGrow = ''grow''"
| "Direction_String DirectionShrink = ''shrink''"
| "Direction_String DirectionNone = ''none''"

datatype Gate = GateEnabled | GateWindow | GateRecentGrow | GateCooldown

record 'q Input =
  Now :: time
  Hard :: "'q resource_list"
  Used :: "'q resource_list"
  Deficits :: "int smap"
  InWindow :: Window
  Policy_in :: "'q policy"
  LastGrow :: time
  LastShrink :: time

record 'q Decision =
  Direction_of :: Direction
  Targets :: "'q smap"
  ShrinkPreview :: "'q smap"
  RawTargets :: "'q smap"
  Reason :: string
  BlockedBy :: "Gate list"

definition noDecision :: "'q Decision" where
  "noDecision = \<lparr>Direction_of = DirectionNone, Targets = [], ShrinkPreview = [], RawTargets = [],
     Reason = '''', BlockedBy = []\<rparr>"

section \<open>The target of one key\<close>

definition describe :: "'q resource_api \<Rightarrow> resource_name \<Rightarrow> 'q \<Rightarrow> 'q \<Rightarrow> string \<Rightarrow> string" where
  "describe Q res from to driver = ''- `'' @ res @ ''`: '' @ QString Q from @ '' -> '' @ QString Q to
     @ '' (driven by '' @ driver @ '')''"

text \<open>\<^verbatim>\<open>int64(float64(m) * (1 + headroom))\<close>\<close>

definition scaled :: "'q resource_api \<Rightarrow> int \<Rightarrow> float64 \<Rightarrow> int" where
  "scaled Q m headroom = to_int64 Q (f_mul (f_of_int m) (f_add f_one headroom))"

definition targetFor :: "'q resource_api \<Rightarrow> 'q Input \<Rightarrow> resource_name \<Rightarrow> int \<Rightarrow> float64 \<Rightarrow> int \<times> string" where
  "targetFor Q inp res usedMilli headroom = (let
      (peakMilli, driver) = (usedMilli, ''current usage'');
      (peakMilli, driver) = (case Peak Q (InWindow inp) res (Now inp) (WindowDays (Policy_in inp)) of
          Some p \<Rightarrow> if p > peakMilli then (p, itoa (WindowDays (Policy_in inp)) @ ''-day peak'') else (peakMilli, driver)
        | None \<Rightarrow> (peakMilli, driver));
      (peakMilli, driver) = (case map_of (Deficits inp) res of
          Some deficit \<Rightarrow> if deficit > 0
            then let need = wrap64 (usedMilli + deficit) in
              if need > peakMilli then (need, ''pending shortage'') else (peakMilli, driver)
            else (peakMilli, driver)
        | None \<Rightarrow> (peakMilli, driver));
      target = scaled Q peakMilli headroom;
      lowerBound = scaled Q usedMilli headroom;
      (target, driver) = (if lowerBound > target then (lowerBound, ''current usage floor'') else (target, driver))
    in (case MinFor (Policy_in inp) res of
          Some lowest \<Rightarrow> if MilliValue Q lowest > target then (MilliValue Q lowest, ''configured minimum'') else (target, driver)
        | None \<Rightarrow> (target, driver)))"

section \<open>The gates of a shrink\<close>

definition windowSpan :: "'q policy \<Rightarrow> duration" where
  "windowSpan p = wrap64 (wrap64 (WindowDays p * 24) * hour)"

definition shrinkGates :: "'q resource_api \<Rightarrow> 'q Input \<Rightarrow> 'q smap \<Rightarrow> Gate list" where
  "shrinkGates Q inp targets =
     (if \<not> ShrinkEnabled (Policy_in inp) then [GateEnabled] else [])
     @ (if list_ex (\<lambda>rt. \<not> IsComplete Q (InWindow inp) (fst rt) (Now inp) (WindowDays (Policy_in inp))) targets
        then [GateWindow] else [])
     @ (if \<not> IsZero (LastGrow inp) \<and> Sub (Now inp) (LastGrow inp) < windowSpan (Policy_in inp)
        then [GateRecentGrow] else [])
     @ (if \<not> IsZero (LastShrink inp) \<and> Sub (Now inp) (LastShrink inp) < ShrinkCooldown (Policy_in inp)
        then [GateCooldown] else [])"

section \<open>Decide\<close>

record 'q candidates =
  growTargets :: "'q smap"
  shrinkTargets :: "'q smap"
  rawTargets :: "'q smap"
  growReasons :: "string list"
  shrinkReasons :: "string list"

text \<open>The body of the loop over the hard limits.\<close>

definition decide_key :: "'q resource_api \<Rightarrow> 'q Input \<Rightarrow> resource_name \<times> 'q \<Rightarrow> 'q candidates \<Rightarrow> 'q candidates" where
  "decide_key Q inp rh c = (case rh of (res, hard) \<Rightarrow>
     if overflowsMilliValue Q hard then c
     else let hardMilli = MilliValue Q hard in
       if hardMilli = 0 then c
       else (case map_of (Used inp) res of None \<Rightarrow> c
       | Some used \<Rightarrow>
           if overflowsMilliValue Q used then c
           else let
             usedMilli = MilliValue Q used;
             headroom = HeadroomFor (Policy_in inp) res;
             (targetMilli, driver) = targetFor Q inp res usedMilli headroom;
             c = c\<lparr>rawTargets := AList.update res (Quantize Q res targetMilli (Format Q hard)) (rawTargets c)\<rparr>
           in if f_less (f_mul (f_of_int hardMilli) (f_add f_one (Tolerance (Policy_in inp)))) (f_of_int targetMilli) then
               let qty = Quantize Q res targetMilli (Format Q hard) in
               if Cmp Q qty hard \<le> 0 then c
               else c\<lparr>growTargets := AList.update res qty (growTargets c),
                      growReasons := growReasons c @ [describe Q res hard qty driver]\<rparr>
             else if f_less (f_of_int targetMilli) (f_mul (f_of_int hardMilli) (f_sub f_one (Tolerance (Policy_in inp)))) then
               let capped = to_int64 Q (f_mul (f_of_int hardMilli) (f_sub f_one (MaxShrinkStep (Policy_in inp))));
                   (targetMilli, driver) = (if capped > targetMilli then (capped, ''step cap'') else (targetMilli, driver));
                   qty = Quantize Q res targetMilli (Format Q hard)
               in if Cmp Q qty hard \<ge> 0 then c
                  else c\<lparr>shrinkTargets := AList.update res qty (shrinkTargets c),
                         shrinkReasons := shrinkReasons c @ [describe Q res hard qty driver]\<rparr>
             else c))"

definition candidatesOf :: "'q resource_api \<Rightarrow> 'q Input \<Rightarrow> 'q candidates" where
  "candidatesOf Q inp = fold (decide_key Q inp) (Hard inp)
     \<lparr>growTargets = [], shrinkTargets = [], rawTargets = [], growReasons = [], shrinkReasons = []\<rparr>"

definition Decide :: "'q resource_api \<Rightarrow> 'q Input \<Rightarrow> 'q Decision" where
  "Decide Q inp =
     (if \<not> Enabled (Policy_in inp) then noDecision
      else let c = candidatesOf Q inp in
        if growTargets c \<noteq> [] then
          noDecision\<lparr>Direction_of := DirectionGrow, Targets := growTargets c,
            Reason := Join (sort (growReasons c)) [CHR 0x0A], RawTargets := rawTargets c\<rparr>
        else if shrinkTargets c = [] then noDecision\<lparr>RawTargets := rawTargets c\<rparr>
        else let blocked = shrinkGates Q inp (shrinkTargets c) in
          if blocked \<noteq> [] then
            noDecision\<lparr>ShrinkPreview := shrinkTargets c, BlockedBy := blocked, RawTargets := rawTargets c\<rparr>
          else noDecision\<lparr>Direction_of := DirectionShrink, Targets := shrinkTargets c, ShrinkPreview := shrinkTargets c,
            Reason := Join (sort (shrinkReasons c)) [CHR 0x0A], RawTargets := rawTargets c\<rparr>)"

section \<open>What one key contributes\<close>

text \<open>The computed target of a measurable key.\<close>

definition key_target :: "'q resource_api \<Rightarrow> 'q Input \<Rightarrow> resource_name \<Rightarrow> 'q \<Rightarrow> (int \<times> string) option" where
  "key_target Q inp res hard =
     (if overflowsMilliValue Q hard \<or> MilliValue Q hard = 0 then None
      else case map_of (Used inp) res of None \<Rightarrow> None
      | Some used \<Rightarrow> if overflowsMilliValue Q used then None
          else Some (targetFor Q inp res (MilliValue Q used) (HeadroomFor (Policy_in inp) res)))"

definition above_band :: "'q Input \<Rightarrow> int \<Rightarrow> int \<Rightarrow> bool" where
  "above_band inp hardMilli t \<longleftrightarrow>
     f_less (f_mul (f_of_int hardMilli) (f_add f_one (Tolerance (Policy_in inp)))) (f_of_int t)"

definition below_band :: "'q Input \<Rightarrow> int \<Rightarrow> int \<Rightarrow> bool" where
  "below_band inp hardMilli t \<longleftrightarrow>
     f_less (f_of_int t) (f_mul (f_of_int hardMilli) (f_sub f_one (Tolerance (Policy_in inp))))"

definition capped_milli :: "'q resource_api \<Rightarrow> 'q Input \<Rightarrow> int \<Rightarrow> int" where
  "capped_milli Q inp hardMilli = to_int64 Q (f_mul (f_of_int hardMilli) (f_sub f_one (MaxShrinkStep (Policy_in inp))))"

definition key_raw :: "'q resource_api \<Rightarrow> 'q Input \<Rightarrow> resource_name \<Rightarrow> 'q \<Rightarrow> 'q option" where
  "key_raw Q inp res hard = map_option (\<lambda>(t, d). Quantize Q res t (Format Q hard)) (key_target Q inp res hard)"

definition key_grow :: "'q resource_api \<Rightarrow> 'q Input \<Rightarrow> resource_name \<Rightarrow> 'q \<Rightarrow> ('q \<times> string) option" where
  "key_grow Q inp res hard = (case key_target Q inp res hard of None \<Rightarrow> None
   | Some (t, d) \<Rightarrow> let q = Quantize Q res t (Format Q hard) in
       if above_band inp (MilliValue Q hard) t \<and> Cmp Q q hard > 0 then Some (q, d) else None)"

definition key_shrink :: "'q resource_api \<Rightarrow> 'q Input \<Rightarrow> resource_name \<Rightarrow> 'q \<Rightarrow> ('q \<times> string) option" where
  "key_shrink Q inp res hard = (case key_target Q inp res hard of None \<Rightarrow> None
   | Some (t, d) \<Rightarrow> let capped = capped_milli Q inp (MilliValue Q hard);
         (t', d') = (if capped > t then (capped, ''step cap'') else (t, d));
         q = Quantize Q res t' (Format Q hard) in
       if \<not> above_band inp (MilliValue Q hard) t \<and> below_band inp (MilliValue Q hard) t \<and> Cmp Q q hard < 0
       then Some (q, d') else None)"

lemma decide_key_eq: "decide_key Q inp (res, hard) c = c\<lparr>
    growTargets := (case key_grow Q inp res hard of None \<Rightarrow> growTargets c | Some (q, d) \<Rightarrow> AList.update res q (growTargets c)),
    shrinkTargets := (case key_shrink Q inp res hard of None \<Rightarrow> shrinkTargets c | Some (q, d) \<Rightarrow> AList.update res q (shrinkTargets c)),
    rawTargets := (case key_raw Q inp res hard of None \<Rightarrow> rawTargets c | Some q \<Rightarrow> AList.update res q (rawTargets c)),
    growReasons := growReasons c @ (case key_grow Q inp res hard of None \<Rightarrow> [] | Some (q, d) \<Rightarrow> [describe Q res hard q d]),
    shrinkReasons := shrinkReasons c @ (case key_shrink Q inp res hard of None \<Rightarrow> [] | Some (q, d) \<Rightarrow> [describe Q res hard q d])\<rparr>"
proof (cases "key_target Q inp res hard")
  case None
  then show ?thesis
    by (auto simp: decide_key_def key_grow_def key_shrink_def key_raw_def key_target_def Let_def split: option.splits if_splits)
next
  case (Some td)
  obtain t d where td: "td = (t, d)" by (cases td)
  obtain u where u: "\<not> overflowsMilliValue Q hard" "MilliValue Q hard \<noteq> 0" "map_of (Used inp) res = Some u"
    "\<not> overflowsMilliValue Q u" "targetFor Q inp res (MilliValue Q u) (HeadroomFor (Policy_in inp) res) = (t, d)"
    using Some by (auto simp: key_target_def td split: option.splits if_splits)
  show ?thesis
    by (simp add: decide_key_def key_grow_def key_shrink_def key_raw_def Some td u Let_def not_le not_less
        above_band_def below_band_def capped_milli_def)
qed

lemma candidates_lookup:
  assumes "distinct (map fst (Hard inp))"
  shows "map_of (growTargets (candidatesOf Q inp)) r = Option.bind (map_of (Hard inp) r) (\<lambda>h. map_option fst (key_grow Q inp r h))"
    and "map_of (shrinkTargets (candidatesOf Q inp)) r = Option.bind (map_of (Hard inp) r) (\<lambda>h. map_option fst (key_shrink Q inp r h))"
    and "map_of (rawTargets (candidatesOf Q inp)) r = Option.bind (map_of (Hard inp) r) (key_raw Q inp r)"
  unfolding candidatesOf_def
  subgoal
    by (subst fold_field [where F = "\<lambda>c. map_of (growTargets c) r" and K = r
          and g = "\<lambda>h old. case key_grow Q inp r h of None \<Rightarrow> old | Some (q, d) \<Rightarrow> Some q", OF _ assms])
      (auto simp: decide_key_eq split: option.splits)
  subgoal
    by (subst fold_field [where F = "\<lambda>c. map_of (shrinkTargets c) r" and K = r
          and g = "\<lambda>h old. case key_shrink Q inp r h of None \<Rightarrow> old | Some (q, d) \<Rightarrow> Some q", OF _ assms])
      (auto simp: decide_key_eq split: option.splits)
  subgoal
    by (subst fold_field [where F = "\<lambda>c. map_of (rawTargets c) r" and K = r
          and g = "\<lambda>h old. case key_raw Q inp r h of None \<Rightarrow> old | Some q \<Rightarrow> Some q", OF _ assms])
      (auto simp: decide_key_eq split: option.splits)
  done

lemma candidates_distinct:
  "distinct (map fst (growTargets (candidatesOf Q inp)))" "distinct (map fst (shrinkTargets (candidatesOf Q inp)))"
  "distinct (map fst (rawTargets (candidatesOf Q inp)))"
proof -
  have "distinct (map fst (growTargets (fold (decide_key Q inp) hs c)))
      \<and> distinct (map fst (shrinkTargets (fold (decide_key Q inp) hs c)))
      \<and> distinct (map fst (rawTargets (fold (decide_key Q inp) hs c)))"
    if "distinct (map fst (growTargets c))" "distinct (map fst (shrinkTargets c))" "distinct (map fst (rawTargets c))" for hs c
    using that
  proof (induction hs arbitrary: c)
    case (Cons rh hs)
    then show ?case by (cases rh) (simp add: decide_key_eq distinct_update split: option.split)
  qed simp
  then show "distinct (map fst (growTargets (candidatesOf Q inp)))" "distinct (map fst (shrinkTargets (candidatesOf Q inp)))"
    "distinct (map fst (rawTargets (candidatesOf Q inp)))"
    by (simp_all add: candidatesOf_def)
qed

end
