(* ===== verification/Metrics.thy ===== *)
theory Metrics
  imports Decide Cluster
begin

text \<open>
  The metrics of one evaluation: \<^verbatim>\<open>internal/controller/metrics.go\<close>. The Prometheus client is not
  part of the repository; \<^verbatim>\<open>recordDecision\<close> is the list of operations on its vectors, in order.
\<close>

definition quotaTarget :: string where "quotaTarget = ''resizer_quota_target''"
definition quotaWasteRatio :: string where "quotaWasteRatio = ''resizer_quota_waste_ratio''"
definition shrinkBlockedBy :: string where "shrinkBlockedBy = ''resizer_shrink_blocked_by''"
definition decisionTotal :: string where "decisionTotal = ''resizer_decision_total''"

lemmas vector_names = quotaTarget_def quotaWasteRatio_def shrinkBlockedBy_def decisionTotal_def

fun Gate_String :: "Gate \<Rightarrow> string" where
  "Gate_String GateEnabled = ''enabled''"
| "Gate_String GateWindow = ''window''"
| "Gate_String GateRecentGrow = ''recent-grow''"
| "Gate_String GateCooldown = ''cooldown''"

definition allGates :: "Gate list" where
  "allGates = [GateEnabled, GateWindow, GateRecentGrow, GateCooldown]"

text \<open>
  The zero \<^verbatim>\<open>Quantity\<close>, whose milli-value is 0, stands for a target that is missing.
\<close>

definition record_resource ::
  "'q resource_api \<Rightarrow> string \<Rightarrow> string \<Rightarrow> 'q Decision \<Rightarrow> resource_name \<times> 'q \<Rightarrow> metric_op list" where
  "record_resource Q namespace quota decision rc = (case rc of (res, current) \<Rightarrow>
     let labels = [namespace, quota, res];
         targetMilli = (case map_of (RawTargets decision) res of None \<Rightarrow> 0 | Some target \<Rightarrow> MilliValue Q target)
     in if map_of (RawTargets decision) res = None \<or> targetMilli = 0
        then [Gauge_Delete quotaTarget labels, Gauge_Delete quotaWasteRatio labels]
        else [Gauge_Set quotaTarget labels (f_of_int targetMilli),
              Gauge_Set quotaWasteRatio labels (f_div (f_of_int (MilliValue Q current)) (f_of_int targetMilli))])"

definition record_gate :: "string \<Rightarrow> string \<Rightarrow> 'q Decision \<Rightarrow> Gate \<Rightarrow> metric_op" where
  "record_gate namespace quota decision gate = Gauge_Set shrinkBlockedBy [namespace, quota, Gate_String gate]
     (if gate \<in> set (BlockedBy decision) then f_one else f_zero)"

definition recordDecision ::
  "'q resource_api \<Rightarrow> string \<Rightarrow> string \<Rightarrow> 'q resource_list \<Rightarrow> 'q Decision \<Rightarrow> metric_op list" where
  "recordDecision Q namespace quota hard decision =
     Counter_Inc decisionTotal [namespace, quota, Direction_String (Direction_of decision)]
     # concat (map (record_resource Q namespace quota decision) hard)
     @ map (record_gate namespace quota decision) allGates"

section \<open>Effect on the published series\<close>

text \<open>The gauges after a list of operations: the last operation on a series decides.\<close>

fun series :: "metric_op list \<Rightarrow> (string \<times> string list \<Rightarrow> float64 option) \<Rightarrow> string \<times> string list \<Rightarrow> float64 option" where
  "series [] g = g"
| "series (Gauge_Set v ls x # ops) g = series ops (g((v, ls) := Some x))"
| "series (Gauge_Delete v ls # ops) g = series ops (g((v, ls) := None))"
| "series (Counter_Inc v ls # ops) g = series ops g"

fun touches :: "string \<times> string list \<Rightarrow> metric_op \<Rightarrow> bool" where
  "touches s (Gauge_Set v ls x) \<longleftrightarrow> s = (v, ls)"
| "touches s (Gauge_Delete v ls) \<longleftrightarrow> s = (v, ls)"
| "touches s (Counter_Inc v ls) \<longleftrightarrow> False"

lemma series_append: "series (xs @ ys) g = series ys (series xs g)"
proof (induction xs arbitrary: g)
  case (Cons x xs)
  then show ?case by (cases x) (simp_all add: fun_upd_def)
qed simp

lemma series_untouched: "\<not> list_ex (touches s) ops \<Longrightarrow> series ops g s = g s"
  by (induction ops g rule: series.induct) auto

lemma resource_untouched:
  "r \<noteq> res \<Longrightarrow> \<not> list_ex (touches (v, [ns, quota, res])) (record_resource Q ns quota d (r, c))"
  by (simp add: record_resource_def Let_def)

lemma resources_untouched:
  "res \<notin> fst ` set hard \<Longrightarrow> \<not> list_ex (touches (v, [ns, quota, res])) (concat (map (record_resource Q ns quota d) hard))"
proof (induction hard)
  case (Cons h hard)
  then show ?case using resource_untouched [of "fst h" res v ns quota Q d "snd h"] by auto
qed simp

lemma series_record_resource:
  "v \<in> {quotaTarget, quotaWasteRatio} \<Longrightarrow>
    series (record_resource Q ns quota d (res, c)) g (v, [ns, quota, res])
      = series (record_resource Q ns quota d (res, c)) (\<lambda>_. None) (v, [ns, quota, res])"
  by (auto simp: record_resource_def Let_def)

lemma series_resource:
  assumes "distinct (map fst hard)" and "(res, current) \<in> set hard" and v: "v \<in> {quotaTarget, quotaWasteRatio}"
  shows "series (concat (map (record_resource Q ns quota d) hard)) g (v, [ns, quota, res])
    = series (record_resource Q ns quota d (res, current)) (\<lambda>_. None) (v, [ns, quota, res])"
  using assms(1,2)
proof (induction hard arbitrary: g)
  case (Cons h hard)
  show ?case
  proof (cases "h = (res, current)")
    case True
    with Cons.prems(1) have "res \<notin> fst ` set hard" by simp
    then show ?thesis
      using True series_record_resource [OF v] by (simp add: series_append series_untouched resources_untouched)
  next
    case False
    then have "(res, current) \<in> set hard" "distinct (map fst hard)" using Cons.prems by auto
    then show ?thesis using Cons.IH by (simp add: series_append)
  qed
qed simp

lemma series_gates:
  "series (map (record_gate ns quota d) allGates) g (shrinkBlockedBy, [ns, quota, Gate_String gate])
     = Some (if gate \<in> set (BlockedBy d) then f_one else f_zero)"
  by (cases gate) (simp_all add: allGates_def record_gate_def)

lemma gates_untouched: "v \<noteq> shrinkBlockedBy \<Longrightarrow> series (map (record_gate ns quota d) allGates) g (v, ls) = g (v, ls)"
  by (rule series_untouched) (simp add: allGates_def record_gate_def)

text \<open>
  Whatever was published before, one evaluation leaves every gate
  gauge at 1 exactly when the gate blocks now and at 0 otherwise, and the target gauge of every key
  of the quota at the current uncapped target; a key without a target, or with the target 0, has no
  series any more.
\<close>

theorem recordDecision_no_stale_series:
  assumes "distinct (map fst hard)" and "(res, current) \<in> set hard"
  shows "let g' = series (recordDecision Q ns quota hard d) g in
     g' (shrinkBlockedBy, [ns, quota, Gate_String gate]) = Some (if gate \<in> set (BlockedBy d) then f_one else f_zero)
     \<and> g' (quotaTarget, [ns, quota, res]) = (case map_of (RawTargets d) res of None \<Rightarrow> None
          | Some t \<Rightarrow> if MilliValue Q t = 0 then None else Some (f_of_int (MilliValue Q t)))
     \<and> g' (quotaWasteRatio, [ns, quota, res]) = (case map_of (RawTargets d) res of None \<Rightarrow> None
          | Some t \<Rightarrow> if MilliValue Q t = 0 then None
              else Some (f_div (f_of_int (MilliValue Q current)) (f_of_int (MilliValue Q t))))"
proof -
  have n: "quotaTarget \<noteq> shrinkBlockedBy" "quotaWasteRatio \<noteq> shrinkBlockedBy" "quotaTarget \<noteq> quotaWasteRatio"
    by (simp_all add: vector_names)
  show ?thesis
    using series_resource [OF assms, of quotaTarget Q ns quota d] series_resource [OF assms, of quotaWasteRatio Q ns quota d] n
    by (simp add: recordDecision_def series_append series_gates gates_untouched)
       (simp add: record_resource_def Let_def split: option.split)
qed

theorem recordDecision_no_stale_series_witness:
  "series (recordDecision nano_api ''team'' ''compute'' [(''pods'', (10 ^ 10, DecimalSI))]
      (noDecision\<lparr>BlockedBy := [GateWindow]\<rparr>)) (\<lambda>_. Some f_one) (shrinkBlockedBy, [''team'', ''compute'', ''cooldown'']) = Some f_zero
   \<and> series (recordDecision nano_api ''team'' ''compute'' [(''pods'', (10 ^ 10, DecimalSI))]
      (noDecision\<lparr>BlockedBy := [GateWindow]\<rparr>)) (\<lambda>_. Some f_one) (quotaTarget, [''team'', ''compute'', ''pods'']) = None"
  using recordDecision_no_stale_series [of "[(''pods'', (10 ^ 10, DecimalSI))]" "''pods''" "(10 ^ 10, DecimalSI)" nano_api
      "''team''" "''compute''" "noDecision\<lparr>BlockedBy := [GateWindow]\<rparr>" "\<lambda>_. Some f_one" GateCooldown]
  by (simp add: noDecision_def Let_def)

end
