(* ===== verification/Constants.thy ===== *)
theory Constants
  imports Policy
begin

text \<open>
  The names of the annotations: \<^verbatim>\<open>internal/config/constants.go\<close>. \<^verbatim>\<open>policy.go\<close> does not use these
  constants but takes a name apart into prefix, resource and suffix; the lemmas say that the two agree.
\<close>

definition AnnotationEnabled :: string where "AnnotationEnabled = ''resizer.io/enabled''"
definition AnnotationCPUThreshold :: string where "AnnotationCPUThreshold = ''resizer.io/cpu-threshold''"
definition AnnotationMemoryThreshold :: string where "AnnotationMemoryThreshold = ''resizer.io/memory-threshold''"
definition AnnotationStorageThreshold :: string where "AnnotationStorageThreshold = ''resizer.io/storage-threshold''"
definition AnnotationCPUIncrement :: string where "AnnotationCPUIncrement = ''resizer.io/cpu-increment''"
definition AnnotationMemoryIncrement :: string where "AnnotationMemoryIncrement = ''resizer.io/memory-increment''"
definition AnnotationStorageIncrement :: string where "AnnotationStorageIncrement = ''resizer.io/storage-increment''"
definition AnnotationCPUHeadroom :: string where "AnnotationCPUHeadroom = ''resizer.io/cpu-headroom''"
definition AnnotationMemoryHeadroom :: string where "AnnotationMemoryHeadroom = ''resizer.io/memory-headroom''"
definition AnnotationStorageHeadroom :: string where "AnnotationStorageHeadroom = ''resizer.io/storage-headroom''"
definition AnnotationTolerance :: string where "AnnotationTolerance = ''resizer.io/tolerance''"
definition AnnotationWindowDays :: string where "AnnotationWindowDays = ''resizer.io/window-days''"
definition AnnotationShrinkCooldownDays :: string where "AnnotationShrinkCooldownDays = ''resizer.io/shrink-cooldown-days''"
definition AnnotationMaxShrinkStep :: string where "AnnotationMaxShrinkStep = ''resizer.io/max-shrink-step''"
definition AnnotationShrinkPRTTLDays :: string where "AnnotationShrinkPRTTLDays = ''resizer.io/shrink-pr-ttl-days''"
definition AnnotationShrinkEnabled :: string where "AnnotationShrinkEnabled = ''resizer.io/shrink-enabled''"
definition AnnotationAutoMerge :: string where "AnnotationAutoMerge = ''resizer.io/auto-merge''"

lemmas constants_def = AnnotationEnabled_def AnnotationCPUThreshold_def AnnotationMemoryThreshold_def AnnotationStorageThreshold_def
  AnnotationCPUIncrement_def AnnotationMemoryIncrement_def AnnotationStorageIncrement_def AnnotationCPUHeadroom_def AnnotationMemoryHeadroom_def
  AnnotationStorageHeadroom_def AnnotationTolerance_def AnnotationWindowDays_def AnnotationShrinkCooldownDays_def AnnotationMaxShrinkStep_def
  AnnotationShrinkPRTTLDays_def AnnotationShrinkEnabled_def

text \<open>Every scalar setting is governed by the annotation that the constant names, and by no other.\<close>

theorem constants_scalars:
  assumes "distinct (map fst as)"
  shows "Tolerance (fst (ParsePolicy Q as base)) = (case map_of as AnnotationTolerance of None \<Rightarrow> Tolerance base
      | Some v \<Rightarrow> fraction_if (\<lambda>x. f_le f_zero x \<and> f_less x f_one) v (Tolerance base))"
    and "MaxShrinkStep (fst (ParsePolicy Q as base)) = (case map_of as AnnotationMaxShrinkStep of None \<Rightarrow> MaxShrinkStep base
      | Some v \<Rightarrow> fraction_if (\<lambda>x. f_less f_zero x \<and> f_less x f_one) v (MaxShrinkStep base))"
    and "WindowDays (fst (ParsePolicy Q as base)) = (case map_of as AnnotationWindowDays of None \<Rightarrow> WindowDays base
      | Some v \<Rightarrow> integer_if (\<lambda>x. 0 < x) (\<lambda>x. x) v (WindowDays base))"
    and "ShrinkCooldown (fst (ParsePolicy Q as base)) = (case map_of as AnnotationShrinkCooldownDays of None \<Rightarrow> ShrinkCooldown base
      | Some v \<Rightarrow> integer_if (\<lambda>x. 0 \<le> x) days_duration v (ShrinkCooldown base))"
    and "ShrinkPRTTL (fst (ParsePolicy Q as base)) = (case map_of as AnnotationShrinkPRTTLDays of None \<Rightarrow> ShrinkPRTTL base
      | Some v \<Rightarrow> integer_if (\<lambda>x. 0 < x) days_duration v (ShrinkPRTTL base))"
    and "Enabled (fst (ParsePolicy Q as base)) = (case map_of as AnnotationEnabled of None \<Rightarrow> Enabled base | Some v \<Rightarrow> v \<noteq> ''false'')"
    and "ShrinkEnabled (fst (ParsePolicy Q as base)) = (case map_of as AnnotationShrinkEnabled of None \<Rightarrow> ShrinkEnabled base
      | Some v \<Rightarrow> ShrinkEnabled base \<and> EqualFold v ''true'')"
  using ParsePolicy_scalar_fields [OF assms, of Q base]
  by (simp_all add: field_after_def AnnotationPrefix_def constants_def)

text \<open>Headroom, increment and threshold annotations are read for the resource that the constant names.\<close>

abbreviation headroom_value :: "string \<Rightarrow> float64 option" where
  "headroom_value v \<equiv> (case parseFraction v of None \<Rightarrow> None | Some x \<Rightarrow> if f_le f_zero x then Some x else None)"

abbreviation threshold_value :: "string \<Rightarrow> float64 option" where
  "threshold_value v \<equiv> (case ParseFloat v of None \<Rightarrow> None
     | Some x \<Rightarrow> if f_less f_zero x \<and> f_le x (Fin 100 1) then Some (f_sub (f_div (Fin 100 1) x) f_one) else None)"

lemma name_eval:
  "TrimPrefix (CHR ''r'' # CHR ''e'' # CHR ''s'' # CHR ''i'' # CHR ''z'' # CHR ''e'' # CHR ''r'' # CHR ''.'' # CHR ''i'' # CHR ''o'' # CHR ''/'' # n) AnnotationPrefix = n"
  "HasPrefix (CHR ''r'' # CHR ''e'' # CHR ''s'' # CHR ''i'' # CHR ''z'' # CHR ''e'' # CHR ''r'' # CHR ''.'' # CHR ''i'' # CHR ''o'' # CHR ''/'' # n) AnnotationPrefix"
  by (simp_all add: TrimPrefix_def HasPrefix_def AnnotationPrefix_def)

theorem constants_headrooms:
  "headroom_of (AnnotationCPUHeadroom, v) = map_option (Pair ''cpu'') (headroom_value v)"
  "headroom_of (AnnotationMemoryHeadroom, v) = map_option (Pair ''memory'') (headroom_value v)"
  "headroom_of (AnnotationStorageHeadroom, v) = map_option (Pair ''storage'') (headroom_value v)"
  "increment_of (AnnotationCPUIncrement, v) = map_option (Pair ''cpu'') (headroom_value v)"
  "increment_of (AnnotationMemoryIncrement, v) = map_option (Pair ''memory'') (headroom_value v)"
  "increment_of (AnnotationStorageIncrement, v) = map_option (Pair ''storage'') (headroom_value v)"
  "threshold_of (AnnotationCPUThreshold, v) = map_option (Pair ''cpu'') (threshold_value v)"
  "threshold_of (AnnotationMemoryThreshold, v) = map_option (Pair ''memory'') (threshold_value v)"
  "threshold_of (AnnotationStorageThreshold, v) = map_option (Pair ''storage'') (threshold_value v)"
  by (simp_all add: headroom_of_def increment_of_def threshold_of_def named_def constants_def name_eval suffixKey_def TrimSuffix_def HasSuffix_def
      split: option.split)

end
