(* ===== verification/Reconcile.thy ===== *)
theory Reconcile
  imports Observer Events_Correct Metrics Constants
begin

text \<open>
  The reconciler: \<^verbatim>\<open>internal/controller/resourcequota_controller.go\<close>. Logging is not modelled.
\<close>

section \<open>Data\<close>

record ('q, 'm) Reconciler =
  Client :: "'q client"
  Retry :: "('q call, 'm controller_ext) retrier"
  Quantities :: "'q resource_api"
  Codec :: codec
  BasePolicy :: "'q policy"
  EnableAutoMerge :: bool

record Result =
  Requeue :: bool
  RequeueAfter :: duration

definition finished :: Result where "finished = \<lparr>Requeue = False, RequeueAfter = 0\<rparr>"
definition requeue :: Result where "requeue = \<lparr>Requeue = True, RequeueAfter = 0\<rparr>"
definition after :: "duration \<Rightarrow> Result" where "after d = \<lparr>Requeue = False, RequeueAfter = d\<rparr>"

abbreviation git_DirectionShrink :: string where "git_DirectionShrink \<equiv> ''shrink''"
abbreviation MergeableStateClean :: string where "MergeableStateClean \<equiv> ''clean''"
abbreviation MergeableStateBlocked :: string where "MergeableStateBlocked \<equiv> ''blocked''"
abbreviation ChecksStateSuccess :: string where "ChecksStateSuccess \<equiv> ''success''"

section \<open>The open pull request\<close>

text \<open>Go's integer division truncates towards zero.\<close>

definition formatDays :: "duration \<Rightarrow> string" where
  "formatDays d = (let days = (if d < 0 then - ((- d) div day) else d div day) in
     if days = 1 then ''1 day'' else itoa days @ '' days'')"

definition shrinkPRShouldClose ::
  "'q client \<Rightarrow> 'q policy \<Rightarrow> PRStatus \<Rightarrow> 'q Decision \<Rightarrow> ('q, 'm, string \<times> bool) cprog" where
  "shrinkPRShouldClose E pol status decision =
     (if Direction_of decision = DirectionGrow then
        return (''Superseded: a shortage was detected and the quota has to grow instead.'' @ [CHR 0x0A, CHR 0x0A] @ Reason decision, True)
      else if \<not> IsZero (CreatedAt status) then do {
        now \<leftarrow> time_Now E;
        if Sub now (CreatedAt status) > ShrinkPRTTL pol then
          return (''Closing automatically: this shrink proposal has been open for '' @ formatDays (ShrinkPRTTL pol)
            @ '' without review. A fresh proposal will be opened once the cooldown expires.'', True)
        else return ('''', False) }
      else return ('''', False))"

definition release_closed :: "PRStatus \<Rightarrow> time \<Rightarrow> LockState \<Rightarrow> LockState" where
  "release_closed status now s = (let
      wasShrink = (PRDirection s = git_DirectionShrink);
      s = s\<lparr>PRID := 0, PRDirection := ''''\<rparr>
    in if \<not> IsMerged status then (if wasShrink then s\<lparr>State_LastShrink := now\<rparr> else s)
       else let s = s\<lparr>LastModified := now\<rparr> in
         if wasShrink then s\<lparr>State_LastShrink := now\<rparr> else s\<lparr>State_LastGrow := now\<rparr>)"

definition canAttemptMerge :: "PRStatus \<Rightarrow> bool" where
  "canAttemptMerge status \<longleftrightarrow> Mergeable status \<and>
     (MergeableState status = MergeableStateClean \<or>
       (MergeableState status = MergeableStateBlocked
        \<and> (ChecksState status = ChecksStateSuccess \<or> ChecksTotalCount status = 0)))"

definition update_open_pr ::
  "'q client \<Rightarrow> string \<Rightarrow> 'q ResourceQuota \<Rightarrow> string smap \<Rightarrow> int \<Rightarrow> 'q Decision \<Rightarrow> ('q, 'm, Result result) cprog" where
  "update_open_pr E reqNS quota annotations prID decision =
     (case Direction_of decision of
        DirectionGrow \<Rightarrow> do {
          r \<leftarrow> ask (\<lambda>t. pr_updated E t prID (Quota_Name quota) reqNS annotations (Targets decision))
                 (UpdatePR prID (Quota_Name quota) reqNS annotations (Targets decision));
          case r of
            Inl err \<Rightarrow> if err_is ((=) ErrFileNotFound) err then return (Inr (after (1 * minute))) else return (Inl err)
          | Inr _ \<Rightarrow> return (Inr (after (5 * minute))) }
      | DirectionShrink \<Rightarrow> return (Inr (after (5 * minute)))
      | DirectionNone \<Rightarrow> return (Inr (after (5 * minute))))"

definition try_auto_merge ::
  "('q, 'm) Reconciler \<Rightarrow> string \<Rightarrow> 'q ResourceQuota \<Rightarrow> string smap \<Rightarrow> LockState \<Rightarrow> PRStatus
    \<Rightarrow> ('q, 'm, Result result) cprog \<Rightarrow> ('q, 'm, Result result) cprog" where
  "try_auto_merge C reqNS quota annotations state status continue = (let
      E = Client C; prID = PRID state;
      shouldAutoMerge = (EnableAutoMerge C \<and> PRDirection state \<noteq> git_DirectionShrink);
      shouldAutoMerge = (if map_of annotations AnnotationAutoMerge = Some ''false'' then False else shouldAutoMerge) in
    if shouldAutoMerge then
      if ToLower (MergeableState status) = ''unknown'' then return (Inr (after (15 * second)))
      else if canAttemptMerge status then do {
        m \<leftarrow> ask (\<lambda>t. pr_merged E t prID ''squash'') (MergePR prID ''squash'');
        case m of
          Inl _ \<Rightarrow> continue
        | Inr _ \<Rightarrow> do {
            now \<leftarrow> time_Now E;
            or_fail (MutateState E (Retry C) reqNS (Quota_Name quota)
                (\<lambda>s. return (s\<lparr>PRID := 0, PRDirection := '''', LastModified := now, State_LastGrow := now\<rparr>)))
              (\<lambda>_. return (Inr requeue)) } }
      else continue
    else continue)"

definition handleActivePR ::
  "('q, 'm) Reconciler \<Rightarrow> string \<Rightarrow> 'q ResourceQuota \<Rightarrow> string smap \<Rightarrow> 'q policy \<Rightarrow> LockState \<Rightarrow> 'q Decision
    \<Rightarrow> ('q, 'm, Result result) cprog" where
  "handleActivePR C reqNS quota annotations pol state decision = (let E = Client C; prID = PRID state in
     or_fail (ask (\<lambda>t. pr_status E t prID) (GetPRStatus prID)) (\<lambda>status.
       if \<not> IsOpen status then do {
         now \<leftarrow> time_Now E;
         or_fail (MutateState E (Retry C) reqNS (Quota_Name quota) (\<lambda>s. return (release_closed status now s)))
           (\<lambda>_. return (Inr requeue)) }
       else let continue = try_auto_merge C reqNS quota annotations state status
                  (update_open_pr E reqNS quota annotations prID decision) in
         if PRDirection state = git_DirectionShrink then do {
           (reason, expire) \<leftarrow> shrinkPRShouldClose E pol status decision;
           if expire then
             or_fail (ask (\<lambda>t. pr_closed E t prID reason) (ClosePR prID reason)) (\<lambda>_. do {
               now \<leftarrow> time_Now E;
               or_fail (MutateState E (Retry C) reqNS (Quota_Name quota)
                   (\<lambda>s. return (s\<lparr>PRID := 0, PRDirection := '''', State_LastShrink := now\<rparr>)))
                 (\<lambda>_. return (Inr requeue)) })
           else continue }
         else continue))"

section \<open>A new pull request\<close>

definition isNoop :: "'q resource_api \<Rightarrow> 'q ResourceQuota \<Rightarrow> 'q smap \<Rightarrow> bool" where
  "isNoop Q quota recommendations = list_all (\<lambda>(res, rec). case map_of (Spec_Hard quota) res of
     None \<Rightarrow> False | Some cur \<Rightarrow> Cmp Q cur rec = 0) recommendations"

text \<open>The zero \<^verbatim>\<open>Quantity\<close> of a missing limit prints as \<^verbatim>\<open>0\<close>.\<close>

definition recommend_event ::
  "'q resource_api \<Rightarrow> 'q ResourceQuota \<Rightarrow> Direction \<Rightarrow> resource_name \<times> 'q \<Rightarrow> unit \<Rightarrow> ('q, 'm, unit) cprog" where
  "recommend_event Q quota dir rl _ = (case rl of (res, newLimit) \<Rightarrow> let
      verb = (if dir = DirectionShrink then ''Decrease'' else ''Increase'');
      eventType = (if dir = DirectionShrink then EventTypeNormal else EventTypeWarning);
      current = (case map_of (Status_Hard quota) res of None \<Rightarrow> ''0'' | Some c \<Rightarrow> QString Q c)
    in recorder_Event quota eventType ''QuotaResizeRecommended''
         (Inr (''Recommendation: '' @ verb @ '' '' @ res @ '' from '' @ current @ '' to '' @ QString Q newLimit)))"

definition create_pr ::
  "('q, 'm) Reconciler \<Rightarrow> string \<Rightarrow> 'q ResourceQuota \<Rightarrow> string smap \<Rightarrow> 'q Decision \<Rightarrow> ('q, 'm, Result result) cprog" where
  "create_pr C reqNS quota annotations decision = (let
      E = Client C; direction = Direction_String (Direction_of decision) in do {
    _ \<leftarrow> foldM (recommend_event (Quantities C) quota (Direction_of decision)) (Targets decision) ();
    r \<leftarrow> ask (\<lambda>t. pr_created E t (Quota_Name quota) reqNS direction annotations (Targets decision))
           (CreatePR (Quota_Name quota) reqNS direction annotations (Targets decision));
    case r of
      Inl err \<Rightarrow> if err_is ((=) ErrFileNotFound) err then return (Inr (after (1 * minute))) else return (Inl err)
    | Inr newPRID \<Rightarrow>
        or_fail (MutateState E (Retry C) reqNS (Quota_Name quota) (\<lambda>s. do {
            now \<leftarrow> time_Now E;
            return (if Direction_of decision = DirectionShrink
              then s\<lparr>PRID := newPRID, PRDirection := direction, State_LastShrink := now\<rparr>
              else s\<lparr>PRID := newPRID, PRDirection := direction, State_LastGrow := now\<rparr>) }))
          (\<lambda>_. return (Inr (after (5 * minute)))) })"

definition handleNewProposal ::
  "('q, 'm) Reconciler \<Rightarrow> string \<Rightarrow> 'q ResourceQuota \<Rightarrow> string smap \<Rightarrow> 'q policy \<Rightarrow> LockState \<Rightarrow> 'q Decision
    \<Rightarrow> ('q, 'm, Result result) cprog" where
  "handleNewProposal C reqNS quota annotations pol state decision = (let E = Client C in
     or_fail (ask (\<lambda>t. pr_found E t reqNS (Quota_Name quota)) (FindOpenPR reqNS (Quota_Name quota)))
       (\<lambda>(existingPRID, existingDirection).
       if existingPRID \<noteq> 0 then
         or_fail (MutateState E (Retry C) reqNS (Quota_Name quota)
             (\<lambda>s. return (s\<lparr>PRID := existingPRID, PRDirection := existingDirection\<rparr>)))
           (\<lambda>_. return (Inr requeue))
       else if isNoop (Quantities C) quota (Targets decision) then return (Inr (after (10 * minute)))
       else if Direction_of decision = DirectionGrow \<and> \<not> IsZero (LastModified state) then do {
         now \<leftarrow> time_Now E;
         let elapsed = Sub now (LastModified state) in
         if elapsed < GrowCooldown pol
         then return (Inr (after (wrap64 (wrap64 (GrowCooldown pol - elapsed) + 1 * second))))
         else create_pr C reqNS quota annotations decision }
       else create_pr C reqNS quota annotations decision))"

section \<open>\<^verbatim>\<open>Reconcile\<close>\<close>

definition warn :: "'q ResourceQuota \<Rightarrow> PolicyWarning \<Rightarrow> unit \<Rightarrow> ('q, 'm, unit) cprog" where
  "warn quota warning _ = (if Kind warning = WarningRejected
     then recorder_Event quota EventTypeWarning ''PolicyAnnotationRejected'' (Inl (Message warning))
     else return ())"

definition publish :: "metric_op \<Rightarrow> unit \<Rightarrow> ('q, 'm, unit) cprog" where
  "publish op _ = ask (\<lambda>_. ()) (\<lambda>_. Metric op)"

definition act_on_decision ::
  "('q, 'm) Reconciler \<Rightarrow> string \<Rightarrow> 'q ResourceQuota \<Rightarrow> string smap \<Rightarrow> 'q policy \<Rightarrow> LockState \<Rightarrow> bool \<Rightarrow> 'q Decision
    \<Rightarrow> ('q, 'm, Result result) cprog" where
  "act_on_decision C reqNS quota annotations pol state deficitScanFailed decision =
     (if PRID state \<noteq> 0 then handleActivePR C reqNS quota annotations pol state decision
      else if Direction_of decision = DirectionShrink \<and> deficitScanFailed then return (Inr (after (5 * minute)))
      else if Direction_of decision \<noteq> DirectionNone then handleNewProposal C reqNS quota annotations pol state decision
      else return (Inr (after (5 * minute))))"

definition decide_and_act ::
  "('q, 'm) Reconciler \<Rightarrow> string \<Rightarrow> 'q ResourceQuota \<Rightarrow> string smap \<Rightarrow> 'q policy \<Rightarrow> Window \<Rightarrow> ('q, 'm, Result result) cprog" where
  "decide_and_act C reqNS quota annotations pol window = (let E = Client C; Q = Quantities C in
     or_fail (GetState E reqNS (Quota_Name quota)) (\<lambda>state. do {
       scan \<leftarrow> collectDeficits Q E quota (LastModified state);
       now \<leftarrow> time_Now E;
       let decision = Decide Q \<lparr>Now = now, Hard = Status_Hard quota, Used = Status_Used quota,
             Deficits = (case scan of Inl _ \<Rightarrow> [] | Inr deficits \<Rightarrow> deficits), InWindow = window, Policy_in = pol,
             LastGrow = State_LastGrow state, LastShrink = State_LastShrink state\<rparr>;
       _ \<leftarrow> foldM publish (recordDecision Q reqNS (Quota_Name quota) (Status_Hard quota) decision) ();
       act_on_decision C reqNS quota annotations pol state (isl scan) decision }))"

definition Reconcile :: "('q, 'm) Reconciler \<Rightarrow> string \<Rightarrow> string \<Rightarrow> ('q, 'm, Result result) cprog" where
  "Reconcile C reqNS reqName = (let E = Client C in do {
     q \<leftarrow> getQuota E reqNS reqName;
     case q of
       Inl err \<Rightarrow>
         if err_is ((=) NotFound) err then do { Forget reqNS reqName; return (Inr finished) } else return (Inl err)
     | Inr quota \<Rightarrow>
         or_fail (getNamespace E reqNS) (\<lambda>annotations.
           case ParsePolicy (Quantities C) annotations (BasePolicy C) of (pol, ws) \<Rightarrow> do {
             _ \<leftarrow> foldM (warn quota) ws ();
             if \<not> Enabled pol then return (Inr finished)
             else or_fail (Observer_Observe (Quantities C) E (Retry C) (Codec C) quota (WindowDays pol))
               (decide_and_act C reqNS quota annotations pol) }) })"

end
