(* ===== verification/Reconcile_Safety.thy ===== *)
theory Reconcile_Safety
  imports Reconcile
begin

text \<open>
  What the reconciler may do: when it merges, closes, updates and creates pull requests, and what it
  records on the Lease. Everything is proved for every client: whatever the API server and the Git
  provider answer, and whoever else writes in between.
\<close>

section \<open>Calls of the parts\<close>

abbreviation quiet :: "'q call \<Rightarrow> bool" where "quiet e \<equiv> \<not> provider_call e"

lemma ensures_mutate_return:
  assumes "retries_on_conflict R"
    and "\<And>e s. mutate_calls ns q (\<lambda>st st' c. st' = f st) (Inl e) s \<Longrightarrow> Q (Inl e) s"
    and "\<And>s. mutate_calls ns q (\<lambda>st st' c. st' = f st) (Inr ()) s \<Longrightarrow> Q (Inr x) s"
  shows "ensures (or_fail (MutateState E R ns q (\<lambda>st. return (f st))) (\<lambda>_. return (Inr x))) Q"
proof (rule ensures_or_fail)
  show "ensures (MutateState E R ns q (\<lambda>st. return (f st))) (mutate_calls ns q (\<lambda>st st' c. st' = f st))"
    by (rule ensures_MutateState [OF assms(1)]) (simp add: ensures_return)
qed (simp_all add: assms(2,3) ensures_return)

lemma list_all_provider: "list_all quiet s \<Longrightarrow> e \<in> set s \<Longrightarrow> provider_call e \<Longrightarrow> P"
  by (auto simp: list_all_iff)

section \<open>The open pull request\<close>

text \<open>The calls to the provider that are allowed on an open pull request with status \<open>st\<close>.\<close>

definition active_call ::
  "('q, 'm) Reconciler \<Rightarrow> string \<Rightarrow> 'q ResourceQuota \<Rightarrow> string smap \<Rightarrow> 'q policy \<Rightarrow> LockState \<Rightarrow> 'q Decision
    \<Rightarrow> PRStatus \<Rightarrow> 'q call list \<Rightarrow> 'q call \<Rightarrow> bool" where
  "active_call C reqNS quota annotations pol state decision st s e \<longleftrightarrow>
     (\<exists>c. e = MergePR (PRID state) ''squash'' c \<and> EnableAutoMerge C \<and> PRDirection state \<noteq> git_DirectionShrink
        \<and> map_of annotations AnnotationAutoMerge \<noteq> Some ''false'' \<and> canAttemptMerge st)
   \<or> (\<exists>reason c. e = ClosePR (PRID state) reason c \<and> PRDirection state = git_DirectionShrink
        \<and> (Direction_of decision = DirectionGrow
           \<or> (\<exists>now. Clock now \<in> set s \<and> \<not> IsZero (CreatedAt st) \<and> Sub now (CreatedAt st) > ShrinkPRTTL pol)))
   \<or> (\<exists>c. e = UpdatePR (PRID state) (Quota_Name quota) reqNS annotations (Targets decision) c
        \<and> Direction_of decision = DirectionGrow)"

lemma active_call_mono: "active_call C ns q a p st d s t e \<Longrightarrow> set t \<subseteq> set u \<Longrightarrow> active_call C ns q a p st d s u e"
  unfolding active_call_def by blast

definition active_calls where
  "active_calls C reqNS quota annotations pol state decision st s \<longleftrightarrow>
     (\<forall>e \<in> set s. provider_call e \<longrightarrow> active_call C reqNS quota annotations pol state decision st s e)"

lemma active_calls_quiet: "list_all quiet s \<Longrightarrow> active_calls C ns q a p st d x s"
  by (auto simp: active_calls_def list_all_iff)

lemma active_calls_append:
  "active_calls C ns q a p st d x s \<Longrightarrow> active_calls C ns q a p st d x t \<Longrightarrow> active_calls C ns q a p st d x (s @ t)"
  unfolding active_calls_def by (auto elim!: active_call_mono)

lemma active_calls_Cons:
  "(provider_call e \<Longrightarrow> active_call C ns q a p st d x [e] e) \<Longrightarrow> active_calls C ns q a p st d x t
    \<Longrightarrow> active_calls C ns q a p st d x (e # t)"
  using active_calls_append [of C ns q a p st d x "[e]" t] by (simp add: active_calls_def)

lemma active_calls_Clock: "active_calls C ns q a p st d x t \<Longrightarrow> active_calls C ns q a p st d x (Clock n # t)"
  by (rule active_calls_Cons) simp_all

lemma active_calls_mutate: "mutate_calls n m F r s \<Longrightarrow> active_calls C ns q a p st d x s"
  by (rule active_calls_quiet) (rule mutate_calls_provider)

lemma ensures_update_open_pr:
  assumes "PRID state = prID"
  shows "ensures (update_open_pr (Client C) reqNS quota annotations prID decision)
    (\<lambda>r s. active_calls C reqNS quota annotations pol state decision st s)"
proof (cases "Direction_of decision")
  case DirectionGrow
  then show ?thesis
    unfolding update_open_pr_def using assms
    by (simp, intro ensures_intro) (auto simp: active_calls_def active_call_def)
qed (simp_all add: update_open_pr_def ensures_return active_calls_def)

lemma ensures_try_auto_merge:
  assumes R: "retries_on_conflict (Retry C)"
    and c: "ensures continue (\<lambda>r s. active_calls C reqNS quota annotations pol state decision st s)"
  shows "ensures (try_auto_merge C reqNS quota annotations state st continue)
    (\<lambda>r s. active_calls C reqNS quota annotations pol state decision st s)"
proof -
  let ?A = "active_calls C reqNS quota annotations pol state decision st"
  let ?ok = "if map_of annotations AnnotationAutoMerge = Some ''false'' then False
      else EnableAutoMerge C \<and> PRDirection state \<noteq> git_DirectionShrink"
  have merge: "?A (MergePR (PRID state) ''squash'' c # t)" if "?ok" "canAttemptMerge st" "?A t" for c t
    by (rule active_calls_Cons) (use that in \<open>auto simp: active_call_def split: if_splits\<close>)
  show ?thesis
    unfolding try_auto_merge_def Let_def
    by (intro ensures_intro ensures_mutate_return [OF R] c ensures_weaken [OF c] merge active_calls_Clock)
       (assumption | erule active_calls_mutate | simp add: active_calls_quiet)+
qed

lemma ensures_handleActivePR:
  fixes C :: "('q, 'm) Reconciler"
  assumes R: "retries_on_conflict (Retry C)"
  shows "ensures (handleActivePR C reqNS quota annotations pol state decision) (\<lambda>r s. \<exists>answer t.
      s = GetPRStatus (PRID state) answer # t
      \<and> (list_all quiet t \<or> (\<exists>st. answer = Inr st \<and> IsOpen st \<and> active_calls C reqNS quota annotations pol state decision st t)))"
proof -
  let ?A = "active_calls C reqNS quota annotations pol state decision"
  let ?c = "\<lambda>st. try_auto_merge C reqNS quota annotations state st (update_open_pr (Client C) reqNS quota annotations (PRID state) decision)"
  have go: "ensures (?c st) (\<lambda>r s. ?A st s)" for st
    by (rule ensures_try_auto_merge [OF R ensures_update_open_pr [OF refl]])
  have close: "ensures (shrinkPRShouldClose (Client C) pol st decision) (\<lambda>r s. list_all quiet s
      \<and> (snd r \<longrightarrow> Direction_of decision = DirectionGrow
           \<or> (\<exists>now. Clock now \<in> set s \<and> \<not> IsZero (CreatedAt st) \<and> Sub now (CreatedAt st) > ShrinkPRTTL pol)))" for st
    unfolding shrinkPRShouldClose_def by (intro ensures_intro) auto
  have shrink: "ensures (shrinkPRShouldClose (Client C) pol st decision \<bind> (\<lambda>(reason, expire).
           if expire then
             or_fail (ask (\<lambda>t. pr_closed (Client C) t (PRID state) reason) (ClosePR (PRID state) reason)) (\<lambda>_. time_Now (Client C) \<bind> (\<lambda>now.
               or_fail (MutateState (Client C) (Retry C) reqNS (Quota_Name quota)
                   (\<lambda>s. return (s\<lparr>PRID := 0, PRDirection := '''', State_LastShrink := now\<rparr>)))
                 (\<lambda>_. return (Inr requeue))))
           else ?c st)) (\<lambda>r s. ?A st s)"
    if "PRDirection state = git_DirectionShrink" for st
  proof (rule ensures_bind [OF close], rule ensures_prod, rule ensures_if)
    fix x and s :: "'q call list" and reason :: string and expire
    assume h: "list_all quiet s \<and> (snd x \<longrightarrow> Direction_of decision = DirectionGrow
           \<or> (\<exists>now. Clock now \<in> set s \<and> \<not> IsZero (CreatedAt st) \<and> Sub now (CreatedAt st) > ShrinkPRTTL pol))"
      and x: "x = (reason, expire)"
    show "ensures (?c st) (\<lambda>y s'. ?A st (s @ s'))"
      using h by (intro ensures_weaken [OF go] active_calls_append [OF active_calls_quiet]) auto
    assume expire
    have call: "?A st (s @ ClosePR (PRID state) reason c # t)" if "?A st t" for c t
    proof -
      have "?A st (s @ [ClosePR (PRID state) reason c])"
        using h x \<open>expire\<close> \<open>PRDirection state = git_DirectionShrink\<close>
        by (auto simp: active_calls_def active_call_def list_all_iff)
      from active_calls_append [OF this that] show ?thesis by simp
    qed
    show "ensures (or_fail (ask (\<lambda>t. pr_closed (Client C) t (PRID state) reason) (ClosePR (PRID state) reason)) (\<lambda>_. time_Now (Client C) \<bind> (\<lambda>now.
               or_fail (MutateState (Client C) (Retry C) reqNS (Quota_Name quota)
                   (\<lambda>s. return (s\<lparr>PRID := 0, PRDirection := '''', State_LastShrink := now\<rparr>)))
                 (\<lambda>_. return (Inr requeue))))) (\<lambda>y s'. ?A st (s @ s'))"
      by (intro ensures_intro ensures_mutate_return [OF R])
         (auto intro!: call active_calls_Clock intro: active_calls_mutate simp: active_calls_quiet)
  qed
  show ?thesis
    unfolding handleActivePR_def Let_def
  proof (intro ensures_ask_or_fail ensures_if)
    fix st :: PRStatus assume "\<not> IsOpen st"
    show "ensures (time_Now (Client C) \<bind> (\<lambda>now. or_fail (MutateState (Client C) (Retry C) reqNS (Quota_Name quota)
          (\<lambda>s. return (release_closed st now s))) (\<lambda>_. return (Inr requeue))))
       (\<lambda>y s. \<exists>answer t. GetPRStatus (PRID state) (Inr st) # s = GetPRStatus (PRID state) answer # t
          \<and> (list_all quiet t \<or> (\<exists>st. answer = Inr st \<and> IsOpen st \<and> ?A st t)))"
      by (intro ensures_intro ensures_mutate_return [OF R]) (auto dest: mutate_calls_provider)
  next
    fix st :: PRStatus assume o: "\<not> \<not> IsOpen st"
    {
      assume "PRDirection state = git_DirectionShrink"
      from shrink [OF this, of st] o show "ensures (shrinkPRShouldClose (Client C) pol st decision \<bind> (\<lambda>(reason, expire).
           if expire then
             or_fail (ask (\<lambda>t. pr_closed (Client C) t (PRID state) reason) (ClosePR (PRID state) reason)) (\<lambda>_. time_Now (Client C) \<bind> (\<lambda>now.
               or_fail (MutateState (Client C) (Retry C) reqNS (Quota_Name quota)
                   (\<lambda>s. return (s\<lparr>PRID := 0, PRDirection := '''', State_LastShrink := now\<rparr>)))
                 (\<lambda>_. return (Inr requeue))))
           else ?c st)) (\<lambda>y s. \<exists>answer t. GetPRStatus (PRID state) (Inr st) # s = GetPRStatus (PRID state) answer # t
          \<and> (list_all quiet t \<or> (\<exists>st. answer = Inr st \<and> IsOpen st \<and> ?A st t)))"
        by (elim ensures_weaken) auto
    }
    from go [of st] o show "ensures (?c st) (\<lambda>y s. \<exists>answer t. GetPRStatus (PRID state) (Inr st) # s = GetPRStatus (PRID state) answer # t
          \<and> (list_all quiet t \<or> (\<exists>st. answer = Inr st \<and> IsOpen st \<and> ?A st t)))"
      by (elim ensures_weaken) auto
  qed simp
qed

section \<open>A new pull request\<close>

text \<open>A successful write is the last call and stored a state that \<open>P\<close> describes.\<close>

definition recorded :: "(LockState \<Rightarrow> bool) \<Rightarrow> 'q call list \<Rightarrow> bool" where
  "recorded P s \<longleftrightarrow> (\<exists>p l st. s = p @ [UpdateLease (applyStateToLease st l) (Inr ())] \<and> P st)"

lemma recorded_prefix: "recorded P s \<Longrightarrow> recorded P (t @ s)"
  unfolding recorded_def by (metis append_assoc)

lemma recorded_mutate:
  assumes "mutate_calls ns q F (Inr ()) s" and "\<And>st st' c. F st st' c \<Longrightarrow> P st'"
  shows "recorded P s"
proof -
  obtain p l st c where s: "s = p @ GetLease ControllerNamespace (getLeaseName ns q) (Inr l) # c @ [UpdateLease (applyStateToLease st l) (Inr ())]"
    and f: "F (stateFromLease l) st c" using mutate_calls_success [OF assms(1)] by blast
  show ?thesis unfolding recorded_def
    by (rule exI [of _ "p @ GetLease ControllerNamespace (getLeaseName ns q) (Inr l) # c"], rule exI [of _ l], rule exI [of _ st])
       (use s assms(2) [OF f] in simp)
qed

definition create_calls ::
  "string \<Rightarrow> 'q ResourceQuota \<Rightarrow> string smap \<Rightarrow> 'q Decision \<Rightarrow> Result result \<Rightarrow> 'q call list \<Rightarrow> bool" where
  "create_calls reqNS quota annotations decision r s \<longleftrightarrow> (\<exists>p c t.
     s = p @ CreatePR (Quota_Name quota) reqNS (Direction_String (Direction_of decision)) annotations (Targets decision) c # t
     \<and> list_all (\<lambda>e. quiet e \<and> \<not> writes e) p \<and> list_all quiet t
     \<and> (\<forall>n res. c = Inr n \<longrightarrow> r = Inr res \<longrightarrow>
          recorded (\<lambda>st. PRID st = n \<and> PRDirection st = Direction_String (Direction_of decision)) t)
     \<and> (\<forall>e res. c = Inl e \<longrightarrow> r = Inr res \<longrightarrow> err_is ((=) ErrFileNotFound) e))"

lemma create_callsI:
  assumes "list_all (\<lambda>e. quiet e \<and> \<not> writes e) p" and "list_all quiet t"
    and "\<And>n res. c = Inr n \<Longrightarrow> r = Inr res \<Longrightarrow>
      recorded (\<lambda>st. PRID st = n \<and> PRDirection st = Direction_String (Direction_of decision)) t"
    and "\<And>e res. c = Inl e \<Longrightarrow> r = Inr res \<Longrightarrow> err_is ((=) ErrFileNotFound) e"
  shows "create_calls reqNS quota annotations decision r
    (p @ CreatePR (Quota_Name quota) reqNS (Direction_String (Direction_of decision)) annotations (Targets decision) c # t)"
  unfolding create_calls_def using assms by blast

lemma ensures_recommend:
  "only (\<lambda>e. quiet e \<and> \<not> writes e) (foldM (recommend_event Q quota dir) ts ())"
  by (rule only_foldM) (auto simp: recommend_event_def Let_def split: prod.split intro!: ensures_ask)

lemma ensures_create_pr:
  fixes C :: "('q, 'm) Reconciler"
  assumes R: "retries_on_conflict (Retry C)"
  shows "ensures (create_pr C reqNS quota annotations decision) (create_calls reqNS quota annotations decision)"
  unfolding create_pr_def Let_def
proof (rule ensures_bind [OF ensures_recommend], intro ensures_ask_bind ensures_sum ensures_if ensures_return)
  fix p :: "'q call list" and c :: "int result" and n
  assume p: "list_all (\<lambda>e. quiet e \<and> \<not> writes e) p" and c: "c = Inr n"
  let ?dir = "Direction_String (Direction_of decision)"
  let ?F = "\<lambda>st st' (c :: 'q call list). PRID st' = n \<and> PRDirection st' = ?dir"
  let ?fn = "\<lambda>s. time_Now (Client C) \<bind> (\<lambda>now. return (if Direction_of decision = DirectionShrink
              then s\<lparr>PRID := n, PRDirection := ?dir, State_LastShrink := now\<rparr>
              else s\<lparr>PRID := n, PRDirection := ?dir, State_LastGrow := now\<rparr>))"
  have m: "ensures (MutateState (Client C) (Retry C) reqNS (Quota_Name quota) ?fn) (mutate_calls reqNS (Quota_Name quota) ?F)"
    by (rule ensures_MutateState [OF R]) (auto intro!: ensures_ask_bind ensures_return)
  show "ensures (or_fail (MutateState (Client C) (Retry C) reqNS (Quota_Name quota) ?fn) (\<lambda>_. return (Inr (after (5 * minute)))))
     (\<lambda>y s'. create_calls reqNS quota annotations decision y
        (p @ CreatePR (Quota_Name quota) reqNS ?dir annotations (Targets decision) c # s'))"
  proof (rule ensures_or_fail [OF m])
    fix e s assume "mutate_calls reqNS (Quota_Name quota) ?F (Inl e) s"
    with p show "create_calls reqNS quota annotations decision (Inl e)
        (p @ CreatePR (Quota_Name quota) reqNS ?dir annotations (Targets decision) c # s)"
      by (intro create_callsI) (auto dest: mutate_calls_provider)
  next
    fix x :: unit and s assume "mutate_calls reqNS (Quota_Name quota) ?F (Inr x) s"
    then have h: "mutate_calls reqNS (Quota_Name quota) ?F (Inr ()) s" by simp
    have "recorded (\<lambda>st. PRID st = n \<and> PRDirection st = ?dir) s" by (rule recorded_mutate [OF h])
    with p c mutate_calls_provider [OF h] show "ensures (return (Inr (after (5 * minute)))) (\<lambda>y s'.
        create_calls reqNS quota annotations decision y
        (p @ CreatePR (Quota_Name quota) reqNS ?dir annotations (Targets decision) c # s @ s'))"
      by (intro ensures_return) (auto intro!: create_callsI)
  qed
qed (auto intro!: create_callsI)

definition proposal_calls ::
  "('q, 'm) Reconciler \<Rightarrow> string \<Rightarrow> 'q ResourceQuota \<Rightarrow> string smap \<Rightarrow> 'q policy \<Rightarrow> LockState \<Rightarrow> 'q Decision
    \<Rightarrow> Result result \<Rightarrow> 'q call list \<Rightarrow> bool" where
  "proposal_calls C reqNS quota annotations pol state decision r s \<longleftrightarrow>
     (\<exists>answer t. s = FindOpenPR reqNS (Quota_Name quota) answer # t \<and>
       (list_all quiet t \<and> (\<forall>i d res. answer = Inr (i, d) \<longrightarrow> i \<noteq> 0 \<longrightarrow> r = Inr res \<longrightarrow>
            recorded (\<lambda>st. PRID st = i \<and> PRDirection st = d) t)
          \<and> (isl answer \<longrightarrow> isl r)
          \<and> (\<forall>d. answer = Inr (0, d) \<longrightarrow> isNoop (Quantities C) quota (Targets decision)
              \<or> Direction_of decision = DirectionGrow \<and> \<not> IsZero (LastModified state)
                \<and> (\<exists>now. Clock now \<in> set t \<and> Sub now (LastModified state) < GrowCooldown pol))
        \<or> (\<exists>d p t'. answer = Inr (0, d) \<and> t = p @ t' \<and> list_all is_clock p \<and> \<not> isNoop (Quantities C) quota (Targets decision)
             \<and> create_calls reqNS quota annotations decision r t'
             \<and> (Direction_of decision = DirectionGrow \<and> \<not> IsZero (LastModified state) \<longrightarrow>
                  (\<exists>now. p = [Clock now] \<and> Sub now (LastModified state) \<ge> GrowCooldown pol)))))"

lemma proposal_stops:
  assumes "list_all quiet t" and "isl answer \<Longrightarrow> isl r"
    and "\<And>i d res. answer = Inr (i, d) \<Longrightarrow> i \<noteq> 0 \<Longrightarrow> r = Inr res \<Longrightarrow> recorded (\<lambda>st. PRID st = i \<and> PRDirection st = d) t"
    and "\<And>d. answer = Inr (0, d) \<Longrightarrow> isNoop (Quantities C) quota (Targets decision)
      \<or> Direction_of decision = DirectionGrow \<and> \<not> IsZero (LastModified state)
        \<and> (\<exists>now. Clock now \<in> set t \<and> Sub now (LastModified state) < GrowCooldown pol)"
  shows "proposal_calls C reqNS quota annotations pol state decision r (FindOpenPR reqNS (Quota_Name quota) answer # t)"
  unfolding proposal_calls_def using assms by blast

lemma proposal_creates:
  assumes "list_all is_clock p" and "\<not> isNoop (Quantities C) quota (Targets decision)"
    and "create_calls reqNS quota annotations decision r t"
    and "Direction_of decision = DirectionGrow \<and> \<not> IsZero (LastModified state) \<Longrightarrow>
      \<exists>now. p = [Clock now] \<and> Sub now (LastModified state) \<ge> GrowCooldown pol"
  shows "proposal_calls C reqNS quota annotations pol state decision r (FindOpenPR reqNS (Quota_Name quota) (Inr (0, d)) # p @ t)"
  unfolding proposal_calls_def using assms by blast

lemma ensures_handleNewProposal:
  fixes C :: "('q, 'm) Reconciler"
  assumes R: "retries_on_conflict (Retry C)"
  shows "ensures (handleNewProposal C reqNS quota annotations pol state decision)
    (proposal_calls C reqNS quota annotations pol state decision)"
  unfolding handleNewProposal_def Let_def
proof (intro ensures_ask_or_fail ensures_prod ensures_if ensures_ask_bind ensures_return)
  fix x and i :: int and d :: string assume x: "x = (i, d)" and i: "i \<noteq> 0"
  show "ensures (or_fail (MutateState (Client C) (Retry C) reqNS (Quota_Name quota)
             (\<lambda>s. return (s\<lparr>PRID := i, PRDirection := d\<rparr>))) (\<lambda>_. return (Inr requeue)))
     (\<lambda>y s. proposal_calls C reqNS quota annotations pol state decision y (FindOpenPR reqNS (Quota_Name quota) (Inr x) # s))"
    by (rule ensures_mutate_return [OF R], rule_tac [!] proposal_stops)
       (use x i in \<open>auto dest: mutate_calls_provider intro: recorded_mutate\<close>)
next
  fix x and i :: int and d :: string and now
  assume x: "x = (i, d)" and i: "\<not> i \<noteq> 0" and n: "\<not> isNoop (Quantities C) quota (Targets decision)"
    and e: "\<not> Sub now (LastModified state) < GrowCooldown pol"
  show "ensures (create_pr C reqNS quota annotations decision)
     (\<lambda>y s. proposal_calls C reqNS quota annotations pol state decision y (FindOpenPR reqNS (Quota_Name quota) (Inr x) # Clock now # s))"
  proof (rule ensures_weaken [OF ensures_create_pr [OF R]])
    fix y s assume "create_calls reqNS quota annotations decision y s"
    from proposal_creates [where p = "[Clock now]" and state = state and pol = pol and d = d, OF _ n this] e i x
    show "proposal_calls C reqNS quota annotations pol state decision y (FindOpenPR reqNS (Quota_Name quota) (Inr x) # Clock now # s)" by simp
  qed
next
  fix x and i :: int and d :: string
  assume x: "x = (i, d)" and i: "\<not> i \<noteq> 0" and n: "\<not> isNoop (Quantities C) quota (Targets decision)"
    and e: "\<not> (Direction_of decision = DirectionGrow \<and> \<not> IsZero (LastModified state))"
  show "ensures (create_pr C reqNS quota annotations decision)
     (\<lambda>y s. proposal_calls C reqNS quota annotations pol state decision y (FindOpenPR reqNS (Quota_Name quota) (Inr x) # s))"
  proof (rule ensures_weaken [OF ensures_create_pr [OF R]])
    fix y s assume "create_calls reqNS quota annotations decision y s"
    from proposal_creates [where p = "[]" and state = state and pol = pol and d = d, OF _ n this] e i x
    show "proposal_calls C reqNS quota annotations pol state decision y (FindOpenPR reqNS (Quota_Name quota) (Inr x) # s)" by simp
  qed
qed (rule proposal_stops; auto)+

section \<open>One reconciliation\<close>

definition decided ::
  "('q, 'm) Reconciler \<Rightarrow> string \<Rightarrow> 'q ResourceQuota \<Rightarrow> 'q policy \<Rightarrow> Window \<Rightarrow> 'q call list \<Rightarrow> LockState
    \<Rightarrow> int smap result \<Rightarrow> 'q Decision \<Rightarrow> bool" where
  "decided C reqNS quota pol window s state scan decision \<longleftrightarrow>
     (\<exists>answer. GetLease ControllerNamespace (getLeaseName reqNS (Quota_Name quota)) answer \<in> set s \<and> state = read_state answer)
   \<and> (\<exists>answer. ListEvents (Quota_Namespace quota) answer \<in> set s \<and> isl answer = isl scan)
   \<and> (\<exists>now. Clock now \<in> set s \<and> decision = Decide (Quantities C) \<lparr>Now = now, Hard = Status_Hard quota, Used = Status_Used quota,
        Deficits = (case scan of Inl _ \<Rightarrow> [] | Inr deficits \<Rightarrow> deficits), InWindow = window, Policy_in = pol,
        LastGrow = State_LastGrow state, LastShrink = State_LastShrink state\<rparr>)"

text \<open>The calls after the decision: the open pull request is managed, or one may be proposed.\<close>

definition action_calls where
  "action_calls C reqNS quota annotations pol state scan decision r s \<longleftrightarrow>
     list_all quiet s \<and> PRID state = 0 \<and> (Direction_of decision = DirectionNone \<or> Direction_of decision = DirectionShrink \<and> isl scan)
   \<or> (PRID state \<noteq> 0 \<and> (\<exists>st t. s = GetPRStatus (PRID state) (Inr st) # t \<and> IsOpen st
         \<and> active_calls C reqNS quota annotations pol state decision st t))
   \<or> (PRID state \<noteq> 0 \<and> (\<exists>answer t. s = GetPRStatus (PRID state) answer # t \<and> list_all quiet t))
   \<or> (PRID state = 0 \<and> Direction_of decision \<noteq> DirectionNone \<and> (Direction_of decision = DirectionShrink \<longrightarrow> \<not> isl scan)
      \<and> proposal_calls C reqNS quota annotations pol state decision r s)"

lemma ensures_act_on_decision:
  assumes R: "retries_on_conflict (Retry C)"
  shows "ensures (act_on_decision C reqNS quota annotations pol state (isl scan) decision)
    (action_calls C reqNS quota annotations pol state scan decision)"
  unfolding act_on_decision_def
proof (intro ensures_if ensures_return)
  assume "PRID state \<noteq> 0"
  then show "ensures (handleActivePR C reqNS quota annotations pol state decision)
      (action_calls C reqNS quota annotations pol state scan decision)"
    by (intro ensures_weaken [OF ensures_handleActivePR [OF R]]) (auto simp: action_calls_def)
next
  assume "\<not> PRID state \<noteq> 0" "\<not> (Direction_of decision = DirectionShrink \<and> isl scan)" "Direction_of decision \<noteq> DirectionNone"
  then show "ensures (handleNewProposal C reqNS quota annotations pol state decision)
      (action_calls C reqNS quota annotations pol state scan decision)"
    by (intro ensures_weaken [OF ensures_handleNewProposal [OF R]]) (auto simp: action_calls_def)
qed (simp_all add: action_calls_def)

definition decide_calls where
  "decide_calls C reqNS quota annotations pol window r s \<longleftrightarrow>
     list_all quiet s \<and> isl r
   \<or> (\<exists>s1 s2 state scan decision. s = s1 @ s2 \<and> list_all quiet s1
        \<and> decided C reqNS quota pol window s1 state scan decision
        \<and> action_calls C reqNS quota annotations pol state scan decision r s2)"

lemma ensures_GetState:
  "ensures (GetState E ns q) (\<lambda>r s. \<exists>answer. s = [GetLease ControllerNamespace (getLeaseName ns q) answer]
     \<and> (\<forall>st. r = Inr st \<longrightarrow> st = read_state answer))"
  unfolding GetState_def by (intro ensures_intro) (auto simp: read_state_def split: sum.splits)

lemma only_publish: "only quiet (foldM publish ops ())"
  by (rule only_foldM) (auto simp: publish_def intro: ensures_ask)

lemma ensures_decide_and_act:
  fixes C :: "('q, 'm) Reconciler"
  assumes R: "retries_on_conflict (Retry C)"
  shows "ensures (decide_and_act C reqNS quota annotations pol window) (decide_calls C reqNS quota annotations pol window)"
  unfolding decide_and_act_def Let_def
proof (rule ensures_or_fail [OF ensures_GetState])
  fix e :: error and s :: "'q call list" assume "\<exists>answer. s = [GetLease ControllerNamespace (getLeaseName reqNS (Quota_Name quota)) answer]
     \<and> (\<forall>st. (Inl e :: LockState result) = Inr st \<longrightarrow> st = read_state answer)"
  then show "decide_calls C reqNS quota annotations pol window (Inl e) s" by (auto simp: decide_calls_def)
next
  fix state :: LockState and s0 :: "'q call list"
  assume "\<exists>answer. s0 = [GetLease ControllerNamespace (getLeaseName reqNS (Quota_Name quota)) answer]
     \<and> (\<forall>st. (Inr state :: LockState result) = Inr st \<longrightarrow> st = read_state answer)"
  then obtain answer where s0: "s0 = [GetLease ControllerNamespace (getLeaseName reqNS (Quota_Name quota)) answer]"
    and st: "state = read_state answer" by auto
  let ?d = "\<lambda>scan now. Decide (Quantities C) \<lparr>Now = now, Hard = Status_Hard quota, Used = Status_Used quota,
        Deficits = (case scan of Inl _ \<Rightarrow> [] | Inr deficits \<Rightarrow> deficits), InWindow = window, Policy_in = pol,
        LastGrow = State_LastGrow state, LastShrink = State_LastShrink state\<rparr>"
  have act: "ensures (act_on_decision C reqNS quota annotations pol state (isl scan) (?d scan now))
      (\<lambda>r s. decide_calls C reqNS quota annotations pol window r (s0 @ sc @ Clock now # sp @ s))"
    if sc: "collected quota (LastModified state) scan sc" and sp: "list_all quiet sp" for scan now sc sp
  proof (rule ensures_weaken [OF ensures_act_on_decision [OF R]])
    fix r s assume a: "action_calls C reqNS quota annotations pol state scan (?d scan now) r s"
    let ?s1 = "s0 @ sc @ Clock now # sp"
    have q: "list_all quiet ?s1" using sc sp s0 by (auto simp: collected_def list_all_iff)
    have "\<exists>answer. ListEvents (Quota_Namespace quota) answer \<in> set sc \<and> isl answer = isl scan"
      using sc by (auto simp: collected_def split: sum.splits)
    then have "decided C reqNS quota pol window ?s1 state scan (?d scan now)"
      unfolding decided_def using s0 st by auto
    with q a show "decide_calls C reqNS quota annotations pol window r (s0 @ sc @ Clock now # sp @ s)"
      unfolding decide_calls_def by (intro disjI2 exI [of _ ?s1] exI [of _ s] exI [of _ state] exI [of _ scan] exI [of _ "?d scan now"]) simp
  qed
  show "ensures (collectDeficits (Quantities C) (Client C) quota (LastModified state) \<bind> (\<lambda>scan.
        time_Now (Client C) \<bind> (\<lambda>now. foldM publish (recordDecision (Quantities C) reqNS (Quota_Name quota) (Status_Hard quota) (?d scan now)) ()
          \<bind> (\<lambda>_. act_on_decision C reqNS quota annotations pol state (isl scan) (?d scan now)))))
     (\<lambda>r s'. decide_calls C reqNS quota annotations pol window r (s0 @ s'))"
  proof (rule ensures_bind [OF ensures_collectDeficits], rule ensures_ask_bind, rule ensures_bind [OF only_publish])
    fix scan now x and sc sp :: "'q call list"
    assume "collected quota (LastModified state) scan sc" and "list_all quiet sp"
    from act [OF this] show "ensures (act_on_decision C reqNS quota annotations pol state (isl scan) (?d scan now))
       (\<lambda>r s. decide_calls C reqNS quota annotations pol window r (s0 @ sc @ Clock now # sp @ s))" .
  qed
qed

lemma only_Observer_Observe:
  assumes R: "retries_on_conflict R"
  shows "only quiet (Observer_Observe Q E R J quota wd)"
proof -
  have m: "only quiet (MutateState E R ns q (\<lambda>s. return (f s)))" for ns q and f :: "LockState \<Rightarrow> LockState"
    by (rule ensures_weaken [OF ensures_MutateState [OF R, where F = "\<lambda>_ _ _. True"]])
       (auto intro: ensures_return mutate_calls_provider)
  have l: "only quiet (load_window E J ns q)" for ns q
    by (rule ensures_weaken [OF ensures_load_window]) auto
  have st: "only quiet (store_window k win)" "only quiet (alias_window k now uid wd win)" for k win now uid wd
    unfolding store_window_def alias_window_def by (auto intro!: ensures_modify split: option.split)
  show ?thesis
    unfolding Observer_Observe_def Let_def
    by (intro only_or_fail l only_bind ensures_prod ensures_if ensures_option m ensures_sum st ensures_return ensures_ask) simp_all
qed

fun is_event :: "'q call \<Rightarrow> bool" where
  "is_event (RecordEvent _ _ _ _ _) = True"
| "is_event _ = False"

definition reconcile_calls ::
  "('q, 'm) Reconciler \<Rightarrow> string \<Rightarrow> string \<Rightarrow> Result result \<Rightarrow> 'q call list \<Rightarrow> bool" where
  "reconcile_calls C reqNS reqName r s \<longleftrightarrow>
     (\<exists>e. s = [GetQuota reqNS reqName (Inl e)] \<and> (isl r \<or> err_is ((=) NotFound) e))
   \<or> (\<exists>quota e. s = [GetQuota reqNS reqName (Inr quota), GetNamespace reqNS (Inl e)] \<and> isl r)
   \<or> (\<exists>quota annotations t. s = GetQuota reqNS reqName (Inr quota) # GetNamespace reqNS (Inr annotations) # t
        \<and> (let pol = fst (ParsePolicy (Quantities C) annotations (BasePolicy C)) in
           if \<not> Enabled pol then list_all is_event t \<and> r = Inr finished
           else \<exists>s0 s1 window. t = s0 @ s1 \<and> list_all quiet s0 \<and> decide_calls C reqNS quota annotations pol window r s1))"

lemma only_warn: "only is_event (foldM (warn quota) ws ())"
  by (rule only_foldM) (auto simp: warn_def intro!: ensures_ask ensures_return)

lemma ensures_Reconcile:
  fixes C :: "('q, 'm) Reconciler"
  assumes R: "retries_on_conflict (Retry C)"
  shows "ensures (Reconcile C reqNS reqName) (reconcile_calls C reqNS reqName)"
  unfolding Reconcile_def Let_def
proof (intro ensures_ask_bind ensures_sum ensures_if ensures_ask_or_fail ensures_prod)
  fix q :: "'q ResourceQuota result" and quota :: "'q ResourceQuota" and annotations :: "string smap" and pol :: "'q policy" and ws
  assume q: "q = Inr quota" and p: "ParsePolicy (Quantities C) annotations (BasePolicy C) = (pol, ws)"
  show "ensures (foldM (warn quota) ws () \<bind> (\<lambda>_. if \<not> Enabled pol then return (Inr finished)
         else or_fail (Observer_Observe (Quantities C) (Client C) (Retry C) (Codec C) quota (WindowDays pol))
                (decide_and_act C reqNS quota annotations pol)))
     (\<lambda>r s. reconcile_calls C reqNS reqName r (GetQuota reqNS reqName q # GetNamespace reqNS (Inr annotations) # s))"
  proof (rule ensures_bind [OF only_warn], rule ensures_if)
    fix s :: "'q call list" assume "list_all is_event s" and "\<not> Enabled pol"
    then show "ensures (return (Inr finished)) (\<lambda>y s'. reconcile_calls C reqNS reqName y
        (GetQuota reqNS reqName q # GetNamespace reqNS (Inr annotations) # s @ s'))"
      by (intro ensures_return) (auto simp: reconcile_calls_def q p)
  next
    fix s :: "'q call list" assume w: "list_all is_event s" and en: "\<not> \<not> Enabled pol"
    have q0: "list_all quiet s" using w by (auto simp: list_all_iff elim!: is_event.elims(2))
    have goal: "reconcile_calls C reqNS reqName r (GetQuota reqNS reqName q # GetNamespace reqNS (Inr annotations) # s @ s0 @ s1)"
      if "list_all quiet s0" "decide_calls C reqNS quota annotations pol window r s1" for s0 s1 r window
    proof -
      have "\<exists>a b window. s @ s0 @ s1 = a @ b \<and> list_all quiet a \<and> decide_calls C reqNS quota annotations pol window r b"
        by (rule exI [of _ "s @ s0"], rule exI [of _ s1], rule exI [of _ window]) (use that q0 in simp)
      then show ?thesis
        unfolding reconcile_calls_def Let_def
        by (intro disjI2, intro exI [of _ quota] exI [of _ annotations] exI [of _ "s @ s0 @ s1"]) (use en in \<open>simp add: q p\<close>)
    qed
    show "ensures (or_fail (Observer_Observe (Quantities C) (Client C) (Retry C) (Codec C) quota (WindowDays pol))
                (decide_and_act C reqNS quota annotations pol)) (\<lambda>y s'. reconcile_calls C reqNS reqName y
        (GetQuota reqNS reqName q # GetNamespace reqNS (Inr annotations) # s @ s'))"
    proof (rule ensures_or_fail [OF only_Observer_Observe [OF R]])
      fix e and s0 :: "'q call list" assume "list_all quiet s0"
      from goal [OF this, of undefined "Inl e" "[]"] show "reconcile_calls C reqNS reqName (Inl e)
          (GetQuota reqNS reqName q # GetNamespace reqNS (Inr annotations) # s @ s0)" by (simp add: decide_calls_def)
    next
      fix window and s0 :: "'q call list" assume s0: "list_all quiet s0"
      show "ensures (decide_and_act C reqNS quota annotations pol window) (\<lambda>y s'. reconcile_calls C reqNS reqName y
          (GetQuota reqNS reqName q # GetNamespace reqNS (Inr annotations) # s @ s0 @ s'))"
        by (rule ensures_weaken [OF ensures_decide_and_act [OF R]]) (rule goal [OF s0])
    qed
  qed
qed (auto simp: reconcile_calls_def Forget_def intro!: ensures_return ensures_bind_return ensures_modify)

end
