(* ===== verification/Crash.thy ===== *)
theory Crash
  imports Effects "HOL-Library.Sublist"
begin

text \<open>
  A Hoare logic for programs that may be killed. \<open>triple I P m Q\<close>: when the history of calls
  satisfies \<open>I\<close> and \<open>P\<close>, then \<open>m\<close> extends it, \<open>I\<close> holds after every single call, and the result
  and the final history satisfy \<open>Q\<close>. Unlike in \<^const>\<open>ensures\<close>, assertions see the whole history, and
  with it what the environment answers. A program killed after any of its calls leaves \<open>I\<close> behind.
\<close>

definition triple :: "('e list \<Rightarrow> bool) \<Rightarrow> ('e list \<Rightarrow> bool) \<Rightarrow> ('e, 'm, 'a) io \<Rightarrow> ('a \<Rightarrow> 'e list \<Rightarrow> bool) \<Rightarrow> bool" where
  "triple I P m Q \<longleftrightarrow> (\<forall>w. I (calls w) \<longrightarrow> P (calls w) \<longrightarrow>
     (\<exists>s. calls (snd (run_state m w)) = calls w @ s \<and> (\<forall>p. prefix p s \<longrightarrow> I (calls w @ p)) \<and> Q (fst (run_state m w)) (calls w @ s)))"

lemma tripleI:
  assumes "\<And>w. I (calls w) \<Longrightarrow> P (calls w) \<Longrightarrow> \<exists>s. calls (snd (run_state m w)) = calls w @ s
    \<and> (\<forall>p. prefix p s \<longrightarrow> I (calls w @ p)) \<and> Q (fst (run_state m w)) (calls w @ s)"
  shows "triple I P m Q"
  using assms unfolding triple_def by blast

lemma tripleE:
  assumes "triple I P m Q" and "run_state m w = (r, w')" and "I (calls w)" and "P (calls w)"
  obtains s where "calls w' = calls w @ s" "\<And>p. prefix p s \<Longrightarrow> I (calls w @ p)" "I (calls w')" "Q r (calls w')"
  using assms unfolding triple_def by (metis fst_conv snd_conv prefix_order.refl)

text \<open>A run that was killed in between.\<close>

lemma triple_between:
  assumes "triple I P m Q" and "run_state m w = (r, w')" and "I (calls w)" and "P (calls w)"
    and "prefix (calls w) t" and "prefix t (calls w')"
  shows "I t"
proof -
  from tripleE [OF assms(1-4)] obtain s where s: "calls w' = calls w @ s" "\<And>p. prefix p s \<Longrightarrow> I (calls w @ p)" by metis
  obtain p where p: "t = calls w @ p" using assms(5) by (rule prefixE)
  with assms(6) s(1) have "prefix p s" by simp
  with p s(2) show ?thesis by simp
qed

section \<open>Rules\<close>

lemma triple_conseq:
  assumes "triple I P' m Q'" and "\<And>t. I t \<Longrightarrow> P t \<Longrightarrow> P' t" and "\<And>r t. I t \<Longrightarrow> Q' r t \<Longrightarrow> Q r t"
  shows "triple I P m Q"
proof (rule tripleI)
  fix w :: "('a, 'b) world_scheme"
  assume i: "I (calls w)" "P (calls w)"
  obtain r w' where r: "run_state m w = (r, w')" by force
  from tripleE [OF assms(1) r i(1) assms(2) [OF i]] assms(3) r
  show "\<exists>s. calls (snd (run_state m w)) = calls w @ s \<and> (\<forall>p. prefix p s \<longrightarrow> I (calls w @ p)) \<and> Q (fst (run_state m w)) (calls w @ s)"
    by (metis fst_conv snd_conv)
qed

lemma triple_pre: "triple I P' m Q \<Longrightarrow> (\<And>t. I t \<Longrightarrow> P t \<Longrightarrow> P' t) \<Longrightarrow> triple I P m Q"
  by (rule triple_conseq)

lemma triple_post: "triple I P m Q' \<Longrightarrow> (\<And>r t. I t \<Longrightarrow> Q' r t \<Longrightarrow> Q r t) \<Longrightarrow> triple I P m Q"
  by (rule triple_conseq)

lemma triple_assume: "(b \<Longrightarrow> triple I P m Q) \<Longrightarrow> triple I (\<lambda>t. b \<and> P t) m Q"
  unfolding triple_def by blast

lemma triple_return: "(\<And>t. I t \<Longrightarrow> P t \<Longrightarrow> Q a t) \<Longrightarrow> triple I P (return a) Q"
  by (rule tripleI) (auto intro!: exI [of _ "[]"])

lemma triple_ask:
  assumes "\<And>t. I t \<Longrightarrow> P t \<Longrightarrow> I (t @ [entry (answer t)]) \<and> Q (answer t) (t @ [entry (answer t)])"
  shows "triple I P (ask answer entry) Q"
proof (rule tripleI)
  fix w :: "('a, 'c) world_scheme"
  assume i: "I (calls w)" "P (calls w)"
  from assms [OF i] i(1)
  show "\<exists>s. calls (snd (run_state (ask answer entry) w)) = calls w @ s \<and> (\<forall>p. prefix p s \<longrightarrow> I (calls w @ p))
      \<and> Q (fst (run_state (ask answer entry) w)) (calls w @ s)"
    by (intro exI [of _ "[entry (answer (calls w))]"]) (auto simp: prefix_Cons)
qed

lemma triple_bind:
  assumes m: "triple I P m R" and f: "\<And>x. triple I (R x) (f x) Q"
  shows "triple I P (m \<bind> f) Q"
proof (rule tripleI)
  fix w :: "('a, 'b) world_scheme"
  assume i: "I (calls w)" "P (calls w)"
  obtain x w1 where r1: "run_state m w = (x, w1)" by force
  obtain y w2 where r2: "run_state (f x) w1 = (y, w2)" by force
  from tripleE [OF m r1 i] obtain s where s: "calls w1 = calls w @ s" "\<And>p. prefix p s \<Longrightarrow> I (calls w @ p)" "I (calls w1)" "R x (calls w1)" by metis
  from tripleE [OF f r2 s(3,4)] obtain u where u: "calls w2 = calls w1 @ u" "\<And>p. prefix p u \<Longrightarrow> I (calls w1 @ p)" "Q y (calls w2)" by metis
  show "\<exists>s. calls (snd (run_state (m \<bind> f) w)) = calls w @ s \<and> (\<forall>p. prefix p s \<longrightarrow> I (calls w @ p)) \<and> Q (fst (run_state (m \<bind> f) w)) (calls w @ s)"
  proof (intro exI [of _ "s @ u"] conjI allI impI)
    fix p assume "prefix p (s @ u)"
    then show "I (calls w @ p)" using s(1,2) u(2) by (auto simp: prefix_append)
  qed (use r1 r2 s u in simp_all)
qed

lemma triple_or_fail:
  assumes "triple I P m R" and "\<And>e t. I t \<Longrightarrow> R (Inl e) t \<Longrightarrow> Q (Inl e) t" and "\<And>x. triple I (R (Inr x)) (f x) Q"
  shows "triple I P (or_fail m f) Q"
  unfolding or_fail_def
  by (rule triple_bind [OF assms(1)]) (auto split: sum.split intro: triple_return assms(2,3))

lemma triple_if: "(b \<Longrightarrow> triple I P m Q) \<Longrightarrow> (\<not> b \<Longrightarrow> triple I P n Q) \<Longrightarrow> triple I P (if b then m else n) Q"
  by simp

lemma triple_sum:
  "(\<And>e. r = Inl e \<Longrightarrow> triple I P (m e) Q) \<Longrightarrow> (\<And>x. r = Inr x \<Longrightarrow> triple I P (n x) Q)
    \<Longrightarrow> triple I P (case r of Inl e \<Rightarrow> m e | Inr x \<Rightarrow> n x) Q"
  by (cases r) simp_all

lemma triple_option:
  "(r = None \<Longrightarrow> triple I P m Q) \<Longrightarrow> (\<And>x. r = Some x \<Longrightarrow> triple I P (n x) Q)
    \<Longrightarrow> triple I P (case r of None \<Rightarrow> m | Some x \<Rightarrow> n x) Q"
  by (cases r) simp_all

lemma triple_prod: "(\<And>x y. r = (x, y) \<Longrightarrow> triple I P (m x y) Q) \<Longrightarrow> triple I P (case r of (x, y) \<Rightarrow> m x y) Q"
  by (cases r) simp

lemma triple_look: "triple I P (look f) (\<lambda>_. P)"
  by (rule tripleI) (auto intro!: exI [of _ "[]"])

lemma triple_modify: "(\<And>w. calls (f w) = calls w) \<Longrightarrow> triple I P (modify f) (\<lambda>_. P)"
  by (rule tripleI) (auto intro!: exI [of _ "[]"])

lemma triple_retry:
  assumes "retries_on_conflict R" and "triple I P m Q" and "\<And>t. I t \<Longrightarrow> Q (Inl Conflict) t \<Longrightarrow> P t"
  shows "triple I P (R m) Q"
proof -
  obtain n where n: "\<And>m. R m = attempts n m" using assms(1) unfolding retries_on_conflict_def by blast
  have "triple I P (attempts n m) Q" for n
  proof (induction n)
    case (Suc n)
    have "triple I (Q x) (if x = Inl Conflict then attempts n m else return x) Q" for x
      by (rule triple_if) (auto intro: triple_return triple_pre [OF Suc] assms(3))
    then show ?case by (simp add: triple_bind [OF assms(2)])
  qed (simp add: assms(2))
  then show ?thesis by (simp add: n)
qed

section \<open>Calls of a kind\<close>

text \<open>A program that makes only calls that keep \<open>I\<close> and \<open>P\<close>, whatever their answers.\<close>

definition stays :: "('e \<Rightarrow> bool) \<Rightarrow> ('e list \<Rightarrow> bool) \<Rightarrow> bool" where
  "stays A P \<longleftrightarrow> (\<forall>t e. P t \<longrightarrow> A e \<longrightarrow> P (t @ [e]))"

lemma staysD: "stays A P \<Longrightarrow> P t \<Longrightarrow> A e \<Longrightarrow> P (t @ [e])"
  unfolding stays_def by blast

lemma stays_append: "stays A P \<Longrightarrow> list_all A s \<Longrightarrow> P t \<Longrightarrow> P (t @ s)"
  by (induction s arbitrary: t rule: rev_induct) (auto dest: staysD simp flip: append_assoc)

lemma stays_conj: "stays A P \<Longrightarrow> stays A Q \<Longrightarrow> stays A (\<lambda>t. P t \<and> Q t)"
  unfolding stays_def by blast

lemma stays_const: "stays A (\<lambda>_. b)"
  unfolding stays_def by blast

lemma stays_all: "stays (\<lambda>_. True) P \<Longrightarrow> stays A P"
  unfolding stays_def by blast

lemma triple_ensures:
  assumes "ensures m (\<lambda>r s. list_all A s \<and> R r)" and "stays A I" and "stays A P"
  shows "triple I P m (\<lambda>r t. P t \<and> R r)"
proof (rule tripleI)
  fix w :: "('a, 'b) world_scheme"
  assume i: "I (calls w)" "P (calls w)"
  obtain r w' where r: "run_state m w = (r, w')" by force
  from ensuresD [OF assms(1) r] obtain s where s: "calls w' = calls w @ s" "list_all A s" "R r" by blast
  have "list_all A p" if "prefix p s" for p using s(2) that by (auto simp: prefix_def)
  then show "\<exists>s. calls (snd (run_state m w)) = calls w @ s \<and> (\<forall>p. prefix p s \<longrightarrow> I (calls w @ p)) \<and> P (calls w @ s) \<and> R (fst (run_state m w))"
    using s r i stays_append [OF assms(2)] stays_append [OF assms(3)] by (intro exI [of _ s]) auto
qed

lemma triple_only:
  assumes "only A m" and "stays A I" and "stays A P"
  shows "triple I P m (\<lambda>_. P)"
  using triple_ensures [of m A "\<lambda>_. True" I P] assms by simp

lemma triple_ask_kept:
  assumes "\<And>r. A (entry r)" and "stays A I" and "stays A P"
  shows "triple I P (ask answer entry) (\<lambda>r t. P t)"
  by (rule triple_ask) (use assms in \<open>auto intro: staysD\<close>)

end
