(* ===== verification/Guarded.thy ===== *)
theory Guarded
  imports Reconcile_Safety Crash
begin

text \<open>
  The reconciler in a world that keeps its promises. Elsewhere the environment may answer anything;
  here the answers are related to what was written before. \<open>guarded\<close> lists what the reconciler needs
  of a property \<open>inv\<close> of the history so that it holds after every call of every reconciliation: also
  when the process is killed in between, and whatever it remembers when it is started again.
  \<open>proper t i d\<close> says that pull request \<open>i\<close> really has direction \<open>d\<close>, \<open>vacant t ns q\<close> that the quota has
  no open pull request, \<open>valid\<close> is the syntax of names.
\<close>

fun is_create :: "'q call \<Rightarrow> bool" where
  "is_create (CreatePR _ _ _ _ _ _) = True"
| "is_create _ = False"

text \<open>Calls that write, but neither to a Lease that exists nor by merging or creating a pull request.\<close>

fun mild :: "'q call \<Rightarrow> bool" where
  "mild (CreateLease l _) \<longleftrightarrow> PRID (stateFromLease l) = 0"
| "mild (UpdateLease _ _) = False"
| "mild (MergePR _ _ _) = False"
| "mild (CreatePR _ _ _ _ _ _) = False"
| "mild _ = True"

lemma mild_read: "\<not> writes e \<Longrightarrow> mild e"
  by (cases e) simp_all

lemma mild_create: "mild e \<Longrightarrow> \<not> is_create e"
  by (cases e) simp_all

lemma newLease_free: "PRID (stateFromLease (newLease ns q)) = 0"
  by (simp add: stateFromLease_def newLease_def)

text \<open>A number is read back as it was written, or, when it is no \<^verbatim>\<open>int\<close>, not at all.\<close>

lemma read_int_range: "\<not> in64 i \<Longrightarrow> \<not> is_digit s \<Longrightarrow> read_int (itoa i @ s) = None"
  by (simp add: read_int_def itoa_def read_sign_digit digits10_is_digit read_digits_digits10 read_digits_stop)

lemma Sscanf_pr_written: "Sscanf_pr (''pr-'' @ itoa n) = (if in64 n then Some n else None)"
proof (cases "in64 n")
  case False
  obtain c t where c: "itoa n = c # t" "CHR 0x21 \<le> c" "c \<le> CHR 0x7E" using itoa_Cons by blast
  have w: "no_plain_start (filter (\<lambda>w. w \<noteq> [CHR 0x0A]) space_runes)" by code_simp
  show ?thesis
    using read_int_range [OF False, of "[]"] trim_left_plain [OF w c(2,3)] c(1) False by (simp add: Sscanf_pr_def HasPrefix_def Let_def)
qed (use Sscanf_pr_itoa [of n] in simp)

lemma applyStateToLease_lock:
  "PRID (stateFromLease (applyStateToLease st l)) \<in> {0, PRID st}"
  "PRDirection (stateFromLease (applyStateToLease st l)) = PRDirection st"
  using Sscanf_pr_written [of "PRID st"]
  by (simp_all add: stateFromLease_def applyStateToLease_def Let_def annotation_names)

text \<open>
  Everything the controller may leave behind: reconciliations and garbage collections, one after
  the other, each killed after any number of its calls (the last history is a prefix of a complete
  one) or run to its end; the memory a process starts with is arbitrary.
\<close>

inductive session :: "('q, 'm) Reconciler \<Rightarrow> (string \<Rightarrow> bool) \<Rightarrow> 'q call list \<Rightarrow> bool" for C valid where
  start: "session C valid []"
| reconcile: "session C valid (calls w) \<Longrightarrow> valid ns \<Longrightarrow> valid name \<Longrightarrow> run_state (Reconcile C ns name) w = (r, w') \<Longrightarrow>
    prefix (calls w) t \<Longrightarrow> prefix t (calls w') \<Longrightarrow> session C valid t"
| collect: "session C valid (calls w) \<Longrightarrow> run_state (cleanup (Client C)) (w :: ('q, 'm) controller_scheme) = (r, w') \<Longrightarrow>
    prefix (calls w) t \<Longrightarrow> prefix t (calls w') \<Longrightarrow> session C valid t"

lemma only_mild_cleanup: "only mild (cleanup E)"
proof -
  have "only mild (gc_lease E l a)" for l a
    unfolding gc_lease_def Let_def by (intro ensures_intro) auto
  then show ?thesis
    unfolding cleanup_def by (intro only_or_fail only_bind only_foldM ensures_ask ensures_return) simp_all
qed

text \<open>What every call of every run satisfies, every call of a session satisfies.\<close>

lemma session_only:
  assumes "session C valid t" and "\<And>ns name. only A (Reconcile C ns name)" and "\<And>e. mild e \<Longrightarrow> A e"
  shows "list_all A t"
  using assms(1)
proof (induction rule: session.induct)
  case (reconcile w ns name r w' t)
  from ensuresD [OF assms(2) reconcile.hyps(4)] obtain s where "calls w' = calls w @ s" "list_all A s" by blast
  with reconcile.IH reconcile.hyps(6) show ?case by (metis list_all_append prefix_def)
next
  case (collect w r w' t)
  from ensuresD [OF only_mild_cleanup collect.hyps(2)] obtain s where "calls w' = calls w @ s" "list_all mild s" by blast
  with collect.IH collect.hyps(4) assms(3) show ?case by (metis list_all_append list_all_iff prefix_def)
qed simp

text \<open>A complete run from an empty history is a session.\<close>

lemma session_run: "valid ns \<Longrightarrow> valid name \<Longrightarrow> calls w = [] \<Longrightarrow> session C valid (calls (snd (run_state (Reconcile C ns name) w)))"
  by (rule session.reconcile [of C valid w ns name "fst (run_state (Reconcile C ns name) w)" "snd (run_state (Reconcile C ns name) w)"])
     (simp_all add: session.start)

locale guarded =
  fixes E :: "'q client" and inv :: "'q call list \<Rightarrow> bool" and proper :: "'q call list \<Rightarrow> int \<Rightarrow> string \<Rightarrow> bool"
    and vacant :: "'q call list \<Rightarrow> string \<Rightarrow> string \<Rightarrow> bool" and valid :: "string \<Rightarrow> bool"
  assumes proper_stays: "proper t i d \<Longrightarrow> proper (t @ [e]) i d"
    and vacant_stays: "vacant t ns q \<Longrightarrow> \<not> is_create e \<Longrightarrow> vacant (t @ [e]) ns q"
    and inv_mild: "inv t \<Longrightarrow> mild e \<Longrightarrow> inv (t @ [e])"
    and inv_update: "inv t \<Longrightarrow> PRID (stateFromLease l) = 0 \<or> proper t (PRID (stateFromLease l)) (PRDirection (stateFromLease l))
      \<Longrightarrow> inv (t @ [UpdateLease l c])"
    and inv_merge: "inv t \<Longrightarrow> proper t i d \<Longrightarrow> d \<noteq> ''shrink'' \<Longrightarrow> inv (t @ [MergePR i how c])"
    and lease_read: "inv t \<Longrightarrow> lease_of E t n m = Inr l \<Longrightarrow>
      PRID (stateFromLease l) = 0 \<or> proper t (PRID (stateFromLease l)) (PRDirection (stateFromLease l))"
    and found: "inv t \<Longrightarrow> valid ns \<Longrightarrow> valid q \<Longrightarrow> pr_found E t ns q = Inr (i, d) \<Longrightarrow> if i = 0 then vacant t ns q else proper t i d"
    and created: "inv t \<Longrightarrow> valid ns \<Longrightarrow> valid q \<Longrightarrow> vacant t ns q \<Longrightarrow> d \<in> {''grow'', ''shrink''} \<Longrightarrow>
      inv (t @ [CreatePR q ns d a ls (pr_created E t q ns d a ls)])
      \<and> (\<forall>i. pr_created E t q ns d a ls = Inr i \<longrightarrow> proper (t @ [CreatePR q ns d a ls (Inr i)]) i d)"
    and quota_valid: "valid q \<Longrightarrow> quota_of E t ns q = Inr quota \<Longrightarrow> valid (Quota_Name quota)"
begin

definition lock_ok :: "LockState \<Rightarrow> 'q call list \<Rightarrow> bool" where
  "lock_ok st t \<longleftrightarrow> PRID st = 0 \<or> proper t (PRID st) (PRDirection st)"

text \<open>What no call but the creation of a pull request can undo.\<close>

abbreviation kept :: "('q call list \<Rightarrow> bool) \<Rightarrow> bool" where
  "kept P \<equiv> stays (\<lambda>e. \<not> is_create e) P"

lemma kept_lock_ok [simp]: "kept (lock_ok st)"
  unfolding stays_def lock_ok_def by (auto intro: proper_stays)

lemma kept_proper [simp]: "kept (\<lambda>t. proper t i d)"
  unfolding stays_def by (auto intro: proper_stays)

lemma kept_vacant [simp]: "kept (\<lambda>t. vacant t ns q)"
  unfolding stays_def by (auto intro: vacant_stays)

lemma stays_inv: "stays mild inv"
  unfolding stays_def by (auto intro: inv_mild)

lemma stays_mild: "kept P \<Longrightarrow> stays mild P"
  unfolding stays_def using mild_create by blast

lemma triple_mild: "(\<And>r. mild (entry r)) \<Longrightarrow> kept P \<Longrightarrow> triple inv P (ask answer entry) (\<lambda>_. P)"
  by (rule triple_ask_kept [where A = mild]) (simp_all add: stays_inv stays_mild)

lemma triple_reads:
  assumes "only (\<lambda>e. \<not> writes e) m" and "kept P"
  shows "triple inv P m (\<lambda>_. P)"
  by (rule triple_only [OF ensures_weaken [OF assms(1)] stays_inv stays_mild [OF assms(2)]])
     (auto simp: list_all_iff mild_read)

section \<open>The lock operations\<close>

lemma triple_getLease:
  assumes "kept P"
  shows "triple inv P (getLease E n m) (\<lambda>r t. (\<forall>l. r = Inr l \<longrightarrow> lock_ok (stateFromLease l) t) \<and> P t)"
proof (rule triple_ask)
  fix t assume t: "inv t" "P t"
  have "lock_ok (stateFromLease l) (t @ [e])" if "lease_of E t n m = Inr l" for l e
    using lease_read [OF t(1) that] by (auto simp: lock_ok_def intro: proper_stays)
  with t show "inv (t @ [GetLease n m (lease_of E t n m)]) \<and> ((\<forall>l. lease_of E t n m = Inr l \<longrightarrow>
      lock_ok (stateFromLease l) (t @ [GetLease n m (lease_of E t n m)])) \<and> P (t @ [GetLease n m (lease_of E t n m)]))"
    by (auto intro: inv_mild staysD [OF assms])
qed

lemma triple_GetState:
  assumes "kept P"
  shows "triple inv P (GetState E ns q) (\<lambda>r t. (\<forall>st. r = Inr st \<longrightarrow> lock_ok st t) \<and> P t)"
  unfolding GetState_def
  by (rule triple_bind [OF triple_getLease [OF assms]], rule triple_sum)
     (auto intro!: triple_if triple_return simp: lock_ok_def zeroState_def)

lemma triple_updateLease:
  assumes "kept P"
  shows "triple inv (\<lambda>t. lock_ok st t \<and> P t) (updateLease E (applyStateToLease st l)) (\<lambda>_. P)"
proof (rule triple_ask)
  fix t assume i: "inv t" and t: "lock_ok st t \<and> P t"
  then show "inv (t @ [UpdateLease (applyStateToLease st l) (lease_updated E t (applyStateToLease st l))])
      \<and> P (t @ [UpdateLease (applyStateToLease st l) (lease_updated E t (applyStateToLease st l))])"
    using applyStateToLease_lock [of st l] staysD [OF assms]
    by (auto simp: lock_ok_def intro!: inv_update)
qed

lemma triple_mutate_once:
  assumes P: "kept P" and fn: "\<And>st. triple inv (\<lambda>t. lock_ok st t \<and> P t) (fn st) (\<lambda>st' t. lock_ok st' t \<and> P t)"
  shows "triple inv P (mutate_once E ns q fn) (\<lambda>_. P)"
  unfolding mutate_once_def
  by (rule triple_or_fail [OF triple_getLease [OF P]]) (auto intro!: triple_bind [OF fn triple_updateLease [OF P]])

lemma triple_ensureLeaseExists: "kept P \<Longrightarrow> triple inv P (ensureLeaseExists E ns q) (\<lambda>_. P)"
  unfolding ensureLeaseExists_def
  by (intro triple_bind [OF triple_mild] triple_sum triple_if triple_return) (simp_all add: newLease_free)

lemma triple_MutateState:
  assumes "retries_on_conflict R" and "kept P" and "\<And>st. triple inv (\<lambda>t. lock_ok st t \<and> P t) (fn st) (\<lambda>st' t. lock_ok st' t \<and> P t)"
  shows "triple inv P (MutateState E R ns q fn) (\<lambda>_. P)"
  unfolding MutateState_def
  by (rule triple_or_fail [OF triple_ensureLeaseExists [OF assms(2)]])
     (auto intro: triple_retry [OF assms(1)] triple_mutate_once [OF assms(2,3)])

text \<open>The function of the caller is pure in most places.\<close>

lemma triple_mutate_pure:
  assumes "retries_on_conflict R" and "kept P" and "\<And>st t. lock_ok st t \<Longrightarrow> P t \<Longrightarrow> lock_ok (f st) t"
  shows "triple inv P (MutateState E R ns q (\<lambda>st. return (f st))) (\<lambda>_. P)"
  by (rule triple_MutateState [OF assms(1,2)]) (auto intro!: triple_return assms(3))

section \<open>Reading and observing\<close>

lemma reads_collectDeficits: "only (\<lambda>e. \<not> writes e) (collectDeficits Q F quota since)"
  by (rule ensures_weaken [OF ensures_collectDeficits]) (auto simp: collected_def list_all_iff split: sum.splits)

lemma reads_publish: "only (\<lambda>e. \<not> writes e) (foldM publish ops ())"
  by (rule only_foldM) (auto simp: publish_def intro: ensures_ask)

lemma reads_warn: "only (\<lambda>e. \<not> writes e) (foldM (warn quota) ws ())"
  by (rule ensures_weaken [OF only_warn]) (auto simp: list_all_iff elim!: is_event.elims(2))

lemma reads_recommend: "only (\<lambda>e. \<not> writes e) (foldM (recommend_event Q quota dir) ts ())"
  by (rule ensures_weaken [OF ensures_recommend]) (auto simp: list_all_iff)

lemma triple_load_window: "triple inv (\<lambda>_. True) (load_window E J ns q) (\<lambda>_ _. True)"
  unfolding load_window_def
  by (intro triple_bind [OF triple_look] triple_option triple_return triple_or_fail [OF triple_GetState]) (simp_all add: stays_const)

lemma triple_Observe:
  assumes R: "retries_on_conflict R"
  shows "triple inv (\<lambda>_. True) (Observer_Observe Q E R J quota wd) (\<lambda>_ _. True)"
proof -
  have m: "triple inv (\<lambda>_. True) (MutateState E R ns q (\<lambda>s. return (s\<lparr>State_Window := x\<rparr>))) (\<lambda>_ _. True)" for ns q x
    by (rule triple_mutate_pure [OF R]) (auto simp: lock_ok_def stays_const)
  have st: "triple inv (\<lambda>_. True) (store_window k win \<bind> (\<lambda>_. return r)) (\<lambda>_ _. True)"
    "triple inv (\<lambda>_. True) (alias_window k now uid wd win \<bind> (\<lambda>_. return r)) (\<lambda>_ _. True)" for k win now uid r
    unfolding store_window_def alias_window_def
    by (auto intro!: triple_bind [OF triple_modify] triple_return split: option.split)
  show ?thesis
    unfolding Observer_Observe_def Let_def
    by (intro triple_or_fail [OF triple_load_window] triple_bind [OF triple_mild] triple_prod triple_if triple_option
        triple_bind [OF m] triple_sum st) (simp_all add: stays_const)
qed

section \<open>The handlers\<close>

lemma triple_update_open_pr: "triple inv (\<lambda>_. True) (update_open_pr E ns quota annotations prID d) (\<lambda>_ _. True)"
  unfolding update_open_pr_def
  by (cases "Direction_of d") (auto intro!: triple_bind [OF triple_mild] triple_sum triple_if triple_return simp: stays_const)

lemma triple_release:
  assumes "retries_on_conflict R" and "\<And>st. PRID (f st) = 0"
  shows "triple inv (\<lambda>_. True) (or_fail (MutateState E R ns q (\<lambda>st. return (f st))) (\<lambda>_. return x)) (\<lambda>_ _. True)"
  by (intro triple_or_fail [OF triple_mutate_pure [OF assms(1)]] triple_return) (simp_all add: assms(2) lock_ok_def stays_const)

lemma triple_try_auto_merge:
  assumes R: "retries_on_conflict (Retry C)" and C: "Client C = E" and cont: "triple inv (\<lambda>_. True) continue (\<lambda>_ _. True)"
    and i: "PRID state \<noteq> 0"
  shows "triple inv (lock_ok state) (try_auto_merge C ns quota annotations state status continue) (\<lambda>_ _. True)"
proof -
  have n: "triple inv P continue (\<lambda>_ _. True)" for P by (rule triple_pre [OF cont]) simp
  have "triple inv (lock_ok state) (ask (\<lambda>t. pr_merged E t (PRID state) ''squash'') (MergePR (PRID state) ''squash'')) (\<lambda>_ _. True)"
    if "PRDirection state \<noteq> ''shrink''"
    by (rule triple_ask) (use that i in \<open>auto simp: lock_ok_def intro: inv_merge\<close>)
  then show ?thesis
    unfolding try_auto_merge_def Let_def C
    by (auto intro!: triple_if triple_return n triple_bind triple_sum triple_mild triple_release [OF R] simp: stays_const)
qed

lemma triple_shrinkPRShouldClose: "kept P \<Longrightarrow> triple inv P (shrinkPRShouldClose E pol status d) (\<lambda>_. P)"
  unfolding shrinkPRShouldClose_def
  by (auto intro!: triple_if triple_return triple_bind [OF triple_mild])

lemma triple_handleActivePR:
  assumes R: "retries_on_conflict (Retry C)" and C: "Client C = E" and i: "PRID state \<noteq> 0"
  shows "triple inv (lock_ok state) (handleActivePR C ns quota annotations pol state d) (\<lambda>_ _. True)"
proof -
  note merge = triple_try_auto_merge [OF R C triple_update_open_pr i]
  have close: "triple inv (lock_ok state) (if b then m else try_auto_merge C ns quota annotations state status
      (update_open_pr E ns quota annotations (PRID state) d)) (\<lambda>_ _. True)"
    if "triple inv (\<lambda>_. True) m (\<lambda>_ _. True)" for b m status
    by (intro triple_if merge triple_pre [OF that]) simp
  show ?thesis
    unfolding handleActivePR_def Let_def C
    by (intro triple_or_fail [OF triple_mild] triple_if triple_pre [OF triple_bind [OF triple_mild [where P = "\<lambda>_. True"]]]
        triple_bind [OF triple_shrinkPRShouldClose] triple_prod close triple_release [OF R] merge
        triple_or_fail [OF triple_mild] triple_bind [OF triple_mild])
      (simp_all add: release_closed_def Let_def stays_const)
qed

lemma triple_create_pr:
  assumes R: "retries_on_conflict (Retry C)" and C: "Client C = E" and v: "valid ns" "valid (Quota_Name quota)"
    and d: "Direction_of d \<noteq> DirectionNone"
  shows "triple inv (\<lambda>t. vacant t ns (Quota_Name quota)) (create_pr C ns quota annotations d) (\<lambda>_ _. True)"
proof -
  let ?dir = "Direction_String (Direction_of d)"
  have dir: "?dir \<in> {''grow'', ''shrink''}" using d by (cases "Direction_of d") simp_all
  have ask: "triple inv (\<lambda>t. vacant t ns (Quota_Name quota))
      (ask (\<lambda>t. pr_created E t (Quota_Name quota) ns ?dir annotations (Targets d)) (CreatePR (Quota_Name quota) ns ?dir annotations (Targets d)))
      (\<lambda>r t. \<forall>i. r = Inr i \<longrightarrow> proper t i ?dir)"
    by (rule triple_ask) (use created [OF _ v _ dir] in auto)
  have store: "triple inv (\<lambda>t. proper t i ?dir) (or_fail (MutateState E (Retry C) ns (Quota_Name quota) (\<lambda>s. do {
            now \<leftarrow> time_Now E;
            return (if Direction_of d = DirectionShrink
              then s\<lparr>PRID := i, PRDirection := ?dir, State_LastShrink := now\<rparr>
              else s\<lparr>PRID := i, PRDirection := ?dir, State_LastGrow := now\<rparr>) }))
          (\<lambda>_. return x)) (\<lambda>_ _. True)" for i x
    by (intro triple_or_fail [OF triple_MutateState [OF R]] triple_return triple_bind [OF triple_mild])
       (auto intro!: stays_conj simp: lock_ok_def [of "_\<lparr>PRID := _\<rparr>"] lock_ok_def [of "_\<lparr>PRDirection := _\<rparr>"]
          lock_ok_def [of "_\<lparr>State_LastShrink := _\<rparr>"] lock_ok_def [of "_\<lparr>State_LastGrow := _\<rparr>"])
  show ?thesis
    unfolding create_pr_def Let_def C
  proof (rule triple_bind [OF triple_reads [OF reads_recommend kept_vacant]], rule triple_bind [OF ask])
    fix r
    show "triple inv (\<lambda>t. \<forall>i. r = Inr i \<longrightarrow> proper t i ?dir)
      (case r of Inl err \<Rightarrow> if err_is ((=) ErrFileNotFound) err then return (Inr (after (1 * minute))) else return (Inl err)
       | Inr newPRID \<Rightarrow> or_fail (MutateState E (Retry C) ns (Quota_Name quota) (\<lambda>s. do {
            now \<leftarrow> time_Now E;
            return (if Direction_of d = DirectionShrink
              then s\<lparr>PRID := newPRID, PRDirection := ?dir, State_LastShrink := now\<rparr>
              else s\<lparr>PRID := newPRID, PRDirection := ?dir, State_LastGrow := now\<rparr>) }))
          (\<lambda>_. return (Inr (after (5 * minute))))) (\<lambda>_ _. True)"
      by (cases r) (auto intro: triple_return triple_pre [OF store])
  qed
qed

lemma triple_handleNewProposal:
  assumes R: "retries_on_conflict (Retry C)" and C: "Client C = E" and v: "valid ns" "valid (Quota_Name quota)"
    and d: "Direction_of d \<noteq> DirectionNone"
  shows "triple inv (\<lambda>_. True) (handleNewProposal C ns quota annotations pol state d) (\<lambda>_ _. True)"
proof -
  let ?q = "Quota_Name quota"
  note create = triple_create_pr [OF R C v d]
  have find: "triple inv (\<lambda>_. True) (ask (\<lambda>t. pr_found E t ns ?q) (FindOpenPR ns ?q))
      (\<lambda>r t. \<forall>i e. r = Inr (i, e) \<longrightarrow> (if i = 0 then vacant t ns ?q else proper t i e))"
  proof (rule triple_ask)
    fix t assume t: "inv t"
    then show "inv (t @ [FindOpenPR ns ?q (pr_found E t ns ?q)]) \<and> (\<forall>i e. pr_found E t ns ?q = Inr (i, e) \<longrightarrow>
        (if i = 0 then vacant (t @ [FindOpenPR ns ?q (pr_found E t ns ?q)]) ns ?q else proper (t @ [FindOpenPR ns ?q (pr_found E t ns ?q)]) i e))"
      using found [OF t v] by (auto intro!: inv_mild vacant_stays proper_stays split: if_splits)
  qed
  have adopt: "triple inv (\<lambda>t. proper t i e) (or_fail (MutateState E (Retry C) ns ?q (\<lambda>s. return (s\<lparr>PRID := i, PRDirection := e\<rparr>)))
      (\<lambda>_. return x)) (\<lambda>_ _. True)" for i e x
    by (intro triple_or_fail [OF triple_mutate_pure [OF R]] triple_return) (simp_all add: lock_ok_def)
  have open_new: "triple inv (\<lambda>t. vacant t ns ?q) (if isNoop (Quantities C) quota (Targets d) then return (Inr (after (10 * minute)))
       else if Direction_of d = DirectionGrow \<and> \<not> IsZero (LastModified state) then do {
         now \<leftarrow> time_Now E;
         let elapsed = Sub now (LastModified state) in
         if elapsed < GrowCooldown pol
         then return (Inr (after (wrap64 (wrap64 (GrowCooldown pol - elapsed) + 1 * second))))
         else create_pr C ns quota annotations d }
       else create_pr C ns quota annotations d) (\<lambda>_ _. True)"
    unfolding Let_def by (intro triple_if triple_return triple_bind [OF triple_mild] create) simp_all
  show ?thesis
    unfolding handleNewProposal_def Let_def C
    apply (rule triple_or_fail [OF find], simp)
    subgoal for x
      by (cases x, cases "fst x = 0") (simp_all add: triple_pre [OF adopt] triple_pre [OF open_new [unfolded Let_def]])
    done
qed

lemma triple_act_on_decision:
  assumes R: "retries_on_conflict (Retry C)" and C: "Client C = E" and v: "valid ns" "valid (Quota_Name quota)"
  shows "triple inv (lock_ok state) (act_on_decision C ns quota annotations pol state failed d) (\<lambda>_ _. True)"
  unfolding act_on_decision_def
  by (intro triple_if triple_return triple_handleActivePR [OF R C] triple_pre [OF triple_handleNewProposal [OF R C v]]) simp_all

lemma triple_decide_and_act:
  assumes R: "retries_on_conflict (Retry C)" and C: "Client C = E" and v: "valid ns" "valid (Quota_Name quota)"
  shows "triple inv (\<lambda>_. True) (decide_and_act C ns quota annotations pol window) (\<lambda>_ _. True)"
proof -
  note act = triple_act_on_decision [OF R C v]
  show ?thesis
    unfolding decide_and_act_def Let_def C
    apply (rule triple_or_fail [OF triple_GetState])
    subgoal by (rule stays_const)
    subgoal by simp
    subgoal for state
      by simp (intro triple_bind [OF triple_reads [OF reads_collectDeficits]] triple_bind [OF triple_mild]
        triple_bind [OF triple_reads [OF reads_publish]] act; simp)
    done
qed

lemma triple_Reconcile:
  assumes R: "retries_on_conflict (Retry C)" and C: "Client C = E" and v: "valid ns" "valid name"
  shows "triple inv (\<lambda>_. True) (Reconcile C ns name) (\<lambda>_ _. True)"
proof -
  have get: "triple inv (\<lambda>_. True) (getQuota E ns name) (\<lambda>r _. \<forall>quota. r = Inr quota \<longrightarrow> valid (Quota_Name quota))"
    by (rule triple_ask) (auto intro!: inv_mild quota_valid [OF v(2)])
  have rest: "triple inv (\<lambda>_. True) (or_fail (getNamespace E ns) (\<lambda>annotations.
           case ParsePolicy (Quantities C) annotations (BasePolicy C) of (pol, ws) \<Rightarrow> do {
             _ \<leftarrow> foldM (warn quota) ws ();
             if \<not> Enabled pol then return (Inr finished)
             else or_fail (Observer_Observe (Quantities C) E (Retry C) (Codec C) quota (WindowDays pol))
               (decide_and_act C ns quota annotations pol) })) (\<lambda>_ _. True)" if "valid (Quota_Name quota)" for quota
    by (intro triple_or_fail [OF triple_mild] triple_prod triple_bind [OF triple_reads [OF reads_warn]] triple_if triple_return
        triple_or_fail [OF triple_Observe [OF R]] triple_decide_and_act [OF R C]) (simp_all add: stays_const v that)
  have forget: "triple inv P (Forget ns name \<bind> (\<lambda>_. return x)) (\<lambda>_ _. True)" for P x
    unfolding Forget_def by (intro triple_bind [OF triple_modify] triple_return) simp_all
  show ?thesis
    unfolding Reconcile_def Let_def C
    apply (rule triple_bind [OF get])
    subgoal for r
    proof (cases r)
      case (Inl err)
      show ?thesis unfolding Inl sum.case by (intro triple_if forget triple_return) simp
    next
      case (Inr quota)
      from triple_assume [where b = "valid (Quota_Name quota)", OF rest] show ?thesis unfolding Inr by simp
    qed
    done
qed

lemma triple_cleanup: "triple inv (\<lambda>_. True) (cleanup E) (\<lambda>_ _. True)"
  by (rule triple_only [OF only_mild_cleanup stays_inv stays_const])

text \<open>The invariant holds of every history the controller can leave behind.\<close>

lemma session_inv:
  assumes "session C valid t" and "retries_on_conflict (Retry C)" and "Client C = E" and "inv []"
  shows "inv t"
  using assms(1)
proof (induction rule: session.induct)
  case start
  show ?case by (rule assms(4))
next
  case (reconcile w ns name r w' t)
  show ?case by (rule triple_between [OF triple_Reconcile [OF assms(2,3) reconcile.hyps(2,3)] reconcile.hyps(4) reconcile.IH TrueI reconcile.hyps(5,6)])
next
  case (collect w r w' t)
  show ?case by (rule triple_between [OF triple_cleanup collect.hyps(2) [unfolded assms(3)] collect.IH TrueI collect.hyps(3,4)])
qed

end

end
