(* ===== verification/Hosting.thy ===== *)
theory Hosting
  imports Guarded
begin

text \<open>
  Two contracts of the world the controller runs in, and what the controller makes of them.

  \<open>hosting\<close>: a pull request has a direction that never changes; what the provider reports about a pull
  request of its own, and what it reports about one it just made, is that direction; the API server
  returns Leases that were written. Then no shrink is ever merged, although the direction is copied
  to the Lease, survives restarts there and is read back later.

  \<open>exclusive\<close>: only \<^verbatim>\<open>CreatePR\<close> opens pull requests, and a search that finds none is right. Then no
  quota ever has two open pull requests.
\<close>

text \<open>The directions the controller asks for.\<close>

definition directed :: "'q call list \<Rightarrow> bool" where
  "directed t \<longleftrightarrow> (\<forall>q ns d a ls c. CreatePR q ns d a ls c \<in> set t \<longrightarrow> d \<in> {''grow'', ''shrink''})"

abbreviation same_lock :: "Lease \<Rightarrow> Lease \<Rightarrow> bool" where
  "same_lock l l' \<equiv> PRID (stateFromLease l) = PRID (stateFromLease l') \<and> PRDirection (stateFromLease l) = PRDirection (stateFromLease l')"

text \<open>The Leases that were written.\<close>

definition lease_in :: "Lease \<Rightarrow> 'q call list \<Rightarrow> bool" where
  "lease_in l t \<longleftrightarrow> CreateLease l (Inr ()) \<in> set t \<or> UpdateLease l (Inr ()) \<in> set t"

lemma in_snocE: "x \<in> set (t @ [e]) \<Longrightarrow> (x \<in> set t \<Longrightarrow> P) \<Longrightarrow> (e = x \<Longrightarrow> P) \<Longrightarrow> P"
  by auto

locale hosting =
  fixes E :: "'q client" and dir_of :: "'q call list \<Rightarrow> int \<Rightarrow> string option" and valid :: "string \<Rightarrow> bool"
  assumes dir_stays: "dir_of t i = Some d \<Longrightarrow> dir_of (t @ [e]) i = Some d"
    and lease_written: "lease_of E t n m = Inr l \<Longrightarrow> PRID (stateFromLease l) = 0 \<or> (\<exists>l'. lease_in l' t \<and> same_lock l l')"
    and found_dir: "directed t \<Longrightarrow> valid ns \<Longrightarrow> valid q \<Longrightarrow> pr_found E t ns q = Inr (i, d) \<Longrightarrow> i \<noteq> 0 \<Longrightarrow> dir_of t i = Some d"
    and created_dir: "directed t \<Longrightarrow> d \<in> {''grow'', ''shrink''} \<Longrightarrow> pr_created E t q ns d a ls = Inr i \<Longrightarrow>
      dir_of (t @ [CreatePR q ns d a ls (Inr i)]) i = Some d"
    and quota_valid: "valid q \<Longrightarrow> quota_of E t ns q = Inr quota \<Longrightarrow> valid (Quota_Name quota)"
begin

definition truthful :: "'q call list \<Rightarrow> bool" where
  "truthful t \<longleftrightarrow> directed t
     \<and> (\<forall>l. lease_in l t \<longrightarrow> PRID (stateFromLease l) = 0 \<or> dir_of t (PRID (stateFromLease l)) = Some (PRDirection (stateFromLease l)))
     \<and> (\<forall>i how c. MergePR i how c \<in> set t \<longrightarrow> (\<exists>d. dir_of t i = Some d \<and> d \<noteq> ''shrink''))"

lemma truthful_append:
  assumes "truthful t" and "\<And>q ns d a ls c. e = CreatePR q ns d a ls c \<Longrightarrow> d \<in> {''grow'', ''shrink''}"
    and "\<And>l. lease_in l [e] \<Longrightarrow> PRID (stateFromLease l) = 0 \<or> dir_of t (PRID (stateFromLease l)) = Some (PRDirection (stateFromLease l))"
    and "\<And>i how c. e = MergePR i how c \<Longrightarrow> \<exists>d. dir_of t i = Some d \<and> d \<noteq> ''shrink''"
  shows "truthful (t @ [e])"
proof -
  have "d \<in> {''grow'', ''shrink''}" if "CreatePR q ns d a ls c \<in> set (t @ [e])" for q ns d a ls c
    using that assms(1) unfolding truthful_def directed_def by (elim in_snocE) (blast, rule assms(2))
  then have "directed (t @ [e])" unfolding directed_def by blast
  moreover have "PRID (stateFromLease l) = 0 \<or> dir_of t (PRID (stateFromLease l)) = Some (PRDirection (stateFromLease l))"
    if "lease_in l (t @ [e])" for l
    using that assms(1) assms(3) [of l] unfolding truthful_def lease_in_def by auto
  moreover have "\<exists>d. dir_of t i = Some d \<and> d \<noteq> ''shrink''" if "MergePR i how c \<in> set (t @ [e])" for i how c
    using that assms(1) unfolding truthful_def by (elim in_snocE) (blast, rule assms(4))
  ultimately show ?thesis unfolding truthful_def using dir_stays by meson
qed

end

sublocale hosting \<subseteq> g: guarded E truthful "\<lambda>t i d. dir_of t i = Some d" "\<lambda>_ _ _. True" valid
proof unfold_locales
  fix t i d e assume "dir_of t i = Some d"
  then show "dir_of (t @ [e]) i = Some d" by (rule dir_stays)
next
  fix t and e :: "'q call" assume "truthful t" "mild e"
  then show "truthful (t @ [e])" by (intro truthful_append) (auto simp: lease_in_def)
next
  fix t l c
  assume "truthful t" "PRID (stateFromLease l) = 0 \<or> dir_of t (PRID (stateFromLease l)) = Some (PRDirection (stateFromLease l))"
  then show "truthful (t @ [UpdateLease l c])" by (intro truthful_append) (auto simp: lease_in_def)
next
  fix t i d how c assume "truthful t" "dir_of t i = Some d" "d \<noteq> ''shrink''"
  then show "truthful (t @ [MergePR i how c])" by (intro truthful_append) (auto simp: lease_in_def)
next
  fix t n m l assume t: "truthful t" and l: "lease_of E t n m = Inr l"
  from lease_written [OF l] t
  show "PRID (stateFromLease l) = 0 \<or> dir_of t (PRID (stateFromLease l)) = Some (PRDirection (stateFromLease l))"
    unfolding truthful_def by (metis (no_types))
next
  fix t ns q i d assume "truthful t" "valid ns" "valid q" "pr_found E t ns q = Inr (i, d)"
  then show "if i = 0 then True else dir_of t i = Some d" using found_dir unfolding truthful_def by simp
next
  fix t ns q d a ls assume t: "truthful t" and d: "d \<in> {''grow'', ''shrink''}"
  moreover from t have "directed t" by (simp add: truthful_def)
  ultimately show "truthful (t @ [CreatePR q ns d a ls (pr_created E t q ns d a ls)])
      \<and> (\<forall>i. pr_created E t q ns d a ls = Inr i \<longrightarrow> dir_of (t @ [CreatePR q ns d a ls (Inr i)]) i = Some d)"
    using created_dir by (auto intro!: truthful_append simp: lease_in_def)
next
  fix t ns q quota assume "valid q" "quota_of E t ns q = Inr quota"
  then show "valid (Quota_Name quota)" by (rule quota_valid)
qed simp_all

context hosting
begin

lemma session_truthful:
  assumes "session C valid t" and "retries_on_conflict (Retry C)" and "Client C = E"
  shows "truthful t"
  by (rule g.session_inv [OF assms]) (simp add: truthful_def directed_def lease_in_def)

lemma no_shrink_merged:
  assumes "session C valid t" and "retries_on_conflict (Retry C)" and "Client C = E" and "MergePR i how c \<in> set t"
  shows "\<exists>d. dir_of t i = Some d \<and> d \<noteq> ''shrink''"
  using session_truthful [OF assms(1-3)] assms(4) unfolding truthful_def by blast

lemma locks_truthful:
  assumes "session C valid t" and "retries_on_conflict (Retry C)" and "Client C = E" and "lease_in l t"
  shows "PRID (stateFromLease l) = 0 \<or> dir_of t (PRID (stateFromLease l)) = Some (PRDirection (stateFromLease l))"
  using session_truthful [OF assms(1-3)] assms(4) unfolding truthful_def by blast

end

section \<open>One open pull request per quota\<close>

locale exclusive =
  fixes E :: "'q client" and open_of :: "'q call list \<Rightarrow> string \<Rightarrow> string \<Rightarrow> int set" and valid :: "string \<Rightarrow> bool"
  assumes open_start: "open_of [] ns q = {}"
    and open_stays: "\<not> is_create e \<Longrightarrow> open_of (t @ [e]) ns q \<subseteq> open_of t ns q"
    and open_other: "d \<in> {''grow'', ''shrink''} \<Longrightarrow> valid ns \<Longrightarrow> valid q \<Longrightarrow> valid ns' \<Longrightarrow> valid q' \<Longrightarrow> (ns', q') \<noteq> (ns, q) \<Longrightarrow>
      open_of (t @ [CreatePR q ns d a ls c]) ns' q' \<subseteq> open_of t ns' q'"
    and open_one: "\<exists>i. open_of (t @ [CreatePR q ns d a ls c]) ns q \<subseteq> insert i (open_of t ns q)"
    and search_none: "valid ns \<Longrightarrow> valid q \<Longrightarrow> pr_found E t ns q = Inr (0, d) \<Longrightarrow> open_of t ns q = {}"
    and quota_valid: "valid q \<Longrightarrow> quota_of E t ns q = Inr quota \<Longrightarrow> valid (Quota_Name quota)"
begin

definition at_most_one :: "'q call list \<Rightarrow> bool" where
  "at_most_one t \<longleftrightarrow> (\<forall>ns q i j. valid ns \<longrightarrow> valid q \<longrightarrow> i \<in> open_of t ns q \<longrightarrow> j \<in> open_of t ns q \<longrightarrow> i = j)"

lemma at_most_one_append:
  assumes "at_most_one t"
    and "\<And>ns q. valid ns \<Longrightarrow> valid q \<Longrightarrow> open_of (t @ [e]) ns q \<subseteq> open_of t ns q \<or> (\<exists>i. open_of (t @ [e]) ns q \<subseteq> {i})"
  shows "at_most_one (t @ [e])"
  unfolding at_most_one_def
proof (intro allI impI)
  fix ns q i j assume "valid ns" "valid q" "i \<in> open_of (t @ [e]) ns q" "j \<in> open_of (t @ [e]) ns q"
  with assms(2) [of ns q] assms(1) show "i = j" unfolding at_most_one_def by blast
qed

lemma at_most_one_stays: "at_most_one t \<Longrightarrow> \<not> is_create e \<Longrightarrow> at_most_one (t @ [e])"
  by (rule at_most_one_append) (simp_all add: open_stays)

lemma at_most_one_create:
  assumes "at_most_one t" and "open_of t ns q = {}" and "valid ns" and "valid q" and "d \<in> {''grow'', ''shrink''}"
  shows "at_most_one (t @ [CreatePR q ns d a ls c])"
proof (rule at_most_one_append [OF assms(1)])
  fix ns' q' assume "valid ns'" "valid q'"
  then show "open_of (t @ [CreatePR q ns d a ls c]) ns' q' \<subseteq> open_of t ns' q' \<or> (\<exists>i. open_of (t @ [CreatePR q ns d a ls c]) ns' q' \<subseteq> {i})"
    using open_other [OF assms(5,3,4), of ns' q' t a ls c] open_one [of t q ns d a ls c] assms(2) by (cases "(ns', q') = (ns, q)") auto
qed

end

sublocale exclusive \<subseteq> g: guarded E at_most_one "\<lambda>_ _ _. True" "\<lambda>t ns q. open_of t ns q = {}" valid
proof unfold_locales
  fix t ns q and e :: "'q call" assume "open_of t ns q = {}" "\<not> is_create e"
  then show "open_of (t @ [e]) ns q = {}" using open_stays by blast
next
  fix t and e :: "'q call" assume "at_most_one t" "mild e"
  then show "at_most_one (t @ [e])" by (intro at_most_one_stays mild_create)
next
  fix t ns q quota assume "valid q" "quota_of E t ns q = Inr quota"
  then show "valid (Quota_Name quota)" by (rule quota_valid)
qed (auto intro: at_most_one_stays at_most_one_create dest: search_none)

context exclusive
begin

lemma session_at_most_one:
  assumes "session C valid t" and "retries_on_conflict (Retry C)" and "Client C = E"
  shows "at_most_one t"
  by (rule g.session_inv [OF assms]) (simp add: at_most_one_def open_start)

end

end
