(* ===== verification/Yaml.thy ===== *)
theory Yaml
  imports Effects
begin

text \<open>
  Editing a manifest: \<^verbatim>\<open>applyChangesToYaml\<close> and \<^verbatim>\<open>matchesResourceKey\<close> of
  \<^verbatim>\<open>internal/git/github.go\<close>.

  The parser and the printer (\<^verbatim>\<open>gopkg.in/yaml.v3\<close>) are the parameter \<open>'x yaml_api\<close>; \<open>'x\<close> is what
  a node carries besides the fields the code uses. A \<^verbatim>\<open>*yaml.Node\<close> inside a document is its path
  from the root together with the node it points at; a write through the pointer is an update at
  that path.
\<close>

section \<open>Nodes and paths\<close>

datatype node_kind = DocumentNode | SequenceNode | MappingNode | ScalarNode | AliasNode

datatype node_style = PlainStyle | DoubleQuotedStyle | OtherStyle nat

datatype 'x node = Node (Node_Kind: node_kind) (Node_Value: string) (Node_Style: node_style)
  (Node_Content: "'x node list") (Node_Meta: "'x option")

record 'x yaml_api =
  decode :: "string \<Rightarrow> 'x node result list"
  encode :: "'x node list \<Rightarrow> string result"

text \<open>
  \<open>decode\<close> lists the answers of successive calls of \<^verbatim>\<open>Decode\<close> up to the end of the input, \<open>encode\<close>
  is the buffer after one \<^verbatim>\<open>Encode\<close> per document, or the first error.
\<close>

fun node_at :: "'x node \<Rightarrow> nat list \<Rightarrow> 'x node option" where
  "node_at n [] = Some n"
| "node_at (Node k v s c m) (i # p) = (if i < length c then node_at (c ! i) p else None)"

fun update_at :: "nat list \<Rightarrow> ('x node \<Rightarrow> 'x node) \<Rightarrow> 'x node \<Rightarrow> 'x node" where
  "update_at [] f n = f n"
| "update_at (i # p) f (Node k v s c m) = Node k v s (if i < length c then c[i := update_at p f (c ! i)] else c) m"

definition out_of_range :: error where "out_of_range = OtherError ''panic: index out of range''"

section \<open>\<^verbatim>\<open>applyChangesToYaml\<close>\<close>

definition matchesResourceKey :: "string \<Rightarrow> string \<Rightarrow> bool" where
  "matchesResourceKey key res \<longleftrightarrow> key = res
     \<or> (if res = ''requests.cpu'' then key = ''cpu'' \<or> key = ''requests.cpu''
        else if res = ''requests.memory'' then key = ''memory'' \<or> key = ''requests.memory''
        else if res = ''requests.storage'' then key = ''storage'' \<or> key = ''requests.storage''
        else False)"

fun collect_nodes :: "'x node result list \<Rightarrow> 'x node list result" where
  "collect_nodes [] = Inr []"
| "collect_nodes (Inl err # _) = Inl err"
| "collect_nodes (Inr n # rest) = (case collect_nodes rest of Inl err \<Rightarrow> Inl err | Inr ns \<Rightarrow> Inr (n # ns))"

text \<open>The loop over the pairs of a mapping. A key without a value is an index out of range.\<close>

fun find_pair :: "string \<Rightarrow> 'x node list \<Rightarrow> nat \<Rightarrow> (nat list \<times> 'x node) option result" where
  "find_pair key [] i = Inr None"
| "find_pair key [k] i = (if Node_Value k = key then Inl out_of_range else Inr None)"
| "find_pair key (k # v # rest) i = (if Node_Value k = key then Inr (Some ([Suc i], v)) else find_pair key rest (i + 2))"

fun findValueNode :: "'x node \<Rightarrow> string \<Rightarrow> (nat list \<times> 'x node) option result" where
  "findValueNode (Node DocumentNode v s (d # ds) m) key = (case findValueNode d key of
     Inl err \<Rightarrow> Inl err | Inr r \<Rightarrow> Inr (map_option (\<lambda>(p, n). (0 # p, n)) r))"
| "findValueNode (Node MappingNode v s c m) key = find_pair key c 0"
| "findValueNode _ key = Inr None"

definition set_scalar :: "string \<Rightarrow> 'x node \<Rightarrow> 'x node" where
  "set_scalar text n = Node (Node_Kind n) text DoubleQuotedStyle (Node_Content n) (Node_Meta n)"

definition set_content :: "'x node list \<Rightarrow> 'x node \<Rightarrow> 'x node" where
  "set_content c n = Node (Node_Kind n) (Node_Value n) (Node_Style n) c (Node_Meta n)"

fun set_matching :: "string \<Rightarrow> string \<Rightarrow> 'x node list \<Rightarrow> ('x node list \<times> bool) result" where
  "set_matching res text [] = Inr ([], False)"
| "set_matching res text [k] = Inl out_of_range"
| "set_matching res text (k # v # rest) = (case set_matching res text rest of
     Inl err \<Rightarrow> Inl err
   | Inr (rest', found) \<Rightarrow>
       if matchesResourceKey (Node_Value k) res then Inr (k # set_scalar text v # rest', True)
       else Inr (k # v # rest', found))"

definition apply_limit :: "string \<Rightarrow> string \<Rightarrow> 'x node list \<Rightarrow> 'x node list result" where
  "apply_limit res text c = (case set_matching res text c of
     Inl err \<Rightarrow> Inl err
   | Inr (c', found) \<Rightarrow>
       if found then Inr c'
       else Inr (c' @ [Node ScalarNode res PlainStyle [] None, Node ScalarNode text DoubleQuotedStyle [] None]))"

fun apply_limits :: "(string \<times> string) list \<Rightarrow> 'x node list \<Rightarrow> 'x node list result" where
  "apply_limits [] c = Inr c"
| "apply_limits ((res, text) # limits) c = (case apply_limit res text c of
     Inl err \<Rightarrow> Inl err | Inr c' \<Rightarrow> apply_limits limits c')"

definition update_document :: "(string \<times> string) list \<Rightarrow> 'x node \<Rightarrow> 'x node result" where
  "update_document limits node = (case findValueNode node ''kind'' of
     Inl err \<Rightarrow> Inl err
   | Inr None \<Rightarrow> Inr node
   | Inr (Some (_, kindNode)) \<Rightarrow>
       if Node_Value kindNode \<noteq> ''ResourceQuota'' then Inr node
       else case findValueNode node ''spec'' of
         Inl err \<Rightarrow> Inl err
       | Inr None \<Rightarrow> Inr node
       | Inr (Some (sp, specNode)) \<Rightarrow>
           (case findValueNode specNode ''hard'' of
             Inl err \<Rightarrow> Inl err
           | Inr None \<Rightarrow> Inr node
           | Inr (Some (hp, hardNode)) \<Rightarrow>
               if Node_Kind hardNode = MappingNode then
                 (case apply_limits limits (Node_Content hardNode) of
                   Inl err \<Rightarrow> Inl err
                 | Inr c \<Rightarrow> Inr (update_at (sp @ hp) (set_content c) node))
               else Inr node))"

fun update_documents :: "(string \<times> string) list \<Rightarrow> 'x node list \<Rightarrow> 'x node list result" where
  "update_documents limits [] = Inr []"
| "update_documents limits (n # ns) = (case update_document limits n of
     Inl err \<Rightarrow> Inl err
   | Inr n' \<Rightarrow> (case update_documents limits ns of Inl err \<Rightarrow> Inl err | Inr ns' \<Rightarrow> Inr (n' # ns')))"

text \<open>\<open>Inl\<close> is a panic; limits are given with \<^verbatim>\<open>qty.String()\<close> already taken.\<close>

definition applyChangesToYaml :: "'x yaml_api \<Rightarrow> string \<Rightarrow> (string \<times> string) list \<Rightarrow> string result" where
  "applyChangesToYaml Y content limits = (case collect_nodes (decode Y content) of
     Inl _ \<Rightarrow> Inr content
   | Inr nodes \<Rightarrow> (case update_documents limits nodes of
       Inl err \<Rightarrow> Inl err
     | Inr nodes' \<Rightarrow> (case encode Y nodes' of Inl _ \<Rightarrow> Inr content | Inr text \<Rightarrow> Inr text)))"

section \<open>Well-formed documents\<close>

text \<open>A parsed mapping has as many keys as values.\<close>

fun well_formed :: "'x node \<Rightarrow> bool" where
  "well_formed (Node k v s c m) \<longleftrightarrow> (k = MappingNode \<longrightarrow> even (length c)) \<and> list_all well_formed c"

text \<open>Keys and values of a mapping.\<close>

fun entries :: "'x node list \<Rightarrow> (string \<times> string) list" where
  "entries (k # v # rest) = (Node_Value k, Node_Value v) # entries rest"
| "entries _ = []"

lemma find_pair_ok:
  assumes "even (length c)"
  shows "\<exists>r. find_pair key c i = Inr r \<and> (\<forall>p n. r = Some (p, n) \<longrightarrow> n \<in> set c \<and> (\<exists>j. p = [j + i] \<and> j < length c \<and> c ! j = n))"
  using assms
proof (induction key c i rule: find_pair.induct)
  case (3 key k v rest i)
  then show ?case
  proof (cases "Node_Value k = key")
    case False
    with 3 obtain r where r: "find_pair key rest (i + 2) = Inr r"
      "\<forall>p n. r = Some (p, n) \<longrightarrow> n \<in> set rest \<and> (\<exists>j. p = [j + (i + 2)] \<and> j < length rest \<and> rest ! j = n)" by auto
    have "\<exists>j'. p = [j' + i] \<and> j' < Suc (Suc (length rest)) \<and> (k # v # rest) ! j' = n"
      if "p = [j + (i + 2)]" "j < length rest" "rest ! j = n" for p j n
      using that by (intro exI [of _ "j + 2"]) simp
    with False r show ?thesis by (auto simp del: nth_Cons_Suc)
  qed auto
qed simp_all

lemma findValueNode_ok:
  assumes "well_formed n"
  shows "\<exists>r. findValueNode n key = Inr r \<and> (\<forall>p x. r = Some (p, x) \<longrightarrow> well_formed x \<and> node_at n p = Some x)"
  using assms
proof (induction n key rule: findValueNode.induct)
  case (1 v s d ds m key)
  then obtain r where "findValueNode d key = Inr r" "\<forall>p x. r = Some (p, x) \<longrightarrow> well_formed x \<and> node_at d p = Some x" by auto
  then show ?case by auto
next
  case (2 v s c m key)
  then have "even (length c)" by simp
  from find_pair_ok [OF this, of key 0] obtain r where
    "find_pair key c 0 = Inr r" "\<forall>p n. r = Some (p, n) \<longrightarrow> n \<in> set c \<and> (\<exists>j. p = [j] \<and> j < length c \<and> c ! j = n)" by auto
  with 2 show ?case by (auto simp: list_all_iff)
qed auto

lemma find_pair_update:
  assumes "find_pair key c i = Inr (Some (p, x))"
  shows "\<exists>j. p = [j + i] \<and> j < length c \<and> c ! j = x \<and> find_pair key (c[j := y]) i = Inr (Some (p, y))"
  using assms
proof (induction key c i rule: find_pair.induct)
  case (3 key k v rest i)
  show ?case
  proof (cases "Node_Value k = key")
    case True
    with 3(2) have "p = [Suc i]" "v = x" by simp_all
    with True show ?thesis by (intro exI [of _ 1]) simp
  next
    case False
    with 3(2) have "find_pair key rest (i + 2) = Inr (Some (p, x))" by simp
    from 3(1) [OF False this] obtain j where "p = [j + (i + 2)]" "j < length rest" "rest ! j = x"
      "find_pair key (rest[j := y]) (i + 2) = Inr (Some (p, y))" by blast
    with False show ?thesis by (intro exI [of _ "j + 2"]) simp
  qed
qed (simp_all split: if_splits)

text \<open>What is written through a pointer is found again under the same key.\<close>

lemma findValueNode_update:
  assumes "findValueNode n key = Inr (Some (p, x))"
  shows "findValueNode (update_at p f n) key = Inr (Some (p, f x))"
  using assms
proof (induction n key arbitrary: p rule: findValueNode.induct)
  case (1 v s d ds m key)
  then obtain q where "findValueNode d key = Inr (Some (q, x))" "p = 0 # q" by (auto split: sum.splits)
  with 1 show ?case by simp
next
  case (2 v s c m key)
  then have "find_pair key c 0 = Inr (Some (p, x))" by simp
  from find_pair_update [OF this, of "f x"] show ?case by auto
qed auto

lemma update_at_append: "node_at n p = Some x \<Longrightarrow> update_at (p @ q) f n = update_at p (update_at q f) n"
  by (induction n p rule: node_at.induct) (auto split: if_splits)

section \<open>What a limit does to a mapping\<close>

definition set_entry :: "string \<times> string \<Rightarrow> (string \<times> string) list \<Rightarrow> (string \<times> string) list" where
  "set_entry l es = (case l of (res, text) \<Rightarrow>
     if \<exists>k \<in> fst ` set es. matchesResourceKey k res
     then map (\<lambda>(k, v). (k, if matchesResourceKey k res then text else v)) es else es @ [(res, text)])"

lemma set_matching_ok:
  assumes "even (length c)"
  shows "\<exists>c'. set_matching res text c = Inr (c', \<exists>k \<in> fst ` set (entries c). matchesResourceKey k res) \<and> length c' = length c
    \<and> entries c' = map (\<lambda>(k, v). (k, if matchesResourceKey k res then text else v)) (entries c)"
  using assms by (induction res "text" c rule: set_matching.induct) (auto simp: set_scalar_def)

lemma entries_append: "even (length c) \<Longrightarrow> entries (c @ [k, v]) = entries c @ [(Node_Value k, Node_Value v)]"
  by (induction c rule: entries.induct) auto

lemma apply_limit_ok:
  assumes "even (length c)"
  shows "\<exists>c'. apply_limit res text c = Inr c' \<and> even (length c') \<and> entries c' = set_entry (res, text) (entries c)"
proof -
  let ?m = "\<lambda>k. matchesResourceKey k res"
  from set_matching_ok [OF assms, of res "text"] obtain c' where c': "set_matching res text c = Inr (c', \<exists>k \<in> fst ` set (entries c). ?m k)"
    "length c' = length c" "entries c' = map (\<lambda>(k, v). (k, if ?m k then text else v)) (entries c)" by blast
  show ?thesis
  proof (cases "\<exists>k \<in> fst ` set (entries c). ?m k")
    case True
    with c' assms show ?thesis by (auto simp: apply_limit_def set_entry_def)
  next
    case False
    then have "entries c' = entries c" unfolding c'(3) by (intro map_idI) auto
    with False c' assms show ?thesis by (auto simp: apply_limit_def set_entry_def entries_append)
  qed
qed

lemma apply_limits_ok:
  assumes "even (length c)"
  shows "\<exists>c'. apply_limits limits c = Inr c' \<and> entries c' = fold set_entry limits (entries c)"
  using assms
proof (induction limits c rule: apply_limits.induct)
  case (2 res str limits c)
  with apply_limit_ok [OF 2(2), of res str] show ?case by auto
qed simp

text \<open>Limits of which no two match one key.\<close>

definition separate :: "(string \<times> string) list \<Rightarrow> bool" where
  "separate limits \<longleftrightarrow> distinct (map fst limits) \<and> (\<forall>r1 \<in> fst ` set limits. \<forall>r2 \<in> fst ` set limits. \<forall>key.
     matchesResourceKey key r1 \<longrightarrow> matchesResourceKey key r2 \<longrightarrow> r1 = r2)"

definition edited :: "(string \<times> string) list \<Rightarrow> (string \<times> string) set \<Rightarrow> (string \<times> string) set" where
  "edited limits es =
     {(k, t). \<exists>res. (res, t) \<in> set limits \<and> matchesResourceKey k res
        \<and> (k \<in> fst ` es \<or> k = res \<and> (\<forall>k' \<in> fst ` es. \<not> matchesResourceKey k' res))}
     \<union> {(k, v). (k, v) \<in> es \<and> (\<forall>res \<in> fst ` set limits. \<not> matchesResourceKey k res)}"

lemma matches_refl [simp]: "matchesResourceKey res res"
  by (simp add: matchesResourceKey_def)

lemma keys_set_entry: "fst ` set (set_entry (res, text) es)
    = fst ` set es \<union> (if \<exists>k \<in> fst ` set es. matchesResourceKey k res then {} else {res})"
proof (cases "\<exists>k \<in> fst ` set es. matchesResourceKey k res")
  case True
  have "fst ` (\<lambda>(k, v). (k, if matchesResourceKey k res then text else v)) ` set es = fst ` set es"
    unfolding image_image by (rule image_cong) auto
  with True show ?thesis by (simp add: set_entry_def)
qed (simp add: set_entry_def)

lemma in_set_entry: "(k, v) \<in> set (set_entry (res, text) es) \<longleftrightarrow>
    (if matchesResourceKey k res
     then v = text \<and> (k \<in> fst ` set es \<or> k = res \<and> \<not> (\<exists>k' \<in> fst ` set es. matchesResourceKey k' res))
     else (k, v) \<in> set es)"
proof (cases "\<exists>k \<in> fst ` set es. matchesResourceKey k res")
  case True
  let ?f = "\<lambda>(k, v). (k, if matchesResourceKey k res then text else v)"
  have "set (set_entry (res, text) es) = ?f ` set es" using True by (simp add: set_entry_def)
  moreover have "(k, v) \<in> ?f ` set es \<longleftrightarrow> (\<exists>u. (k, u) \<in> set es \<and> v = (if matchesResourceKey k res then text else u))"
  proof
    assume "\<exists>u. (k, u) \<in> set es \<and> v = (if matchesResourceKey k res then text else u)"
    then obtain u where "(k, u) \<in> set es" "v = (if matchesResourceKey k res then text else u)" by blast
    then show "(k, v) \<in> ?f ` set es" by (intro image_eqI [of _ _ "(k, u)"]) simp_all
  qed auto
  moreover have "k \<in> fst ` set es \<longleftrightarrow> (\<exists>u. (k, u) \<in> set es)" by force
  ultimately show ?thesis using True by auto
next
  case False
  moreover from False have "(k, v) \<in> set es \<Longrightarrow> \<not> matchesResourceKey k res" for k v by force
  ultimately show ?thesis by (auto simp: set_entry_def)
qed

lemma in_edited: "(k, v) \<in> edited limits es \<longleftrightarrow>
    (\<exists>res. (res, v) \<in> set limits \<and> matchesResourceKey k res
        \<and> (k \<in> fst ` es \<or> k = res \<and> (\<forall>k' \<in> fst ` es. \<not> matchesResourceKey k' res)))
    \<or> (k, v) \<in> es \<and> (\<forall>res \<in> fst ` set limits. \<not> matchesResourceKey k res)"
  by (simp add: edited_def)

lemma separate_Cons:
  assumes "separate ((res, t) # limits)"
  shows "separate limits" and "r \<in> fst ` set limits \<Longrightarrow> matchesResourceKey k r \<Longrightarrow> \<not> matchesResourceKey k res"
proof -
  have d: "res \<notin> fst ` set limits" "distinct (map fst limits)" using assms unfolding separate_def by simp_all
  have u: "r1 = r2" if "r1 \<in> fst ` set ((res, t) # limits)" "r2 \<in> fst ` set ((res, t) # limits)"
    "matchesResourceKey key r1" "matchesResourceKey key r2" for r1 r2 key
    by (rule assms [unfolded separate_def, THEN conjunct2, rule_format]) (use that in simp_all)
  have sub: "r1 \<in> fst ` set limits \<Longrightarrow> r1 \<in> fst ` set ((res, t) # limits)" for r1 by simp
  show "separate limits" unfolding separate_def
    by (intro conjI ballI allI impI) (rule d(2), rule u [OF sub sub])
  assume r: "r \<in> fst ` set limits" "matchesResourceKey k r"
  show "\<not> matchesResourceKey k res"
  proof
    assume "matchesResourceKey k res"
    with r have "res = r" by (intro u [of res r k]) simp_all
    with r(1) d(1) show False by simp
  qed
qed

lemma fold_set_entry: "separate limits \<Longrightarrow> set (fold set_entry limits es) = edited limits (set es)"
proof (induction limits arbitrary: es)
  case Nil
  show ?case by (auto simp: edited_def)
next
  case (Cons l limits)
  obtain res t where l: "l = (res, t)" by (cases l)
  note sep = separate_Cons [OF Cons.prems [unfolded l]]
  have res: "r \<in> fst ` set limits \<Longrightarrow> \<not> matchesResourceKey res r" for r using sep(2) [of r res] by auto
  have "set (fold set_entry (l # limits) es) = edited limits (set (set_entry (res, t) es))" using Cons.IH [OF sep(1)] l by simp
  also have "\<dots> = edited (l # limits) (set es)"
  proof (rule set_eqI, clarify)
    fix k v
    have lim: "(r, v) \<in> set limits \<Longrightarrow> r \<in> fst ` set limits" for r by force
    show "(k, v) \<in> edited limits (set (set_entry (res, t) es)) \<longleftrightarrow> (k, v) \<in> edited (l # limits) (set es)"
    proof (cases "matchesResourceKey k res")
      case True
      then have no: "\<And>r. r \<in> fst ` set limits \<Longrightarrow> \<not> matchesResourceKey k r" using sep(2) by blast
      then have "\<And>r. (r, v) \<in> set limits \<Longrightarrow> \<not> matchesResourceKey k r" using lim by blast
      moreover from this have "(k, v) \<notin> set limits" using matches_refl by blast
      moreover have "\<forall>r \<in> fst ` set limits. \<not> matchesResourceKey k r" using no by blast
      ultimately show ?thesis using True unfolding in_edited in_set_entry l by (auto simp del: ball_simps)
    next
      case False
      then show ?thesis using res lim unfolding in_edited in_set_entry keys_set_entry l by auto
    qed
  qed
  finally show ?case .
qed

section \<open>What happens to a document\<close>

definition is_quota :: "'x node \<Rightarrow> bool" where
  "is_quota d = (case findValueNode d ''kind'' of Inr (Some (_, k)) \<Rightarrow> Node_Value k = ''ResourceQuota'' | _ \<Rightarrow> False)"

definition hard_of :: "'x node \<Rightarrow> (string \<times> string) list option" where
  "hard_of d = (case findValueNode d ''spec'' of
     Inr (Some (_, s)) \<Rightarrow> (case findValueNode s ''hard'' of
       Inr (Some (_, h)) \<Rightarrow> if Node_Kind h = MappingNode then Some (entries (Node_Content h)) else None
     | _ \<Rightarrow> None)
   | _ \<Rightarrow> None)"

definition quota_edit :: "(string \<times> string) list \<Rightarrow> 'x node \<Rightarrow> 'x node \<Rightarrow> bool" where
  "quota_edit limits d d' \<longleftrightarrow>
     (if is_quota d \<and> hard_of d \<noteq> None
      then (\<exists>es. hard_of d' = Some es \<and> set es = edited limits (set (the (hard_of d))))
         \<and> (\<exists>p c. d' = update_at p (set_content c) d)
      else d' = d)"

lemma update_document_edits:
  assumes wf: "well_formed d" and sep: "separate limits"
  shows "\<exists>d'. update_document limits d = Inr d' \<and> quota_edit limits d d'"
proof -
  obtain rk where k: "findValueNode d ''kind'' = Inr rk" using findValueNode_ok [OF wf] by blast
  obtain rs where s: "findValueNode d ''spec'' = Inr rs"
    "\<forall>p x. rs = Some (p, x) \<longrightarrow> well_formed x \<and> node_at d p = Some x" using findValueNode_ok [OF wf] by blast
  show ?thesis
  proof (cases "is_quota d \<and> (\<exists>sp sn. rs = Some (sp, sn))")
    case True
    then obtain sp sn where rs: "rs = Some (sp, sn)" by blast
    with s(2) have sn: "well_formed sn" "node_at d sp = Some sn" by auto
    obtain rh where h: "findValueNode sn ''hard'' = Inr rh"
      "\<forall>p x. rh = Some (p, x) \<longrightarrow> well_formed x \<and> node_at sn p = Some x" using findValueNode_ok [OF sn(1)] by blast
    show ?thesis
    proof (cases "\<exists>hp hn. rh = Some (hp, hn) \<and> Node_Kind hn = MappingNode")
      case True
      then obtain hp hn where rh: "rh = Some (hp, hn)" "Node_Kind hn = MappingNode" by blast
      with h(2) have "even (length (Node_Content hn))" by (cases hn) auto
      from apply_limits_ok [OF this, of limits] obtain c where
        c: "apply_limits limits (Node_Content hn) = Inr c" "entries c = fold set_entry limits (entries (Node_Content hn))" by blast
      let ?d = "update_at sp (update_at hp (set_content c)) d"
      have u: "update_document limits d = Inr ?d"
        using \<open>is_quota d \<and> _\<close> k s(1) rs h(1) rh c(1) update_at_append [OF sn(2)]
        by (auto simp: update_document_def is_quota_def split: option.splits)
      have "findValueNode ?d ''spec'' = Inr (Some (sp, update_at hp (set_content c) sn))"
        by (rule findValueNode_update) (simp add: s(1) rs)
      moreover have "findValueNode (update_at hp (set_content c) sn) ''hard'' = Inr (Some (hp, set_content c hn))"
        by (rule findValueNode_update) (simp add: h(1) rh)
      ultimately have "hard_of ?d = Some (entries c)" by (simp add: hard_of_def set_content_def rh(2))
      moreover have "hard_of d = Some (entries (Node_Content hn))" using s(1) rs h(1) rh by (simp add: hard_of_def)
      moreover have "set (entries c) = edited limits (set (entries (Node_Content hn)))"
        unfolding c(2) by (rule fold_set_entry [OF sep])
      ultimately have "quota_edit limits d ?d"
        unfolding quota_edit_def using \<open>is_quota d \<and> _\<close> update_at_append [OF sn(2), of hp, symmetric] by auto
      with u show ?thesis by blast
    next
      case False
      then have "update_document limits d = Inr d" "hard_of d = None"
        using \<open>is_quota d \<and> _\<close> k s(1) rs h(1) by (auto simp: update_document_def hard_of_def split: option.splits)
      then show ?thesis by (simp add: quota_edit_def)
    qed
  next
    case False
    then have "update_document limits d = Inr d" "\<not> is_quota d \<or> hard_of d = None"
      using k s(1) by (auto simp: update_document_def is_quota_def hard_of_def split: option.splits)
    then show ?thesis by (auto simp: quota_edit_def)
  qed
qed

lemma update_documents_edits:
  assumes "list_all well_formed ds" and "separate limits"
  shows "\<exists>ds'. update_documents limits ds = Inr ds' \<and> list_all2 (quota_edit limits) ds ds'"
  using assms(1)
proof (induction ds)
  case (Cons d ds)
  with update_document_edits [of d limits, OF _ assms(2)] show ?case by auto
qed simp

lemma collect_nodes_map: "collect_nodes (map Inr ds) = Inr ds"
  by (induction ds) simp_all


text \<open>A file that does not parse is left alone.\<close>

lemma collect_nodes_fails: "Inl e \<in> set rs \<Longrightarrow> \<exists>e'. collect_nodes rs = Inl e'"
  by (induction rs rule: collect_nodes.induct) auto

theorem applyChangesToYaml_unparsable: "Inl e \<in> set (decode Y content) \<Longrightarrow> applyChangesToYaml Y content limits = Inr content"
  using collect_nodes_fails [of e "decode Y content"] by (auto simp: applyChangesToYaml_def)

section \<open>Examples\<close>

abbreviation scalar :: "string \<Rightarrow> unit node" where "scalar v \<equiv> Node ScalarNode v PlainStyle [] None"
abbreviation mapping_node :: "unit node list \<Rightarrow> unit node" where "mapping_node c \<equiv> Node MappingNode '''' PlainStyle c None"

definition quota_doc :: "string \<Rightarrow> string \<Rightarrow> unit node" where
  "quota_doc name cpu = Node DocumentNode '''' PlainStyle [mapping_node
     [scalar ''kind'', scalar ''ResourceQuota'',
      scalar ''metadata'', mapping_node [scalar ''name'', scalar name],
      scalar ''spec'', mapping_node [scalar ''hard'', mapping_node [scalar ''cpu'', scalar cpu, scalar ''pods'', scalar ''10'']]]] None"

definition two_quotas :: "unit yaml_api" where
  "two_quotas = \<lparr>decode = (\<lambda>_. [Inr (quota_doc ''compute'' ''1''), Inr (quota_doc ''batch'' ''8'')]),
     encode = (\<lambda>ds. Inr (concat (map (\<lambda>d. case hard_of d of None \<Rightarrow> '''' | Some es \<Rightarrow> concat (map (\<lambda>(k, v). k @ '':'' @ v @ '';'') es)) ds)))\<rparr>"


text \<open>
  The name of the quota is not looked at: a limit meant for \<^verbatim>\<open>compute\<close> is written to every quota of
  the file.
\<close>

theorem other_quota_rewritten:
  "applyChangesToYaml two_quotas '''' [(''requests.cpu'', ''2'')] = Inr ''cpu:2;pods:10;cpu:2;pods:10;''"
  by (simp add: applyChangesToYaml_def two_quotas_def update_document_def quota_doc_def apply_limit_def
      matchesResourceKey_def set_scalar_def set_content_def hard_of_def)

end
