(* ===== verification/GitHub.thy ===== *)
theory GitHub
  imports Yaml Cluster
begin

text \<open>
  The GitHub provider: \<^verbatim>\<open>internal/git/github.go\<close>. The client library
  (\<^verbatim>\<open>google/go-github\<close>) is the parameter \<open>github\<close>, whose fields answer a call from the history of
  the calls; owner and repository are the same in every call and left out. Logging is not modelled.
\<close>

section \<open>What the library returns\<close>

text \<open>Fields read by a getter of the library hold the getter's value; pointers are options.\<close>

record pull =
  Pull_Number :: int
  Pull_State :: string
  Pull_Merged :: bool
  Pull_Mergeable :: bool
  Pull_MergeableState :: string
  Pull_CreatedAt :: time
  Pull_Head :: "(string \<times> string option) option"
  Pull_Labels :: "string list"

record content_entry =
  Entry_Type :: string
  Entry_Name :: string
  Entry_Path :: string
  Entry_SHA :: "string option"
  GetContent :: "string result"

datatype contents = File content_entry | Dir "content_entry list"

record file_options =
  Opt_Message :: string
  Opt_Content :: string
  Opt_SHA :: "string option"
  Opt_Branch :: string

record new_pull =
  New_Title :: string
  New_Head :: string
  New_Base :: string
  New_Body :: string

datatype pull_edit = Set_Body string | Set_State string

datatype gh_call =
    GetRepo "string result"
  | GetRef string "string result"
  | CreateRef string string "unit result"
  | GetContents string string "contents result"
  | UpdateFile string file_options "unit result"
  | CreatePull new_pull "int result"
  | AddLabels int "string list" "unit result"
  | Backoff "error option"
  | GetPull int "pull result"
  | EditPull int pull_edit "unit result"
  | CreateComment int string "unit result"
  | ListPulls int "(pull list \<times> int) result"
  | GetCombinedStatus string "(string \<times> int option) result"
  | MergePull int string string "unit result"
  | GhClock time

text \<open>
  \<open>backoff\<close> answers the \<^verbatim>\<open>select\<close> between the context and the timer: the error of a cancelled
  context, or nothing.
\<close>

record github =
  repo_of :: "gh_call list \<Rightarrow> string result"
  ref_of :: "gh_call list \<Rightarrow> string \<Rightarrow> string result"
  ref_created :: "gh_call list \<Rightarrow> string \<Rightarrow> string \<Rightarrow> unit result"
  contents_of :: "gh_call list \<Rightarrow> string \<Rightarrow> string \<Rightarrow> contents result"
  file_updated :: "gh_call list \<Rightarrow> string \<Rightarrow> file_options \<Rightarrow> unit result"
  pull_created :: "gh_call list \<Rightarrow> new_pull \<Rightarrow> int result"
  labels_added :: "gh_call list \<Rightarrow> int \<Rightarrow> string list \<Rightarrow> unit result"
  backoff :: "gh_call list \<Rightarrow> error option"
  pull_of :: "gh_call list \<Rightarrow> int \<Rightarrow> pull result"
  pull_edited :: "gh_call list \<Rightarrow> int \<Rightarrow> pull_edit \<Rightarrow> unit result"
  comment_created :: "gh_call list \<Rightarrow> int \<Rightarrow> string \<Rightarrow> unit result"
  pulls_of :: "gh_call list \<Rightarrow> int \<Rightarrow> (pull list \<times> int) result"
  combined_of :: "gh_call list \<Rightarrow> string \<Rightarrow> (string \<times> int option) result"
  pull_merged :: "gh_call list \<Rightarrow> int \<Rightarrow> string \<Rightarrow> string \<Rightarrow> unit result"
  gh_clock :: "gh_call list \<Rightarrow> time"

type_synonym ('m, 'a) ghprog = "(gh_call, 'm, 'a) io"

text \<open>The provider: the client, the cluster name and the parsed path template.\<close>

record GitHubProvider =
  gh :: github
  clusterName :: string
  pathTemplate :: "string \<Rightarrow> string \<Rightarrow> string result"

text \<open>\<^verbatim>\<open>if err != nil { return fmt.Errorf("msg: %w", err) }\<close>\<close>

definition or_wrap :: "string \<Rightarrow> ('e, 'm, 'a result) io \<Rightarrow> ('a \<Rightarrow> ('e, 'm, 'b result) io) \<Rightarrow> ('e, 'm, 'b result) io" where
  "or_wrap msg m f = m \<bind> (\<lambda>r. case r of Inl err \<Rightarrow> return (Inl (Errorf msg [err])) | Inr x \<Rightarrow> f x)"

section \<open>Names\<close>

definition labelManaged :: string where "labelManaged = ''resizer/managed''"
definition labelDirectionPrefix :: string where "labelDirectionPrefix = ''resizer/direction:''"
definition git_grow :: string where "git_grow = ''grow''"
definition git_shrink :: string where "git_shrink = ''shrink''"
definition labelAttempts :: nat where "labelAttempts = 3"
definition unlabelledShrinkComment :: string where
  "unlabelledShrinkComment = ''Closing this pull request: its direction label could not be attached, and an unlabelled shrink proposal would later be mistaken for a growth proposal. A replacement will be opened on the next reconcile.''"

definition branchName :: "string \<Rightarrow> string \<Rightarrow> string \<Rightarrow> time \<Rightarrow> string" where
  "branchName direction namespace quotaName now =
     ''resize/'' @ direction @ ''/'' @ namespace @ ''/'' @ quotaName @ ''/'' @ itoa (now div second)"

definition ownPrefix :: "string \<Rightarrow> string \<Rightarrow> string \<Rightarrow> string" where
  "ownPrefix direction namespace quotaName = ''resize/'' @ direction @ ''/'' @ namespace @ ''/'' @ quotaName @ ''/''"

definition legacyPrefix :: "string \<Rightarrow> string \<Rightarrow> string" where
  "legacyPrefix namespace quotaName = ''resize/'' @ namespace @ ''-'' @ quotaName @ ''-''"

fun directionFromLabels :: "string list \<Rightarrow> string" where
  "directionFromLabels [] = git_grow"
| "directionFromLabels (name # labels) =
     (if \<not> HasPrefix name labelDirectionPrefix then directionFromLabels labels
      else if TrimPrefix name labelDirectionPrefix \<noteq> git_grow then git_shrink
      else directionFromLabels labels)"

abbreviation nl :: string where "nl \<equiv> [CHR 0x0A]"

definition generatePRBody :: "'q resource_api \<Rightarrow> string \<Rightarrow> string \<Rightarrow> 'q smap \<Rightarrow> string" where
  "generatePRBody Q ns quota limits =
     ''### Quota Resize Recommendation for `'' @ quota @ ''` in `'' @ ns @ ''`'' @ nl @ nl
     @ ''The Namespace Resizer Controller detected a need to increase the following limits:'' @ nl @ nl
     @ ''| Resource | New Limit |'' @ nl
     @ ''| :--- | :--- |'' @ nl
     @ concat (map (\<lambda>(res, qty). ''| '' @ res @ '' | '' @ QString Q qty @ '' |'' @ nl) limits)
     @ nl @ nl @ ''*Generated automatically by Namespace Resizer*''"

section \<open>Reading\<close>

definition resolvePath :: "GitHubProvider \<Rightarrow> string \<Rightarrow> string smap \<Rightarrow> string result" where
  "resolvePath g namespace annotations = (case map_of annotations ''resizer.io/git-path'' of
     Some val \<Rightarrow> Inr val
   | None \<Rightarrow> pathTemplate g (clusterName g) namespace)"

definition GitHub_GetPRStatus :: "GitHubProvider \<Rightarrow> int \<Rightarrow> ('m, PRStatus result) ghprog" where
  "GitHub_GetPRStatus g prID = or_fail (ask (\<lambda>t. pull_of (gh g) t prID) (GetPull prID)) (\<lambda>pr.
     let status = (\<lambda>checksState checksTotalCount. \<lparr>IsOpen = (Pull_State pr = ''open''), IsMerged = Pull_Merged pr,
           Mergeable = Pull_Mergeable pr, MergeableState = Pull_MergeableState pr, ChecksState = checksState,
           ChecksTotalCount = checksTotalCount, CreatedAt = Pull_CreatedAt pr\<rparr>) in
     case Pull_Head pr of
       Some (_, Some sha) \<Rightarrow>
         or_wrap (''failed to get combined status for PR '' @ itoa prID)
           (ask (\<lambda>t. combined_of (gh g) t sha) (GetCombinedStatus sha))
           (\<lambda>(state, total). return (Inr (status state (case total of None \<Rightarrow> 0 | Some n \<Rightarrow> n))))
     | _ \<Rightarrow> return (Inr (status '''' 0)))"

text \<open>One page of open pull requests. \<open>Inr\<close> is a \<^verbatim>\<open>return\<close> from inside the loop.\<close>

fun scan_page :: "string \<Rightarrow> string \<Rightarrow> pull list \<Rightarrow> int \<times> string \<Rightarrow> (int \<times> string) + (int \<times> string)" where
  "scan_page namespace quotaName [] legacy = Inl legacy"
| "scan_page namespace quotaName (pr # prs) legacy = (case Pull_Head pr of
     None \<Rightarrow> scan_page namespace quotaName prs legacy
   | Some (ref, _) \<Rightarrow>
       if HasPrefix ref (ownPrefix git_grow namespace quotaName) then Inr (Pull_Number pr, git_grow)
       else if HasPrefix ref (ownPrefix git_shrink namespace quotaName) then Inr (Pull_Number pr, git_shrink)
       else if HasPrefix ref (legacyPrefix namespace quotaName) then
         scan_page namespace quotaName prs
           (if fst legacy = 0 then (Pull_Number pr, directionFromLabels (Pull_Labels pr)) else legacy)
       else scan_page namespace quotaName prs legacy)"

text \<open>The loop over the pages, for at most \<open>fuel\<close> pages; \<^term>\<open>None\<close> when there are more.\<close>

fun find_pages :: "GitHubProvider \<Rightarrow> nat \<Rightarrow> string \<Rightarrow> string \<Rightarrow> int \<Rightarrow> int \<times> string
    \<Rightarrow> ('m, (int \<times> string) result option) ghprog" where
  "find_pages g 0 namespace quotaName page legacy = return None"
| "find_pages g (Suc fuel) namespace quotaName page legacy = do {
     r \<leftarrow> ask (\<lambda>t. pulls_of (gh g) t page) (ListPulls page);
     case r of
       Inl err \<Rightarrow> return (Some (Inl (Errorf ''failed to list pull requests'' [err])))
     | Inr (prs, nextPage) \<Rightarrow>
         (case scan_page namespace quotaName prs legacy of
           Inr found \<Rightarrow> return (Some (Inr found))
         | Inl legacy' \<Rightarrow>
             if nextPage = 0 then return (Some (Inr (if fst legacy' \<noteq> 0 then legacy' else (0, ''''))))
             else find_pages g fuel namespace quotaName nextPage legacy') }"

definition GitHub_FindOpenPR :: "GitHubProvider \<Rightarrow> nat \<Rightarrow> string \<Rightarrow> string \<Rightarrow> ('m, (int \<times> string) result option) ghprog" where
  "GitHub_FindOpenPR g fuel namespace quotaName = find_pages g fuel namespace quotaName 0 (0, '''')"

text \<open>
  The loop over the files of a directory. A file whose path turns out to be a directory has no
  content: dereferencing it is a panic.
\<close>

fun find_file :: "GitHubProvider \<Rightarrow> string \<Rightarrow> string \<Rightarrow> string \<Rightarrow> content_entry list
    \<Rightarrow> ('m, (string \<times> content_entry) result) ghprog" where
  "find_file g basePath ref quotaName [] =
     return (Inl (Errorf (''quota '' @ quotaName @ '' not found in '' @ basePath) [ErrFileNotFound]))"
| "find_file g basePath ref quotaName (file # files) =
     (if Entry_Type file \<noteq> ''file'' then find_file g basePath ref quotaName files
      else if \<not> HasSuffix (Entry_Name file) ''.yaml'' \<and> \<not> HasSuffix (Entry_Name file) ''.yml''
      then find_file g basePath ref quotaName files
      else do {
        r \<leftarrow> ask (\<lambda>t. contents_of (gh g) t (Entry_Path file) ref) (GetContents (Entry_Path file) ref);
        case r of
          Inl _ \<Rightarrow> find_file g basePath ref quotaName files
        | Inr (Dir _) \<Rightarrow> return (Inl (OtherError ''panic: nil pointer dereference''))
        | Inr (File fc) \<Rightarrow>
            (case GetContent fc of
              Inl _ \<Rightarrow> find_file g basePath ref quotaName files
            | Inr content \<Rightarrow>
                if Contains content ''kind: ResourceQuota'' \<and> Contains content (''name: '' @ quotaName)
                then return (Inr (Entry_Path file, fc))
                else find_file g basePath ref quotaName files) })"

definition findQuotaFile :: "GitHubProvider \<Rightarrow> string \<Rightarrow> string \<Rightarrow> string \<Rightarrow> ('m, (string \<times> content_entry) result) ghprog" where
  "findQuotaFile g basePath ref quotaName = do {
     r \<leftarrow> ask (\<lambda>t. contents_of (gh g) t basePath ref) (GetContents basePath ref);
     case r of
       Inl err \<Rightarrow>
         if err_is ((=) (StatusError 404)) err then return (Inl (Errorf ''file not found'' [ErrFileNotFound]))
         else return (Inl err)
     | Inr c \<Rightarrow> find_file g basePath ref quotaName (case c of File _ \<Rightarrow> [] | Dir files \<Rightarrow> files) }"

section \<open>Writing\<close>

definition GitHub_MergePR :: "GitHubProvider \<Rightarrow> int \<Rightarrow> string \<Rightarrow> ('m, unit result) ghprog" where
  "GitHub_MergePR g prID how = (let how = (if how = '''' then ''squash'' else how) in
     ask (\<lambda>t. pull_merged (gh g) t prID ''Auto-merge by Namespace Resizer'' how)
       (MergePull prID ''Auto-merge by Namespace Resizer'' how))"

definition GitHub_ClosePR :: "GitHubProvider \<Rightarrow> int \<Rightarrow> string \<Rightarrow> ('m, unit result) ghprog" where
  "GitHub_ClosePR g prID comment =
     or_wrap (''failed to comment on PR '' @ itoa prID)
       (ask (\<lambda>t. comment_created (gh g) t prID comment) (CreateComment prID comment)) (\<lambda>_.
     or_wrap (''failed to close PR '' @ itoa prID)
       (ask (\<lambda>t. pull_edited (gh g) t prID (Set_State ''closed'')) (EditPull prID (Set_State ''closed''))) (\<lambda>_.
     return (Inr ())))"

text \<open>The attempts that are left; the last one is not followed by a pause.\<close>

fun label_loop :: "GitHubProvider \<Rightarrow> int \<Rightarrow> string list \<Rightarrow> nat \<Rightarrow> ('m, unit result) ghprog" where
  "label_loop g prNumber labels 0 = return (Inl (Errorf (''failed to label PR '' @ itoa prNumber @ '' after '' @ itoa (int labelAttempts) @ '' attempts'') []))"
| "label_loop g prNumber labels (Suc n) = do {
     r \<leftarrow> ask (\<lambda>t. labels_added (gh g) t prNumber labels) (AddLabels prNumber labels);
     case r of
       Inr _ \<Rightarrow> return (Inr ())
     | Inl err \<Rightarrow>
         if n = 0 then return (Inl (Errorf (''failed to label PR '' @ itoa prNumber @ '' after '' @ itoa (int labelAttempts) @ '' attempts'') [err]))
         else do {
           c \<leftarrow> ask (backoff (gh g)) Backoff;
           case c of
             Some e \<Rightarrow> return (Inl (Errorf (''labelling PR '' @ itoa prNumber @ '' cancelled'') [e]))
           | None \<Rightarrow> label_loop g prNumber labels n } }"

definition addLabels :: "GitHubProvider \<Rightarrow> int \<Rightarrow> string list \<Rightarrow> ('m, unit result) ghprog" where
  "addLabels g prNumber labels = label_loop g prNumber labels labelAttempts"

definition limit_texts :: "'q resource_api \<Rightarrow> 'q smap \<Rightarrow> (string \<times> string) list" where
  "limit_texts Q limits = map (\<lambda>(res, qty). (res, QString Q qty)) limits"

text \<open>Labelling a new pull request; a shrink that cannot be labelled is closed again.\<close>

definition label_or_close :: "GitHubProvider \<Rightarrow> string \<Rightarrow> string \<Rightarrow> int \<Rightarrow> ('m, int result) ghprog" where
  "label_or_close g namespace direction number = do {
     r \<leftarrow> addLabels g number [labelManaged, ''resizer/ns:'' @ namespace, labelDirectionPrefix @ direction];
     case r of
       Inr _ \<Rightarrow> return (Inr number)
     | Inl err \<Rightarrow>
         if direction \<noteq> git_shrink then return (Inr number)
         else do {
           c \<leftarrow> GitHub_ClosePR g number unlabelledShrinkComment;
           case c of
             Inl closeErr \<Rightarrow> return (Inl (Errorf (''failed to label shrink PR '' @ itoa number @ '' and failed to close it again'') [err, closeErr]))
           | Inr _ \<Rightarrow> return (Inl (Errorf (''failed to label shrink PR '' @ itoa number @ '', closed it again'') [err])) } }"

text \<open>The edit on the new branch, and the pull request.\<close>

definition commit_and_open :: "GitHubProvider \<Rightarrow> 'q resource_api \<Rightarrow> 'x yaml_api \<Rightarrow> string \<Rightarrow> string \<Rightarrow> string
    \<Rightarrow> string smap \<Rightarrow> 'q smap \<Rightarrow> string \<Rightarrow> string \<Rightarrow> ('m, int result) ghprog" where
  "commit_and_open g Q Y quotaName namespace direction annotations newLimits defaultBranch branch =
     (case resolvePath g namespace annotations of
       Inl err \<Rightarrow> return (Inl (Errorf ''failed to resolve path'' [err]))
     | Inr basePath \<Rightarrow>
     or_wrap (''failed to find quota file in '' @ basePath) (findQuotaFile g basePath branch quotaName) (\<lambda>(targetFile, fileContent).
     case GetContent fileContent of
       Inl err \<Rightarrow> return (Inl err)
     | Inr content \<Rightarrow>
     case applyChangesToYaml Y content (limit_texts Q newLimits) of
       Inl panic \<Rightarrow> return (Inl panic)
     | Inr newContent \<Rightarrow>
     let opts = \<lparr>Opt_Message = ''chore('' @ namespace @ ''): resize quota '' @ quotaName,
           Opt_Content = newContent, Opt_SHA = Entry_SHA fileContent, Opt_Branch = branch\<rparr> in
     or_wrap ''failed to commit file'' (ask (\<lambda>t. file_updated (gh g) t targetFile opts) (UpdateFile targetFile opts)) (\<lambda>_.
     let newPR = \<lparr>New_Title = (if direction = git_shrink then ''Shrink Quota '' @ quotaName @ '' in '' @ namespace
             else ''Resize Quota '' @ quotaName @ '' in '' @ namespace),
           New_Head = branch, New_Base = defaultBranch, New_Body = generatePRBody Q namespace quotaName newLimits\<rparr> in
     or_wrap ''failed to create PR'' (ask (\<lambda>t. pull_created (gh g) t newPR) (CreatePull newPR))
       (label_or_close g namespace direction))))"

definition GitHub_CreatePR :: "GitHubProvider \<Rightarrow> 'q resource_api \<Rightarrow> 'x yaml_api \<Rightarrow> string \<Rightarrow> string \<Rightarrow> string
    \<Rightarrow> string smap \<Rightarrow> 'q smap \<Rightarrow> ('m, int result) ghprog" where
  "GitHub_CreatePR g Q Y quotaName namespace direction annotations newLimits =
     or_wrap ''failed to get repo'' (ask (repo_of (gh g)) GetRepo) (\<lambda>defaultBranch.
     or_wrap ''failed to get base ref''
       (ask (\<lambda>t. ref_of (gh g) t (''refs/heads/'' @ defaultBranch)) (GetRef (''refs/heads/'' @ defaultBranch))) (\<lambda>sha. do {
     now \<leftarrow> ask (gh_clock (gh g)) GhClock;
     let branch = branchName direction namespace quotaName now;
     or_wrap ''failed to create branch''
       (ask (\<lambda>t. ref_created (gh g) t (''refs/heads/'' @ branch) sha) (CreateRef (''refs/heads/'' @ branch) sha)) (\<lambda>_.
     commit_and_open g Q Y quotaName namespace direction annotations newLimits defaultBranch branch) }))"

definition GitHub_UpdatePR :: "GitHubProvider \<Rightarrow> 'q resource_api \<Rightarrow> 'x yaml_api \<Rightarrow> int \<Rightarrow> string \<Rightarrow> string
    \<Rightarrow> string smap \<Rightarrow> 'q smap \<Rightarrow> ('m, unit result) ghprog" where
  "GitHub_UpdatePR g Q Y prID quotaName namespace annotations newLimits =
     or_fail (ask (\<lambda>t. pull_of (gh g) t prID) (GetPull prID)) (\<lambda>pr.
     let branch = (case Pull_Head pr of None \<Rightarrow> '''' | Some (ref, _) \<Rightarrow> ref) in
     case resolvePath g namespace annotations of
       Inl err \<Rightarrow> return (Inl err)
     | Inr basePath \<Rightarrow>
     or_fail (findQuotaFile g basePath branch quotaName) (\<lambda>(targetFile, fileContent).
     case GetContent fileContent of
       Inl err \<Rightarrow> return (Inl err)
     | Inr content \<Rightarrow>
     case applyChangesToYaml Y content (limit_texts Q newLimits) of
       Inl panic \<Rightarrow> return (Inl panic)
     | Inr newContent \<Rightarrow>
     if newContent = content then return (Inr ())
     else let opts = \<lparr>Opt_Message = ''chore('' @ namespace @ ''): update quota resize '' @ quotaName,
           Opt_Content = newContent, Opt_SHA = Entry_SHA fileContent, Opt_Branch = branch\<rparr> in
     or_wrap ''failed to update file'' (ask (\<lambda>t. file_updated (gh g) t targetFile opts) (UpdateFile targetFile opts)) (\<lambda>_.
     let newBody = generatePRBody Q namespace quotaName newLimits in
     or_wrap ''failed to update PR body'' (ask (\<lambda>t. pull_edited (gh g) t prID (Set_Body newBody)) (EditPull prID (Set_Body newBody)))
       (\<lambda>_. return (Inr ())))))"

end
