(* ===== verification/GitHub_Correct.thy ===== *)
theory GitHub_Correct
  imports GitHub
begin

text \<open>
  Correctness of the GitHub provider: who owns a branch, which pull request is adopted, that the
  search ends, and what is written.
\<close>

section \<open>Rules\<close>

lemma ensures_or_wrap:
  assumes "ensures m R" and "\<And>e s. R (Inl e) s \<Longrightarrow> Q (Inl (Errorf msg [e])) s"
    and "\<And>x s. R (Inr x) s \<Longrightarrow> ensures (f x) (\<lambda>y s'. Q y (s @ s'))"
  shows "ensures (or_wrap msg m f) Q"
  unfolding or_wrap_def by (rule ensures_bind [OF assms(1)]) (auto split: sum.split intro!: ensures_return simp: assms(2,3))

lemma ensures_ask_or_wrap [ensures_intro]:
  assumes "\<And>e. Q (Inl (Errorf msg [e])) [entry (Inl e)]" and "\<And>x. ensures (f x) (\<lambda>y s. Q y (entry (Inr x) # s))"
  shows "ensures (or_wrap msg (ask answer entry) f) Q"
  by (rule ensures_or_wrap [where R = "\<lambda>r s. s = [entry r]"]) (auto intro: ensures_ask assms)

lemma run_or_wrap: "run_state (or_wrap msg m f) w = (case run_state m w of (r, w') \<Rightarrow>
    (case r of Inl e \<Rightarrow> (Inl (Errorf msg [e]), w') | Inr x \<Rightarrow> run_state (f x) w'))"
  by (simp add: or_wrap_def split: sum.split prod.split)

lemma ensures_contents [ensures_intro]:
  "(\<And>f. c = File f \<Longrightarrow> ensures (m f) Q) \<Longrightarrow> (\<And>fs. c = Dir fs \<Longrightarrow> ensures (n fs) Q)
    \<Longrightarrow> ensures (case c of File f \<Rightarrow> m f | Dir fs \<Rightarrow> n fs) Q"
  by (cases c) simp_all

section \<open>Who owns a branch\<close>

abbreviation slash_free :: "string \<Rightarrow> bool" where "slash_free s \<equiv> CHR ''/'' \<notin> set s"

lemma split_at: "c \<notin> set a \<Longrightarrow> c \<notin> set b \<Longrightarrow> a @ c # x = b @ c # y \<longleftrightarrow> a = b \<and> x = y"
proof (induction a arbitrary: b)
  case Nil
  then show ?case by (cases b) auto
next
  case (Cons z a)
  then show ?case by (cases b) auto
qed

lemma own_prefix_branch:
  assumes "slash_free d" "slash_free e" "slash_free ns" "slash_free q" "slash_free ns'" "slash_free q'"
  shows "HasPrefix (branchName d ns' q' t) (ownPrefix e ns q) \<longleftrightarrow> e = d \<and> ns = ns' \<and> q = q'"
proof -
  have "HasPrefix (branchName d ns' q' t) (ownPrefix e ns q) \<longleftrightarrow>
     (\<exists>r. d @ CHR ''/'' # ns' @ CHR ''/'' # q' @ CHR ''/'' # itoa (t div second) = e @ CHR ''/'' # ns @ CHR ''/'' # q @ CHR ''/'' # r)"
    by (simp add: HasPrefix_iff branchName_def ownPrefix_def)
  also have "\<dots> \<longleftrightarrow> e = d \<and> ns = ns' \<and> q = q'"
    by (simp only: split_at [OF assms(1,2)] split_at [OF assms(5,3)] split_at [OF assms(6,4)]) auto
  finally show ?thesis .
qed

lemma legacy_prefix_branch:
  assumes d: "slash_free d" "CHR ''-'' \<notin> set d" and ns: "slash_free ns" "slash_free q"
  shows "\<not> HasPrefix (branchName d ns' q' t) (legacyPrefix ns q)"
proof
  let ?l = "ns @ CHR ''-'' # q @ ''-''" and ?n = "ns' @ CHR ''/'' # q' @ CHR ''/'' # itoa (t div second)"
  assume "HasPrefix (branchName d ns' q' t) (legacyPrefix ns q)"
  then have "\<exists>r. d @ CHR ''/'' # ?n = ?l @ r" by (simp add: HasPrefix_iff branchName_def legacyPrefix_def)
  then obtain r where eq: "d @ CHR ''/'' # ?n = ?l @ r" ..
  have l: "slash_free ?l" using ns by simp
  from append_eq_append_conv2 [THEN iffD1, OF eq]
  obtain u where "d = ?l @ u \<or> ?l = d @ u \<and> CHR ''/'' # ?n = u @ r" by metis
  then show False
  proof
    assume "d = ?l @ u"
    then have "CHR ''-'' \<in> set d" by simp
    with d(2) show False ..
  next
    assume u: "?l = d @ u \<and> CHR ''/'' # ?n = u @ r"
    show False
    proof (cases u)
      case Nil
      with u have "CHR ''-'' \<in> set d" by (metis append_Nil2 in_set_conv_decomp)
      with d(2) show False ..
    next
      case (Cons c u')
      with u have "CHR ''/'' \<in> set (d @ u)" by simp
      with u l show False by metis
    qed
  qed
qed

text \<open>
  (C20) Names of Kubernetes objects contain no slash. A pull request on a branch made by
  \<^verbatim>\<open>CreatePR\<close> is adopted by the namespace and quota it was made for, with its direction, and by no
  other, whatever hyphens the names contain.
\<close>

theorem branch_owner:
  assumes "slash_free ns" "slash_free q" "slash_free ns'" "slash_free q'" and "d \<in> {git_grow, git_shrink}"
    and "Pull_Head pr = Some (branchName d ns' q' t, sha)"
  shows "scan_page ns q (pr # prs) legacy =
    (if ns = ns' \<and> q = q' then Inr (Pull_Number pr, d) else scan_page ns q prs legacy)"
proof -
  have d: "slash_free d" "CHR ''-'' \<notin> set d" "slash_free git_grow" "slash_free git_shrink" "git_grow \<noteq> git_shrink"
    using assms(5) by (auto simp: git_grow_def git_shrink_def)
  show ?thesis
    using assms(5,6) d(5) own_prefix_branch [OF d(1,3) assms(1-4)] own_prefix_branch [OF d(1,4) assms(1-4)]
      legacy_prefix_branch [OF d(1,2) assms(1,2)] by auto
qed

section \<open>Which pull request is adopted\<close>

definition own :: "string \<Rightarrow> string \<Rightarrow> pull \<Rightarrow> string option" where
  "own ns q pr = (case Pull_Head pr of None \<Rightarrow> None
   | Some (ref, _) \<Rightarrow> if HasPrefix ref (ownPrefix git_grow ns q) then Some git_grow
       else if HasPrefix ref (ownPrefix git_shrink ns q) then Some git_shrink else None)"

definition legacy_pull :: "string \<Rightarrow> string \<Rightarrow> pull \<Rightarrow> bool" where
  "legacy_pull ns q pr = (case Pull_Head pr of None \<Rightarrow> False
   | Some (ref, _) \<Rightarrow> HasPrefix ref (legacyPrefix ns q) \<and> Pull_Number pr \<noteq> 0)"

text \<open>The first pull request of the quota's own; failing that the first of the old naming scheme.\<close>

definition choose_pull :: "string \<Rightarrow> string \<Rightarrow> pull list \<Rightarrow> int \<times> string" where
  "choose_pull ns q prs = (case find (\<lambda>pr. own ns q pr \<noteq> None) prs of
     Some pr \<Rightarrow> (Pull_Number pr, the (own ns q pr))
   | None \<Rightarrow> (case find (legacy_pull ns q) prs of
       Some pr \<Rightarrow> (Pull_Number pr, directionFromLabels (Pull_Labels pr)) | None \<Rightarrow> (0, '''')))"

definition scanned :: "string \<Rightarrow> string \<Rightarrow> pull list \<Rightarrow> int \<times> string \<Rightarrow> bool" where
  "scanned ns q seen legacy \<longleftrightarrow> find (\<lambda>pr. own ns q pr \<noteq> None) seen = None \<and>
     (case find (legacy_pull ns q) seen of
       Some pr \<Rightarrow> legacy = (Pull_Number pr, directionFromLabels (Pull_Labels pr)) \<and> Pull_Number pr \<noteq> 0
     | None \<Rightarrow> fst legacy = 0)"

lemma find_append: "find P (xs @ ys) = (case find P xs of None \<Rightarrow> find P ys | Some x \<Rightarrow> Some x)"
  by (induction xs) auto

lemma scan_page_scanned:
  assumes "scanned ns q seen legacy"
  shows "case scan_page ns q prs legacy of
      Inr found \<Rightarrow> found = choose_pull ns q (seen @ prs) \<and> (\<exists>pr \<in> set prs. own ns q pr \<noteq> None)
    | Inl legacy' \<Rightarrow> scanned ns q (seen @ prs) legacy'"
  using assms
proof (induction prs arbitrary: seen legacy)
  case Nil
  then show ?case by simp
next
  case (Cons pr prs)
  show ?case
  proof (cases "own ns q pr")
    case None
    obtain legacy' where step: "scan_page ns q (pr # prs) legacy = scan_page ns q prs legacy'" and s: "scanned ns q (seen @ [pr]) legacy'"
    proof (cases "\<exists>ref sha. Pull_Head pr = Some (ref, sha) \<and> HasPrefix ref (legacyPrefix ns q)")
      case True
      show thesis
        by (rule that [of "if fst legacy = 0 then (Pull_Number pr, directionFromLabels (Pull_Labels pr)) else legacy"])
          (use True None Cons.prems in \<open>auto simp: scanned_def find_append own_def legacy_pull_def split: if_splits option.splits\<close>)
    next
      case False
      show thesis
        by (rule that [of legacy])
          (use False None Cons.prems in \<open>auto simp: scanned_def find_append own_def legacy_pull_def split: if_splits option.splits\<close>)
    qed
    from Cons.IH [OF s] show ?thesis unfolding step by (auto split: sum.splits)
  next
    case (Some d)
    then have "scan_page ns q (pr # prs) legacy = Inr (Pull_Number pr, d)"
      by (auto simp: own_def split: option.splits if_splits)
    moreover have "choose_pull ns q (seen @ pr # prs) = (Pull_Number pr, d)"
      using Cons.prems Some by (auto simp: choose_pull_def find_append scanned_def)
    ultimately show ?thesis using Some by auto
  qed
qed

lemma scanned_choose: "scanned ns q seen legacy \<Longrightarrow> choose_pull ns q seen = (if fst legacy \<noteq> 0 then legacy else (0, ''''))"
  by (auto simp: scanned_def choose_pull_def split: option.splits)

fun page_of :: "gh_call \<Rightarrow> pull list" where
  "page_of (ListPulls _ (Inr (prs, _))) = prs"
| "page_of _ = []"

definition listed :: "gh_call list \<Rightarrow> pull list" where "listed s = concat (map page_of s)"

lemma listed_simps [simp]: "listed [] = []" "listed (e # s) = page_of e @ listed s"
  by (simp_all add: listed_def)

definition found_in :: "string \<Rightarrow> string \<Rightarrow> nat \<Rightarrow> pull list \<Rightarrow> (int \<times> string) result option \<Rightarrow> gh_call list \<Rightarrow> bool" where
  "found_in ns q fuel seen r s \<longleftrightarrow> (case r of
     None \<Rightarrow> length s = fuel
   | Some (Inl e) \<Rightarrow> (\<exists>page err. last s = ListPulls page (Inl err))
   | Some (Inr x) \<Rightarrow> x = choose_pull ns q (seen @ listed s)
       \<and> ((\<exists>page prs. last s = ListPulls page (Inr (prs, 0))) \<or> (\<exists>pr \<in> set (listed s). own ns q pr \<noteq> None)))
   \<and> (s = [] \<longrightarrow> r = None)"

lemma ensures_find_pages:
  "scanned ns q seen legacy \<Longrightarrow>
     ensures (find_pages g fuel ns q page legacy :: ('m, (int \<times> string) result option) ghprog) (found_in ns q fuel seen)"
proof (induction fuel arbitrary: page legacy seen)
  case 0
  show ?case by (simp add: ensures_return found_in_def)
next
  case (Suc fuel)
  show ?case
  proof (simp, intro ensures_intro)
    fix r :: "(pull list \<times> int) result" and e :: error assume "r = Inl e"
    then show "found_in ns q (Suc fuel) seen (Some (Inl (Errorf ''failed to list pull requests'' [e]))) [ListPulls page r]"
      by (simp add: found_in_def)
  next
    fix r :: "(pull list \<times> int) result" and x prs next_page found
    assume "r = Inr x" "x = (prs, next_page)" "scan_page ns q prs legacy = Inr found"
    then show "found_in ns q (Suc fuel) seen (Some (Inr found)) [ListPulls page r]"
      using scan_page_scanned [OF Suc.prems, of prs] by (auto simp: found_in_def)
  next
    fix r :: "(pull list \<times> int) result" and x prs next_page legacy'
    assume x: "r = Inr x" "x = (prs, next_page)" "scan_page ns q prs legacy = Inl legacy'"
    then have s: "scanned ns q (seen @ prs) legacy'" using scan_page_scanned [OF Suc.prems, of prs] by simp
    {
      assume "next_page = 0"
      with x scanned_choose [OF s]
      show "found_in ns q (Suc fuel) seen (Some (Inr (if fst legacy' \<noteq> 0 then legacy' else (0, '''')))) [ListPulls page r]"
        by (simp add: found_in_def)
    next
      assume "next_page \<noteq> 0"
      show "ensures (find_pages g fuel ns q next_page legacy' :: ('m, (int \<times> string) result option) ghprog) (\<lambda>y s. found_in ns q (Suc fuel) seen y (ListPulls page r # s))"
        by (rule ensures_weaken [OF Suc.IH [OF s]])
          (use x in \<open>auto simp: found_in_def split: option.splits sum.splits\<close>)
    }
  qed
qed

text \<open>
  (C15) The adopted pull request is the first of the quota's own among those listed.
  One of the ambiguous old naming scheme is taken only when every page was read and held none of
  the quota's own, wherever the two stand in the list. An error of the listing is reported.
\<close>

theorem FindOpenPR_chooses:
  "ensures (GitHub_FindOpenPR g fuel ns q) (\<lambda>r s. case r of
     None \<Rightarrow> length s = fuel
   | Some (Inl e) \<Rightarrow> (\<exists>page err. last s = ListPulls page (Inl err))
   | Some (Inr x) \<Rightarrow> x = choose_pull ns q (listed s)
       \<and> ((\<exists>page prs. last s = ListPulls page (Inr (prs, 0))) \<or> (\<exists>pr \<in> set (listed s). own ns q pr \<noteq> None)))"
  unfolding GitHub_FindOpenPR_def
  by (rule ensures_weaken [OF ensures_find_pages [where seen = "[]"]])
    (auto simp: scanned_def found_in_def split: option.splits sum.splits)

text \<open>A pull request with a direction label that is not \<^verbatim>\<open>grow\<close> is a shrink, wherever the label stands.\<close>

lemma directionFromLabels_iff:
  "directionFromLabels labels = (if \<exists>l \<in> set labels. HasPrefix l labelDirectionPrefix \<and> l \<noteq> labelDirectionPrefix @ git_grow
     then git_shrink else git_grow)"
  by (induction labels) (auto simp: HasPrefix_iff TrimPrefix_append)

section \<open>The search ends\<close>

lemma find_pages_ends:
  assumes pages: "\<And>t p prs n. pulls_of (gh g) t p = Inr (prs, n) \<Longrightarrow> n = 0 \<or> p < n \<and> n \<le> final"
  shows "int fuel > final - page \<Longrightarrow> 0 < fuel \<Longrightarrow> fst (run_state (find_pages g fuel ns q page legacy) w) \<noteq> None"
proof (induction fuel arbitrary: page legacy w)
  case (Suc fuel)
  show ?case
  proof (cases "pulls_of (gh g) (calls w) page")
    case (Inr x)
    obtain prs n where x: "x = (prs, n)" by (cases x)
    have "n \<noteq> 0 \<Longrightarrow> int fuel > final - n \<and> 0 < fuel"
      using pages [OF Inr [unfolded x]] Suc.prems by auto
    with Suc.IH Inr x show ?thesis by (auto split: sum.splits)
  qed simp
qed simp

text \<open>
  (C34) When every page that is not the last names a later one, up to a last page, the
  search returns: reading as many pages as there are is enough.
\<close>

theorem FindOpenPR_ends:
  assumes "\<And>t p prs n. pulls_of (gh g) t p = Inr (prs, n) \<Longrightarrow> n = 0 \<or> p < n \<and> n \<le> int final" and "final < fuel"
  shows "\<exists>r. fst (run_state (GitHub_FindOpenPR g fuel ns q) w) = Some r"
  unfolding GitHub_FindOpenPR_def
  using find_pages_ends [where g = g and final = "int final" and fuel = fuel and page = 0, OF assms(1)] assms(2) by simp

section \<open>Status\<close>

text \<open>
  (C35) A status is reported only with the checks of the head commit, when there is
  one: a failed lookup of the checks is an error, never a pull request without checks.
\<close>

theorem GetPRStatus_checks:
  "ensures (GitHub_GetPRStatus g prID) (\<lambda>r s. case r of
     Inl _ \<Rightarrow> (\<exists>e. last s = GetPull prID (Inl e)) \<or> (\<exists>sha e. last s = GetCombinedStatus sha (Inl e))
   | Inr st \<Rightarrow> (\<exists>pr. GetPull prID (Inr pr) \<in> set s \<and> IsOpen st = (Pull_State pr = ''open'') \<and> IsMerged st = Pull_Merged pr
       \<and> Mergeable st = Pull_Mergeable pr \<and> MergeableState st = Pull_MergeableState pr \<and> CreatedAt st = Pull_CreatedAt pr
       \<and> (case Pull_Head pr of
            Some (_, Some sha) \<Rightarrow> (\<exists>total. GetCombinedStatus sha (Inr (ChecksState st, total)) \<in> set s
              \<and> ChecksTotalCount st = (case total of None \<Rightarrow> 0 | Some n \<Rightarrow> n))
          | _ \<Rightarrow> ChecksState st = '''' \<and> ChecksTotalCount st = 0)))"
  unfolding GitHub_GetPRStatus_def Let_def by (intro ensures_intro) simp_all

section \<open>What is written\<close>

fun gh_writes :: "gh_call \<Rightarrow> bool" where
  "gh_writes (CreateRef _ _ _) = True"
| "gh_writes (UpdateFile _ _ _) = True"
| "gh_writes (CreatePull _ _) = True"
| "gh_writes (AddLabels _ _ _) = True"
| "gh_writes (EditPull _ _ _) = True"
| "gh_writes (CreateComment _ _ _) = True"
| "gh_writes (MergePull _ _ _ _) = True"
| "gh_writes _ = False"

abbreviation written :: "gh_call list \<Rightarrow> gh_call list" where "written \<equiv> filter gh_writes"

text \<open>The file an edit starts from: read on the branch, and naming the quota.\<close>

definition quota_file :: "string \<Rightarrow> string \<Rightarrow> string \<Rightarrow> content_entry \<Rightarrow> gh_call list \<Rightarrow> bool" where
  "quota_file ref q path fc s \<longleftrightarrow> GetContents path ref (Inr (File fc)) \<in> set s
     \<and> (\<exists>content. GetContent fc = Inr content \<and> Contains content ''kind: ResourceQuota'' \<and> Contains content (''name: '' @ q))"

lemma quota_file_mono: "quota_file ref q path fc s \<Longrightarrow> set s \<subseteq> set s' \<Longrightarrow> quota_file ref q path fc s'"
  unfolding quota_file_def by blast

definition searched :: "string \<Rightarrow> string \<Rightarrow> (string \<times> content_entry) result \<Rightarrow> gh_call list \<Rightarrow> bool" where
  "searched ref q r s \<longleftrightarrow> written s = [] \<and> (case r of Inl _ \<Rightarrow> True | Inr (path, fc) \<Rightarrow> quota_file ref q path fc s)"

lemma searched_Cons: "searched ref q r s \<Longrightarrow> \<not> gh_writes e \<Longrightarrow> searched ref q r (e # s)"
  unfolding searched_def by (auto split: sum.splits intro: quota_file_mono)

lemma ensures_find_file: "ensures (find_file g basePath ref q files :: ('m, _) ghprog) (searched ref q)"
proof (induction files)
  case Nil
  show ?case by (simp add: ensures_return searched_def)
next
  case (Cons f files)
  let ?call = "GetContents (Entry_Path f) ref"
  have step: "ensures (find_file g basePath ref q files :: ('m, _) ghprog) (\<lambda>r s. searched ref q r (?call x # s))" for x
    by (rule ensures_weaken [OF Cons.IH]) (simp add: searched_Cons)
  have hit: "searched ref q (Inr (Entry_Path f, fc)) [?call (Inr (File fc))]"
    if "GetContent fc = Inr content" "Contains content ''kind: ResourceQuota''" "Contains content (''name: '' @ q)" for fc content
    using that by (simp add: searched_def quota_file_def)
  have fail: "searched ref q (Inl e) [?call x]" for e x by (simp add: searched_def)
  show ?case
    unfolding find_file.simps
    by (intro ensures_intro Cons.IH step fail) (auto intro!: Cons.IH step hit fail)
qed

lemma ensures_findQuotaFile: "ensures (findQuotaFile g basePath ref q :: ('m, _) ghprog) (searched ref q)"
  unfolding findQuotaFile_def
  by (auto intro!: ensures_intro ensures_weaken [OF ensures_find_file] searched_Cons simp: searched_def [of _ _ "Inl _"])

text \<open>The attempts to label a pull request.\<close>

fun label_failed :: "int \<Rightarrow> string list \<Rightarrow> gh_call \<Rightarrow> bool" where
  "label_failed n labels (AddLabels n' labels' (Inl _)) \<longleftrightarrow> n' = n \<and> labels' = labels"
| "label_failed n labels _ \<longleftrightarrow> False"

definition labelled :: "int \<Rightarrow> string list \<Rightarrow> nat \<Rightarrow> unit result \<Rightarrow> gh_call list \<Rightarrow> bool" where
  "labelled n labels k r s \<longleftrightarrow> (\<exists>a. list_all (label_failed n labels) a \<and> length a \<le> k \<and>
     (case r of Inr _ \<Rightarrow> written s = a @ [AddLabels n labels (Inr ())] | Inl _ \<Rightarrow> written s = a))"

lemma ensures_label_loop: "ensures (label_loop g n labels k :: ('m, _) ghprog) (labelled n labels k)"
proof (induction k)
  case 0
  show ?case by (simp add: ensures_return labelled_def)
next
  case (Suc k)
  have more: "labelled n labels (Suc k) r (AddLabels n labels (Inl e) # Backoff None # s)" if "labelled n labels k r s" for r e s
  proof -
    from that obtain a where "list_all (label_failed n labels) a" "length a \<le> k"
      "case r of Inr _ \<Rightarrow> written s = a @ [AddLabels n labels (Inr ())] | Inl _ \<Rightarrow> written s = a" unfolding labelled_def by blast
    then show ?thesis unfolding labelled_def by (intro exI [of _ "AddLabels n labels (Inl e) # a"]) (auto split: sum.splits)
  qed
  have failed: "labelled n labels (Suc j) (Inl x) (AddLabels n labels (Inl e) # s)" if "written s = []" for j x e s
    unfolding labelled_def using that by (intro exI [of _ "[AddLabels n labels (Inl e)]"]) simp
  have ok: "labelled n labels (Suc k) (Inr ()) [AddLabels n labels (Inr u)]" for u :: unit
    unfolding labelled_def by (intro exI [of _ "[]"]) simp
  show ?case
    by (auto intro!: ensures_intro failed ok ensures_weaken [OF Suc.IH] more)
qed

abbreviation pr_labels :: "string \<Rightarrow> string \<Rightarrow> string list" where
  "pr_labels ns direction \<equiv> [labelManaged, ''resizer/ns:'' @ ns, labelDirectionPrefix @ direction]"

definition closed_again :: "int \<Rightarrow> gh_call list \<Rightarrow> bool" where
  "closed_again n w \<longleftrightarrow> (\<exists>e. w = [CreateComment n unlabelledShrinkComment (Inl e)])
     \<or> (\<exists>c. w = [CreateComment n unlabelledShrinkComment (Inr ()), EditPull n (Set_State ''closed'') c])"

definition settled :: "string \<Rightarrow> string \<Rightarrow> int \<Rightarrow> int result \<Rightarrow> gh_call list \<Rightarrow> bool" where
  "settled ns direction n r w \<longleftrightarrow> (\<exists>a b. w = a @ b \<and> list_all (label_failed n (pr_labels ns direction)) a \<and> length a \<le> labelAttempts \<and>
     (b = [AddLabels n (pr_labels ns direction) (Inr ())] \<and> r = Inr n
      \<or> b = [] \<and> direction \<noteq> git_shrink \<and> r = Inr n
      \<or> closed_again n b \<and> direction = git_shrink \<and> isl r))"

lemma ensures_close_again:
  "ensures (GitHub_ClosePR g n unlabelledShrinkComment :: ('m, _) ghprog) (\<lambda>r s. closed_again n (written s))"
  unfolding GitHub_ClosePR_def by (intro ensures_intro) (simp_all add: closed_again_def)

lemma ensures_label_or_close:
  "ensures (label_or_close g ns direction n :: ('m, _) ghprog) (\<lambda>r s. settled ns direction n r (written s))"
  unfolding label_or_close_def addLabels_def
proof (rule ensures_bind [OF ensures_label_loop], intro ensures_intro)
  let ?l = "pr_labels ns direction"
  fix r s and x :: unit
  assume "labelled n ?l labelAttempts r s" and "r = Inr x"
  then show "settled ns direction n (Inr n) (written (s @ []))" unfolding labelled_def settled_def by auto
next
  let ?l = "pr_labels ns direction"
  fix r s e
  assume l: "labelled n ?l labelAttempts r s" and e: "r = Inl e"
  {
    assume "direction \<noteq> git_shrink"
    with l e show "settled ns direction n (Inr n) (written (s @ []))" unfolding labelled_def settled_def by auto
  next
    assume "\<not> direction \<noteq> git_shrink"
    with l e have done_: "closed_again n (written t) \<Longrightarrow> settled ns direction n (Inl err) (written s @ written t)" for t err
      unfolding labelled_def settled_def by auto
    show "ensures (GitHub_ClosePR g n unlabelledShrinkComment \<bind> (\<lambda>c. case c of
          Inl closeErr \<Rightarrow> return (Inl (Errorf (''failed to label shrink PR '' @ itoa n @ '' and failed to close it again'') [e, closeErr]))
        | Inr _ \<Rightarrow> return (Inl (Errorf (''failed to label shrink PR '' @ itoa n @ '', closed it again'') [e]))) :: ('m, _) ghprog)
       (\<lambda>y s'. settled ns direction n y (written (s @ s')))"
      by (rule ensures_bind [OF ensures_close_again]) (auto intro!: ensures_intro done_)
  }
qed

text \<open>The commit of a new pull request.\<close>

definition commits :: "'q resource_api \<Rightarrow> 'x yaml_api \<Rightarrow> string \<Rightarrow> string \<Rightarrow> 'q smap \<Rightarrow> string \<Rightarrow> file_options \<Rightarrow> gh_call list \<Rightarrow> bool" where
  "commits Q Y branch q limits path opts s \<longleftrightarrow> Opt_Branch opts = branch \<and>
     (\<exists>fc content. quota_file branch q path fc s \<and> GetContent fc = Inr content \<and> Opt_SHA opts = Entry_SHA fc
        \<and> applyChangesToYaml Y content (limit_texts Q limits) = Inr (Opt_Content opts))"

lemma commits_mono: "commits Q Y branch q limits path opts s \<Longrightarrow> set s \<subseteq> set s' \<Longrightarrow> commits Q Y branch q limits path opts s'"
  unfolding commits_def using quota_file_mono by metis

definition opened ::
  "'q resource_api \<Rightarrow> 'x yaml_api \<Rightarrow> string \<Rightarrow> string \<Rightarrow> string \<Rightarrow> 'q smap \<Rightarrow> string \<Rightarrow> string \<Rightarrow> int result \<Rightarrow> gh_call list \<Rightarrow> bool" where
  "opened Q Y q ns direction limits base branch r s \<longleftrightarrow>
       written s = [] \<and> isl r
     \<or> (\<exists>path opts e. written s = [UpdateFile path opts (Inl e)] \<and> commits Q Y branch q limits path opts s) \<and> isl r
     \<or> (\<exists>path opts p c w. written s = UpdateFile path opts (Inr ()) # CreatePull p c # w
          \<and> commits Q Y branch q limits path opts s \<and> New_Head p = branch \<and> New_Base p = base
          \<and> (case c of Inl _ \<Rightarrow> w = [] \<and> isl r | Inr n \<Rightarrow> settled ns direction n r w))"

lemma ensures_commit_and_open:
  "ensures (commit_and_open g Q Y q ns direction annotations limits base branch :: ('m, _) ghprog)
     (opened Q Y q ns direction limits base branch)"
  unfolding commit_and_open_def Let_def
proof (intro ensures_intro ensures_or_wrap [OF ensures_findQuotaFile])
  fix basePath x s targetFile fc content newContent
  assume f: "searched branch q (Inr x) s" "x = (targetFile, fc)" "GetContent fc = Inr content"
    "applyChangesToYaml Y content (limit_texts Q limits) = Inr newContent"
  let ?opts = "\<lparr>Opt_Message = ''chore('' @ ns @ ''): resize quota '' @ q, Opt_Content = newContent, Opt_SHA = Entry_SHA fc, Opt_Branch = branch\<rparr>"
  let ?p = "\<lparr>New_Title = if direction = git_shrink then ''Shrink Quota '' @ q @ '' in '' @ ns else ''Resize Quota '' @ q @ '' in '' @ ns,
      New_Head = branch, New_Base = base, New_Body = generatePRBody Q ns q limits\<rparr>"
  have w: "written s = []" and qf: "quota_file branch q targetFile fc s" using f(1,2) by (simp_all add: searched_def)
  have c: "commits Q Y branch q limits targetFile ?opts (s @ t)" for t
    unfolding commits_def using f(3,4) quota_file_mono [OF qf, of "s @ t"] by auto
  show "opened Q Y q ns direction limits base branch (Inl (Errorf ''failed to commit file'' [e])) (s @ [UpdateFile targetFile ?opts (Inl e)])" for e
    unfolding opened_def using w c by auto
  show "opened Q Y q ns direction limits base branch (Inl (Errorf ''failed to create PR'' [e]))
      (s @ [UpdateFile targetFile ?opts (Inr u), CreatePull ?p (Inl e)])" for u :: unit and e
    unfolding opened_def using w c by auto
  show "ensures (label_or_close g ns direction n :: ('m, _) ghprog)
      (\<lambda>r t. opened Q Y q ns direction limits base branch r (s @ UpdateFile targetFile ?opts (Inr u) # CreatePull ?p (Inr n) # t))" for u :: unit and n
    by (rule ensures_weaken [OF ensures_label_or_close]) (use w c in \<open>auto simp: opened_def\<close>)
qed (auto simp: opened_def searched_def)

definition created ::
  "'q resource_api \<Rightarrow> 'x yaml_api \<Rightarrow> string \<Rightarrow> string \<Rightarrow> string \<Rightarrow> 'q smap \<Rightarrow> int result \<Rightarrow> gh_call list \<Rightarrow> bool" where
  "created Q Y q ns direction limits r s \<longleftrightarrow> written s = [] \<and> isl r \<or>
     (\<exists>base sha now s'. let branch = branchName direction ns q now; cut = CreateRef (''refs/heads/'' @ branch) sha in
        (\<exists>e. s = [GetRepo (Inr base), GetRef (''refs/heads/'' @ base) (Inr sha), GhClock now, cut (Inl e)]) \<and> isl r
      \<or> s = GetRepo (Inr base) # GetRef (''refs/heads/'' @ base) (Inr sha) # GhClock now # cut (Inr ()) # s'
          \<and> opened Q Y q ns direction limits base branch r s')"

lemma ensures_CreatePR:
  "ensures (GitHub_CreatePR g Q Y q ns direction annotations limits :: ('m, _) ghprog) (created Q Y q ns direction limits)"
  unfolding GitHub_CreatePR_def Let_def
  by (intro ensures_intro ensures_weaken [OF ensures_commit_and_open]) (auto simp: created_def Let_def)

text \<open>What a write of \<^verbatim>\<open>CreatePR\<close> may be, given the base branch and the new branch.\<close>

definition write_ok ::
  "'q resource_api \<Rightarrow> 'x yaml_api \<Rightarrow> string \<Rightarrow> 'q smap \<Rightarrow> string \<Rightarrow> string \<Rightarrow> gh_call list \<Rightarrow> gh_call \<Rightarrow> bool" where
  "write_ok Q Y q limits base branch s e \<longleftrightarrow> (case e of
     CreateRef ref sha _ \<Rightarrow> ref = ''refs/heads/'' @ branch \<and> GetRef (''refs/heads/'' @ base) (Inr sha) \<in> set s
   | UpdateFile path opts _ \<Rightarrow> commits Q Y branch q limits path opts s
   | CreatePull p _ \<Rightarrow> New_Head p = branch \<and> New_Base p = base
   | AddLabels n _ _ \<Rightarrow> (\<exists>p. CreatePull p (Inr n) \<in> set s)
   | CreateComment n _ _ \<Rightarrow> (\<exists>p. CreatePull p (Inr n) \<in> set s)
   | EditPull n edit _ \<Rightarrow> edit = Set_State ''closed'' \<and> (\<exists>p. CreatePull p (Inr n) \<in> set s)
   | _ \<Rightarrow> False)"

lemma settled_write_ok:
  assumes "settled ns direction n r w" and "CreatePull p (Inr n) \<in> set s"
  shows "list_all (write_ok Q Y q limits base branch s) w"
proof -
  have "label_failed n l e \<Longrightarrow> write_ok Q Y q limits base branch s e" for l e
    using assms(2) by (cases "(n, l, e)" rule: label_failed.cases) (auto simp: write_ok_def)
  then have "list_all (label_failed n l) a \<Longrightarrow> list_all (write_ok Q Y q limits base branch s) a" for l a
    unfolding list_all_iff by blast
  moreover have "closed_again n b \<Longrightarrow> list_all (write_ok Q Y q limits base branch s) b" for b
    using assms(2) by (auto simp: closed_again_def write_ok_def)
  ultimately show ?thesis using assms unfolding settled_def by (auto simp: write_ok_def)
qed

lemma settled_no_pull: "settled ns direction n r w \<Longrightarrow> CreatePull p c \<notin> set w"
  unfolding settled_def closed_again_def by (fastforce simp: list_all_iff)

lemma in_written: "e \<in> set (written s) \<Longrightarrow> e \<in> set s"
  by simp

lemma opened_write_ok:
  assumes "opened Q Y q ns direction limits base branch r s'" and "set s' \<subseteq> set s"
  shows "list_all (write_ok Q Y q limits base branch s) (written s')"
  using assms(1) unfolding opened_def
proof (elim disjE conjE exE)
  fix path opts p c w
  assume w: "written s' = UpdateFile path opts (Inr ()) # CreatePull p c # w" "commits Q Y branch q limits path opts s'"
    "New_Head p = branch" "New_Base p = base" and c: "case c of Inl _ \<Rightarrow> w = [] \<and> isl r | Inr n \<Rightarrow> settled ns direction n r w"
  have "CreatePull p c \<in> set (written s')" using w(1) by simp
  then have "CreatePull p c \<in> set s" using assms(2) by auto
  then have "list_all (write_ok Q Y q limits base branch s) w" using c settled_write_ok by (auto split: sum.splits)
  with w commits_mono [OF w(2) assms(2)] show ?thesis by (simp add: write_ok_def)
qed (auto simp: write_ok_def intro: commits_mono [OF _ assms(2)])

text \<open>
  (C21) Whatever goes wrong on the way, \<^verbatim>\<open>CreatePR\<close> writes nothing but a new branch cut
  from the default branch and named after the quota, the edited file of the quota on that branch,
  one pull request from that branch to the default branch, and labels, a comment or the closing of
  that pull request. It never merges, and no other branch is written.
\<close>

theorem CreatePR_own_branch:
  "ensures (GitHub_CreatePR g Q Y q ns direction annotations limits)
     (\<lambda>r s. written s = [] \<or> (\<exists>base now. GetRepo (Inr base) \<in> set s \<and> GhClock now \<in> set s
        \<and> list_all (write_ok Q Y q limits base (branchName direction ns q now) s) (written s)))"
proof (rule ensures_weaken [OF ensures_CreatePR])
  fix r s assume "created Q Y q ns direction limits r s"
  then show "written s = [] \<or> (\<exists>base now. GetRepo (Inr base) \<in> set s \<and> GhClock now \<in> set s
        \<and> list_all (write_ok Q Y q limits base (branchName direction ns q now) s) (written s))"
    unfolding created_def Let_def
  proof (elim disjE conjE exE)
    fix base sha now s' assume o: "opened Q Y q ns direction limits base (branchName direction ns q now) r s'"
      and s: "s = GetRepo (Inr base) # GetRef (''refs/heads/'' @ base) (Inr sha) # GhClock now
        # CreateRef (''refs/heads/'' @ branchName direction ns q now) sha (Inr ()) # s'"
    have "list_all (write_ok Q Y q limits base (branchName direction ns q now) s) (written s')"
      by (rule opened_write_ok [OF o]) (simp add: s subset_insertI2)
    then show ?thesis by (intro disjI2 exI [of _ base] exI [of _ now]) (simp add: s write_ok_def)
  qed (auto simp: write_ok_def)
qed


definition updated ::
  "'q resource_api \<Rightarrow> 'x yaml_api \<Rightarrow> int \<Rightarrow> string \<Rightarrow> string \<Rightarrow> 'q smap \<Rightarrow> unit result \<Rightarrow> gh_call list \<Rightarrow> bool" where
  "updated Q Y prID q ns limits r s \<longleftrightarrow> (\<exists>pr branch path opts fc. GetPull prID (Inr pr) \<in> set s
     \<and> branch = (case Pull_Head pr of None \<Rightarrow> '''' | Some (ref, _) \<Rightarrow> ref)
     \<and> commits Q Y branch q limits path opts s
     \<and> GetContents path branch (Inr (File fc)) \<in> set s \<and> GetContent fc \<noteq> Inr (Opt_Content opts)
     \<and> ((\<exists>e. written s = [UpdateFile path opts (Inl e)]) \<and> isl r
        \<or> (\<exists>c. written s = [UpdateFile path opts (Inr ()), EditPull prID (Set_Body (generatePRBody Q ns q limits)) c] \<and> isl r = isl c)))"

text \<open>
  (C31) \<^verbatim>\<open>UpdatePR\<close> commits to the head branch of the pull request only, only the edited
  file of the quota, and only when the edit changes it. The body is rewritten after the commit.
\<close>

theorem UpdatePR_own_branch:
  "ensures (GitHub_UpdatePR g Q Y prID q ns annotations limits)
     (\<lambda>r s. written s = [] \<or> updated Q Y prID q ns limits r s)"
  unfolding GitHub_UpdatePR_def Let_def
proof (intro ensures_intro ensures_or_fail [OF ensures_findQuotaFile])
  fix pr :: pull and basePath x s path fc content newContent
  let ?branch = "case Pull_Head pr of None \<Rightarrow> '''' | Some (ref, _) \<Rightarrow> ref"
  assume f: "searched ?branch q (Inr x) s" "x = (path, fc)" "GetContent fc = Inr content"
    "applyChangesToYaml Y content (limit_texts Q limits) = Inr newContent" "newContent \<noteq> content"
  let ?opts = "\<lparr>Opt_Message = ''chore('' @ ns @ ''): update quota resize '' @ q, Opt_Content = newContent, Opt_SHA = Entry_SHA fc, Opt_Branch = ?branch\<rparr>"
  let ?e = "EditPull prID (Set_Body (generatePRBody Q ns q limits))"
  have w: "written s = []" and qf: "quota_file ?branch q path fc s" using f(1,2) by (simp_all add: searched_def)
  have c: "commits Q Y ?branch q limits path ?opts (GetPull prID (Inr pr) # s @ t)" for t
    unfolding commits_def using f(3,4) quota_file_mono [OF qf, of "GetPull prID (Inr pr) # s @ t"] by auto
  have g: "GetContents path ?branch (Inr (File fc)) \<in> set s" "GetContent fc \<noteq> Inr (Opt_Content ?opts)"
    using qf f(3,5) by (simp_all add: quota_file_def)
  have Q: "updated Q Y prID q ns limits r (GetPull prID (Inr pr) # s @ t)" if "(\<exists>e. written t = [UpdateFile path ?opts (Inl e)]) \<and> isl r
      \<or> (\<exists>c. written t = [UpdateFile path ?opts (Inr ()), ?e c] \<and> isl r = isl c)" for r t
    unfolding updated_def
    by (rule exI [of _ pr], rule exI, rule exI [of _ path], rule exI [of _ ?opts], rule exI [of _ fc])
      (use that c g w in auto)
  let ?R = "\<lambda>r s. written s = [] \<or> updated Q Y prID q ns limits r s"
  show "?R (Inl (Errorf ''failed to update file'' [e])) (GetPull prID (Inr pr) # s @ [UpdateFile path ?opts (Inl e)])" for e
    by (rule disjI2, rule Q) simp
  show "?R (Inl (Errorf ''failed to update PR body'' [e])) (GetPull prID (Inr pr) # s @ [UpdateFile path ?opts (Inr u), ?e (Inl e)])" for u :: unit and e
    by (rule disjI2, rule Q) simp
  show "?R (Inr ()) (GetPull prID (Inr pr) # s @ [UpdateFile path ?opts (Inr u), ?e (Inr v)])" for u v :: unit
    by (rule disjI2, rule Q) simp
qed (auto simp: searched_def)

section \<open>Examples\<close>

definition sample_entry :: "string \<Rightarrow> content_entry" where
  "sample_entry content = \<lparr>Entry_Type = ''file'', Entry_Name = ''quota.yaml'', Entry_Path = ''apps/quota.yaml'', Entry_SHA = Some ''s1'', GetContent = Inr content\<rparr>"

text \<open>A repository with one file; labels cannot be attached.\<close>

definition sample_github :: "contents result \<Rightarrow> string \<Rightarrow> github" where
  "sample_github dir content = \<lparr>repo_of = (\<lambda>_. Inr ''main''), ref_of = (\<lambda>_ _. Inr ''s0''), ref_created = (\<lambda>_ _ _. Inr ()),
     contents_of = (\<lambda>_ path _. if path = ''apps'' then dir else Inr (File (sample_entry content))),
     file_updated = (\<lambda>_ _ _. Inr ()), pull_created = (\<lambda>_ _. Inr 7), labels_added = (\<lambda>_ _ _. Inl (StatusError 500)),
     backoff = (\<lambda>_. None), pull_of = (\<lambda>_ _. Inl (StatusError 404)), pull_edited = (\<lambda>_ _ _. Inr ()),
     comment_created = (\<lambda>_ _ _. Inr ()), pulls_of = (\<lambda>_ _. Inr ([], 0)), combined_of = (\<lambda>_ _. Inl (StatusError 404)),
     pull_merged = (\<lambda>_ _ _ _. Inl (StatusError 405)), gh_clock = (\<lambda>_. 0)\<rparr>"

definition sample_provider :: "contents result \<Rightarrow> string \<Rightarrow> GitHubProvider" where
  "sample_provider dir content = \<lparr>gh = sample_github dir content, clusterName = ''prod'', pathTemplate = (\<lambda>_ _. Inr ''apps'')\<rparr>"

definition no_calls :: "gh_call world" where "no_calls = \<lparr>calls = []\<rparr>"

definition compute_file :: string where "compute_file = ''kind: ResourceQuota name: compute''"

definition fixed_yaml :: "unit yaml_api" where "fixed_yaml = \<lparr>decode = (\<lambda>_. []), encode = (\<lambda>_. Inr ''new'')\<rparr>"

abbreviation sample_create :: "contents result \<Rightarrow> int result \<times> gh_call world" where
  "sample_create dir \<equiv> run_state (GitHub_CreatePR (sample_provider dir compute_file) nano_api fixed_yaml ''compute'' ''team'' git_shrink [] []) no_calls"

lemmas gh_eval = GitHub_CreatePR_def commit_and_open_def label_or_close_def addLabels_def labelAttempts_def numeral_eq_Suc GitHub_ClosePR_def
  run_or_wrap run_or_fail sample_provider_def sample_github_def resolvePath_def findQuotaFile_def sample_entry_def
  applyChangesToYaml_def fixed_yaml_def no_calls_def Let_def

lemma compute_file_contains: "Contains compute_file ''kind: ResourceQuota''" "Contains compute_file ''name: compute''"
  by (simp_all add: compute_file_def HasPrefix_def)

text \<open>
  The directory is looked up after the branch was created: a missing quota file leaves the branch
  behind, and the next attempt, with another time, creates another one.
\<close>

theorem CreatePR_leaves_branch:
  "\<exists>e. fst (sample_create (Inl (StatusError 404))) = Inl e \<and> err_is ((=) ErrFileNotFound) e
    \<and> written (calls (snd (sample_create (Inl (StatusError 404)))))
        = [CreateRef (''refs/heads/'' @ branchName git_shrink ''team'' ''compute'' 0) ''s0'' (Inr ())]"
  by (simp add: gh_eval)


text \<open>
  The file is recognised by containing the name of the quota after \<^verbatim>\<open>name: \<close>: the file of a quota
  whose name merely starts with it is taken as well.
\<close>

theorem findQuotaFile_neighbour:
  "fst (run_state (findQuotaFile (sample_provider (Inr (Dir [sample_entry ''kind: ResourceQuota name: compute-large''])) ''kind: ResourceQuota name: compute-large'')
     ''apps'' ''main'' ''compute'') no_calls) = Inr (''apps/quota.yaml'', sample_entry ''kind: ResourceQuota name: compute-large'')"
  by (simp add: gh_eval HasSuffix_def HasPrefix_def)

definition sample_pull :: pull where
  "sample_pull = \<lparr>Pull_Number = 7, Pull_State = ''open'', Pull_Merged = False, Pull_Mergeable = True, Pull_MergeableState = ''clean'',
     Pull_CreatedAt = 0, Pull_Head = Some (branchName git_shrink ''team-a'' ''compute'' 0, None), Pull_Labels = []\<rparr>"

theorem branch_owner_witness:
  "scan_page ''team'' ''a-compute'' [sample_pull] (0, '''') = Inl (0, '''')
   \<and> scan_page ''team-a'' ''compute'' [sample_pull] (0, '''') = Inr (7, git_shrink)"
  using branch_owner [of "''team''" "''a-compute''" "''team-a''" "''compute''" git_shrink sample_pull 0 None "[]" "(0, '''')"]
    branch_owner [of "''team-a''" "''compute''" "''team-a''" "''compute''" git_shrink sample_pull 0 None "[]" "(0, '''')"]
  by (simp add: sample_pull_def)

definition two_pages :: GitHubProvider where
  "two_pages = (sample_provider (Inr (Dir [])) '''')\<lparr>gh := (sample_github (Inr (Dir [])) '''')
     \<lparr>pulls_of := (\<lambda>_ p. if p = 0 then Inr ([], 2) else Inr ([sample_pull], 0))\<rparr>\<rparr>"

theorem FindOpenPR_ends_witness:
  "\<exists>r. fst (run_state (GitHub_FindOpenPR two_pages 3 ''team-a'' ''compute'') no_calls) = Some r"
  by (rule FindOpenPR_ends [where final = 2])
    (auto simp: two_pages_def sample_provider_def sample_github_def split: if_splits)

end
