(* ===== verification/Hosted.thy ===== *)
theory Hosted
  imports Hosting GitHub_Correct
begin

text \<open>
  The controller with the GitHub provider behind it. The history of the calls to GitHub is a
  function of the history of the controller: every call to the provider is one run of the
  provider's code (\<^verbatim>\<open>internal/git/github.go\<close>), which continues where the last one stopped.
\<close>

section \<open>The provider as a client\<close>

definition gh_run :: "(unit, 'a) ghprog \<Rightarrow> gh_call list \<Rightarrow> 'a \<times> gh_call list" where
  "gh_run m h = (case run_state m \<lparr>calls = h\<rparr> of (r, w) \<Rightarrow> (r, calls w))"

text \<open>What the provider is made of besides the client library.\<close>

record ('q, 'x) hosted =
  Provider :: GitHubProvider
  Host_Quantities :: "'q resource_api"
  Host_Yaml :: "'x yaml_api"
  Pages :: nat

fun gh_step :: "('q, 'x) hosted \<Rightarrow> 'q call \<Rightarrow> gh_call list \<Rightarrow> gh_call list" where
  "gh_step H (GetPRStatus i _) h = snd (gh_run (GitHub_GetPRStatus (Provider H) i) h)"
| "gh_step H (MergePR i how _) h = snd (gh_run (GitHub_MergePR (Provider H) i how) h)"
| "gh_step H (CreatePR q ns d a ls _) h = snd (gh_run (GitHub_CreatePR (Provider H) (Host_Quantities H) (Host_Yaml H) q ns d a ls) h)"
| "gh_step H (UpdatePR i q ns a ls _) h = snd (gh_run (GitHub_UpdatePR (Provider H) (Host_Quantities H) (Host_Yaml H) i q ns a ls) h)"
| "gh_step H (FindOpenPR ns q _) h = snd (gh_run (GitHub_FindOpenPR (Provider H) (Pages H) ns q) h)"
| "gh_step H (ClosePR i comment _) h = snd (gh_run (GitHub_ClosePR (Provider H) i comment) h)"
| "gh_step H _ h = h"

definition gh_after :: "('q, 'x) hosted \<Rightarrow> 'q call list \<Rightarrow> gh_call list" where
  "gh_after H t = fold (gh_step H) t []"

text \<open>A search that reads more than \<open>Pages\<close> pages has not returned; the caller goes no further.\<close>

definition hosted_client :: "('q, 'x) hosted \<Rightarrow> 'q client \<Rightarrow> 'q client" where
  "hosted_client H E = E\<lparr>
     pr_status := \<lambda>t i. fst (gh_run (GitHub_GetPRStatus (Provider H) i) (gh_after H t)),
     pr_merged := \<lambda>t i how. fst (gh_run (GitHub_MergePR (Provider H) i how) (gh_after H t)),
     pr_created := \<lambda>t q ns d a ls. fst (gh_run (GitHub_CreatePR (Provider H) (Host_Quantities H) (Host_Yaml H) q ns d a ls) (gh_after H t)),
     pr_updated := \<lambda>t i q ns a ls. fst (gh_run (GitHub_UpdatePR (Provider H) (Host_Quantities H) (Host_Yaml H) i q ns a ls) (gh_after H t)),
     pr_found := \<lambda>t ns q. (case fst (gh_run (GitHub_FindOpenPR (Provider H) (Pages H) ns q) (gh_after H t)) of
        None \<Rightarrow> Inl (OtherError ''no answer'') | Some r \<Rightarrow> r),
     pr_closed := \<lambda>t i comment. fst (gh_run (GitHub_ClosePR (Provider H) i comment) (gh_after H t))\<rparr>"

lemma hosted_client_simps [simp]:
  "pr_created (hosted_client H E) t q ns d a ls = fst (gh_run (GitHub_CreatePR (Provider H) (Host_Quantities H) (Host_Yaml H) q ns d a ls) (gh_after H t))"
  "pr_found (hosted_client H E) t ns q = (case fst (gh_run (GitHub_FindOpenPR (Provider H) (Pages H) ns q) (gh_after H t)) of
     None \<Rightarrow> Inl (OtherError ''no answer'') | Some r \<Rightarrow> r)"
  "lease_of (hosted_client H E) = lease_of E" "quota_of (hosted_client H E) = quota_of E"
  by (simp_all add: hosted_client_def)

lemma gh_after_snoc [simp]: "gh_after H (t @ [e]) = gh_step H e (gh_after H t)"
  by (simp add: gh_after_def)

lemma gh_after_Nil [simp]: "gh_after H [] = []"
  by (simp add: gh_after_def)

section \<open>The pull requests made so far\<close>

text \<open>The head branch of a pull request: the one it was created with.\<close>

fun pull_head :: "gh_call list \<Rightarrow> int \<Rightarrow> string option" where
  "pull_head [] n = None"
| "pull_head (CreatePull p (Inr m) # h) n = (if m = n then Some (New_Head p) else pull_head h n)"
| "pull_head (_ # h) n = pull_head h n"

fun is_pull :: "gh_call \<Rightarrow> bool" where
  "is_pull (CreatePull _ _) = True"
| "is_pull _ = False"

lemma pull_head_append: "pull_head (h @ s) n = (case pull_head h n of None \<Rightarrow> pull_head s n | Some r \<Rightarrow> Some r)"
  by (induction h n rule: pull_head.induct) auto

lemma pull_head_other: "list_all (\<lambda>e. \<not> is_pull e) s \<Longrightarrow> pull_head s n = None"
  by (induction s n rule: pull_head.induct) auto

text \<open>The direction that a branch name made by \<^verbatim>\<open>CreatePR\<close> carries.\<close>

definition ref_direction :: "string \<Rightarrow> string" where
  "ref_direction ref = takeWhile (\<lambda>c. c \<noteq> CHR ''/'') (drop 7 ref)"

lemma takeWhile_stop: "c \<notin> set d \<Longrightarrow> takeWhile (\<lambda>x. x \<noteq> c) (d @ c # x) = d"
  by (induction d) auto

lemma ref_direction_own: "HasPrefix ref (ownPrefix d ns q) \<Longrightarrow> slash_free d \<Longrightarrow> ref_direction ref = d"
  by (auto simp: takeWhile_stop HasPrefix_iff ownPrefix_def ref_direction_def)

lemma branchName_own: "HasPrefix (branchName d ns q now) (ownPrefix d ns q)"
  by (auto simp: HasPrefix_iff branchName_def ownPrefix_def)

definition hosted_dir :: "('q, 'x) hosted \<Rightarrow> 'q call list \<Rightarrow> int \<Rightarrow> string option" where
  "hosted_dir H t i = map_option ref_direction (pull_head (gh_after H t) i)"

text \<open>Every step only adds calls.\<close>

lemma gh_run_triple:
  assumes "triple I P m Q" and "I h" and "P h"
  shows "\<exists>s. snd (gh_run m h) = h @ s \<and> I (h @ s) \<and> Q (fst (gh_run m h)) (h @ s)"
proof -
  obtain r w where r: "run_state m \<lparr>calls = h\<rparr> = (r, w)" by force
  from tripleE [OF assms(1) r] assms(2,3) show ?thesis by (auto simp: gh_run_def r)
qed

lemma gh_run_ensures:
  assumes "ensures m Q"
  shows "\<exists>s. snd (gh_run m h) = h @ s \<and> Q (fst (gh_run m h)) s"
proof -
  obtain r w where r: "run_state m \<lparr>calls = h\<rparr> = (r, w)" by force
  from ensuresD [OF assms r] show ?thesis by (auto simp: gh_run_def r)
qed

section \<open>The calls of the operations\<close>

lemma triple_or_wrap:
  assumes "triple I P m R" and "\<And>e t. I t \<Longrightarrow> R (Inl e) t \<Longrightarrow> Q (Inl (Errorf msg [e])) t" and "\<And>x. triple I (R (Inr x)) (f x) Q"
  shows "triple I P (or_wrap msg m f) Q"
  unfolding or_wrap_def
  by (rule triple_bind [OF assms(1)]) (auto split: sum.split intro: triple_return assms(2,3))

lemma only_gh_reads:
  "only (\<lambda>e. \<not> gh_writes e) (findQuotaFile g basePath ref q :: ('m, _) ghprog)"
  by (rule ensures_weaken [OF ensures_findQuotaFile]) (simp add: searched_def filter_empty_conv list_all_iff)

text \<open>Neither a pull request nor a merge.\<close>

fun pull_free :: "gh_call \<Rightarrow> bool" where
  "pull_free (CreatePull _ _) = False"
| "pull_free (MergePull _ _ _ _) = False"
| "pull_free _ = True"

lemma pull_free_reads: "\<not> gh_writes e \<Longrightarrow> pull_free e"
  by (cases e) simp_all

lemma pull_free_findQuotaFile: "only pull_free (findQuotaFile g basePath ref q :: ('m, _) ghprog)"
  by (rule ensures_weaken [OF only_gh_reads]) (auto simp: list_all_iff pull_free_reads)

lemma only_or_wrap: "only A m \<Longrightarrow> (\<And>x. only A (f x)) \<Longrightarrow> only A (or_wrap msg m f)"
  by (erule ensures_or_wrap) (auto elim: ensures_weaken)

lemma pull_free_GetPRStatus: "only pull_free (GitHub_GetPRStatus g i :: ('m, _) ghprog)"
  unfolding GitHub_GetPRStatus_def Let_def by (intro ensures_intro) auto

lemma pull_free_ClosePR: "only pull_free (GitHub_ClosePR g i comment :: ('m, _) ghprog)"
  unfolding GitHub_ClosePR_def by (intro ensures_intro) auto

lemma pull_free_label_loop: "only pull_free (label_loop g n labels k :: ('m, _) ghprog)"
  by (induction k) (auto intro!: ensures_intro only_bind)

lemma pull_free_UpdatePR: "only pull_free (GitHub_UpdatePR g Q Y i q ns a ls :: ('m, _) ghprog)"
  unfolding GitHub_UpdatePR_def Let_def
  by (intro only_or_fail only_or_wrap pull_free_findQuotaFile ensures_sum ensures_prod ensures_if ensures_ask ensures_return) simp_all

lemma pull_free_find_pages: "only pull_free (find_pages g fuel ns q page legacy :: ('m, _) ghprog)"
  by (induction fuel arbitrary: page legacy) (auto intro!: only_bind ensures_intro)

lemma pull_free_label_or_close: "only pull_free (label_or_close g ns d n :: ('m, _) ghprog)"
  unfolding label_or_close_def addLabels_def
  by (intro only_bind pull_free_label_loop pull_free_ClosePR ensures_sum ensures_if ensures_return) simp_all

text \<open>\<^verbatim>\<open>CreatePR\<close> is the only operation that makes a pull request.\<close>

definition good_head :: "string \<Rightarrow> bool" where
  "good_head ref \<longleftrightarrow> (\<exists>d \<in> {''grow'', ''shrink''}. \<exists>ns q now. ref = branchName d ns q now)"

definition heads_ok :: "gh_call list \<Rightarrow> bool" where
  "heads_ok h \<longleftrightarrow> (\<forall>n ref. pull_head h n = Some ref \<longrightarrow> good_head ref)"

lemma pull_free_pull: "pull_free e \<Longrightarrow> \<not> is_pull e"
  by (cases e) simp_all

lemma pull_head_plain: "\<not> is_pull e \<Longrightarrow> pull_head (h @ [e]) n = pull_head h n"
  by (cases e) (simp_all add: pull_head_append split: option.split)

lemma stays_heads_ok: "stays pull_free heads_ok"
  unfolding stays_def heads_ok_def using pull_free_pull by (auto simp: pull_head_plain)

lemma stays_pull_head: "stays A (\<lambda>h. pull_head h n = Some ref)"
  unfolding stays_def by (simp add: pull_head_append)

lemma branchName_good: "d \<in> {''grow'', ''shrink''} \<Longrightarrow> good_head (branchName d ns q now)"
  unfolding good_head_def by blast

lemma ensures_both: "ensures m P \<Longrightarrow> ensures m Q \<Longrightarrow> ensures m (\<lambda>r s. P r s \<and> Q r s)"
  unfolding ensures_def by (metis same_append_eq)

lemma label_or_close_number: "ensures (label_or_close g ns d n :: ('m, _) ghprog) (\<lambda>r s. list_all pull_free s \<and> (\<forall>i. r = Inr i \<longrightarrow> i = n))"
  by (rule ensures_weaken [OF ensures_both [OF pull_free_label_or_close ensures_label_or_close]]) (auto simp: settled_def)

section \<open>The history of GitHub grows\<close>

definition merges :: "int \<Rightarrow> gh_call list \<Rightarrow> bool" where
  "merges n h \<longleftrightarrow> (\<exists>msg how c. MergePull n msg how c \<in> set h)"

text \<open>Only \<^verbatim>\<open>MergePR\<close> merges.\<close>

lemma only_mono: "only A m \<Longrightarrow> (\<And>e. A e \<Longrightarrow> B e) \<Longrightarrow> only B m"
  by (erule ensures_weaken) (auto simp: list_all_iff)

fun is_merge :: "gh_call \<Rightarrow> bool" where
  "is_merge (MergePull _ _ _ _) = True"
| "is_merge _ = False"

lemma pull_free_merge: "pull_free e \<Longrightarrow> \<not> is_merge e"
  by (cases e) simp_all

lemma only_no_merge_CreatePR: "only (\<lambda>e. \<not> is_merge e) (GitHub_CreatePR g Q Y q ns d a ls :: ('m, _) ghprog)"
  unfolding GitHub_CreatePR_def commit_and_open_def Let_def
  by (intro only_or_wrap only_bind ensures_sum ensures_prod ensures_ask ensures_return
      only_mono [OF pull_free_findQuotaFile pull_free_merge] only_mono [OF pull_free_label_or_close pull_free_merge]) simp_all

lemma gh_run_no_merge:
  assumes "only (\<lambda>e. \<not> is_merge e) m"
  shows "\<exists>s. snd (gh_run m h) = h @ s \<and> (\<forall>n. \<not> merges n s)"
  using gh_run_ensures [OF assms, of h] unfolding merges_def list_all_iff by (metis is_merge.simps(1))

lemmas gh_run_plain = gh_run_no_merge [OF only_mono [OF _ pull_free_merge]]

lemma gh_step_extends: "\<exists>s. gh_step H e h = h @ s \<and> (\<forall>n. merges n s \<longrightarrow> (\<exists>how c. e = MergePR n how c))"
proof (cases e)
  case (MergePR i how c)
  show ?thesis unfolding MergePR gh_step.simps GitHub_MergePR_def Let_def gh_run_def by (auto simp: merges_def)
next
  case (CreatePR q ns d a ls c)
  show ?thesis using gh_run_no_merge [OF only_no_merge_CreatePR] unfolding CreatePR gh_step.simps by metis
next
  case (FindOpenPR ns q c)
  show ?thesis using gh_run_plain [OF pull_free_find_pages] unfolding FindOpenPR gh_step.simps GitHub_FindOpenPR_def by metis
next
  case (GetPRStatus i c)
  show ?thesis using gh_run_plain [OF pull_free_GetPRStatus] unfolding GetPRStatus gh_step.simps by metis
next
  case (UpdatePR i q ns a ls c)
  show ?thesis using gh_run_plain [OF pull_free_UpdatePR] unfolding UpdatePR gh_step.simps by metis
next
  case (ClosePR i comment c)
  show ?thesis using gh_run_plain [OF pull_free_ClosePR] unfolding ClosePR gh_step.simps by metis
qed (simp_all add: merges_def)

lemma hosted_dir_stays: "hosted_dir H t i = Some d \<Longrightarrow> hosted_dir H (t @ [e]) i = Some d"
  using gh_step_extends [of H e "gh_after H t"] by (auto simp: hosted_dir_def pull_head_append)

text \<open>A merge on GitHub is the merge the controller asked for.\<close>

lemma merges_asked: "merges n (gh_after H t) \<Longrightarrow> \<exists>how c. MergePR n how c \<in> set t"
proof (induction t rule: rev_induct)
  case (snoc e t)
  obtain s where s: "gh_step H e (gh_after H t) = gh_after H t @ s" "merges n s \<Longrightarrow> \<exists>how c. e = MergePR n how c"
    using gh_step_extends by metis
  from snoc.prems have "merges n (gh_after H t) \<or> merges n s" by (auto simp: s(1) merges_def)
  then show ?case
  proof
    assume "merges n s"
    from s(2) [OF this] show ?thesis by force
  qed (use snoc.IH in force)
qed (simp add: merges_def)

lemma asked_merges: "MergePR n how c \<in> set t \<Longrightarrow> merges n (gh_after H t)"
proof (induction t rule: rev_induct)
  case (snoc e t)
  obtain s where s: "gh_step H e (gh_after H t) = gh_after H t @ s" using gh_step_extends by metis
  have "merges n (gh_step H (MergePR n how c) h)" for h by (auto simp: gh_run_def GitHub_MergePR_def Let_def merges_def)
  moreover have "merges n (gh_after H t) \<Longrightarrow> merges n (gh_step H e (gh_after H t))" by (auto simp: s merges_def)
  ultimately show ?case using snoc by auto
qed simp

section \<open>What GitHub and the API server promise\<close>

text \<open>
  GitHub gives every pull request a new number, and lists pull requests with the head branch they
  were created with; branches under \<^verbatim>\<open>resize/\<close> are made by the controller only, none of the old
  naming scheme is left.
\<close>

locale github_host =
  fixes H :: "('q, 'x) hosted"
  assumes number_fresh: "pull_created (gh (Provider H)) h p = Inr n \<Longrightarrow> pull_head h n = None"
    and listed_head: "pulls_of (gh (Provider H)) h page = Inr (prs, nx) \<Longrightarrow> pr \<in> set prs \<Longrightarrow> Pull_Head pr = Some (ref, sha) \<Longrightarrow>
      HasPrefix ref ''resize/'' \<Longrightarrow> pull_head h (Pull_Number pr) = Some ref"
begin

lemma triple_pull_free: "(\<And>r. pull_free (entry r)) \<Longrightarrow> triple heads_ok (\<lambda>_. True) (ask answer entry) (\<lambda>_ _. True)"
  by (rule triple_ask_kept [where A = pull_free]) (simp_all add: stays_heads_ok stays_const)

lemma triple_commit_and_open:
  assumes "good_head branch"
  shows "triple heads_ok (\<lambda>_. True) (commit_and_open (Provider H) Q Y q ns d a ls base branch) (\<lambda>r h. \<forall>i. r = Inr i \<longrightarrow> pull_head h i = Some branch)"
proof -
  have src: "triple heads_ok (\<lambda>_. True) (findQuotaFile (Provider H) path branch q) (\<lambda>_ _. True)" for path
    by (rule triple_only [OF pull_free_findQuotaFile stays_heads_ok stays_const])
  have new: "triple heads_ok (\<lambda>_. True) (ask (\<lambda>t. pull_created (gh (Provider H)) t p) (CreatePull p))
      (\<lambda>r h. \<forall>n. r = Inr n \<longrightarrow> pull_head h n = Some branch)" if "New_Head p = branch" for p
  proof (rule triple_ask)
    fix t assume t: "heads_ok t"
    show "heads_ok (t @ [CreatePull p (pull_created (gh (Provider H)) t p)])
      \<and> (\<forall>n. pull_created (gh (Provider H)) t p = Inr n \<longrightarrow> pull_head (t @ [CreatePull p (pull_created (gh (Provider H)) t p)]) n = Some branch)"
      using t assms that number_fresh [of t p]
      by (cases "pull_created (gh (Provider H)) t p") (auto simp: heads_ok_def pull_head_append split: option.splits if_splits)
  qed
  have label: "triple heads_ok (\<lambda>h. \<forall>n. Inr m = Inr n \<longrightarrow> pull_head h n = Some branch) (label_or_close (Provider H) ns d m)
      (\<lambda>r h. \<forall>i. r = Inr i \<longrightarrow> pull_head h i = Some branch)" for m
    by (rule triple_conseq [OF triple_ensures [OF label_or_close_number stays_heads_ok stays_pull_head, of m branch]]) auto
  show ?thesis
    unfolding commit_and_open_def Let_def
    by (intro triple_or_wrap [OF new _ label] triple_sum triple_return triple_or_wrap [OF src] triple_prod triple_or_wrap [OF triple_pull_free])
      simp_all
qed

lemma triple_CreatePR:
  assumes "d \<in> {''grow'', ''shrink''}"
  shows "triple heads_ok (\<lambda>_. True) (GitHub_CreatePR (Provider H) Q Y q ns d a ls)
    (\<lambda>r h. \<forall>i. r = Inr i \<longrightarrow> (\<exists>now. pull_head h i = Some (branchName d ns q now)))"
  unfolding GitHub_CreatePR_def Let_def
  by (intro triple_or_wrap [OF triple_pull_free] triple_bind [OF triple_pull_free] triple_post [OF triple_commit_and_open])
    (auto intro: branchName_good [OF assms])

section \<open>The history of the calls to GitHub\<close>

lemma heads_ok_step:
  assumes "heads_ok h" and "\<And>q ns d a ls c. e = CreatePR q ns d a ls c \<Longrightarrow> d \<in> {''grow'', ''shrink''}"
  shows "heads_ok (gh_step H e h)"
proof -
  have kept: "heads_ok (snd (gh_run m h))" if "only pull_free m" for m :: "(unit, 'a) ghprog"
    using gh_run_triple [OF triple_only [OF that stays_heads_ok stays_const] assms(1) TrueI] by metis
  have merge: "heads_ok (snd (gh_run (GitHub_MergePR (Provider H) i how) h))" for i how
    using assms(1) by (auto simp: GitHub_MergePR_def Let_def gh_run_def heads_ok_def pull_head_plain)
  show ?thesis
  proof (cases e)
    case (CreatePR q ns d a ls c)
    from gh_run_triple [OF triple_CreatePR [OF assms(2) [OF CreatePR]] assms(1) TrueI] show ?thesis unfolding CreatePR by (metis gh_step.simps(3))
  qed (use assms(1) merge kept [OF pull_free_GetPRStatus] kept [OF pull_free_UpdatePR] kept [OF pull_free_find_pages] kept [OF pull_free_ClosePR]
      in \<open>simp_all add: GitHub_FindOpenPR_def\<close>)
qed

lemma directed_snoc: "directed (t @ [e]) \<longleftrightarrow> directed t \<and> (\<forall>q ns d a ls c. e = CreatePR q ns d a ls c \<longrightarrow> d \<in> {''grow'', ''shrink''})"
  unfolding directed_def set_append list.set Un_iff insert_iff empty_iff by blast

lemma heads_ok_after: "directed t \<Longrightarrow> heads_ok (gh_after H t)"
proof (induction t rule: rev_induct)
  case Nil
  show ?case by (simp add: heads_ok_def)
next
  case (snoc e t)
  then have "heads_ok (gh_after H t)" "\<And>q ns d a ls c. e = CreatePR q ns d a ls c \<Longrightarrow> d \<in> {''grow'', ''shrink''}"
    unfolding directed_snoc by blast+
  then show ?case by (simp add: heads_ok_step)
qed

section \<open>The search\<close>

text \<open>Every pull request that a page lists for the controller is one that it made.\<close>

definition ours :: "gh_call list \<Rightarrow> pull list \<Rightarrow> bool" where
  "ours h prs \<longleftrightarrow> (\<forall>pr \<in> set prs. \<forall>ref sha. Pull_Head pr = Some (ref, sha) \<longrightarrow> HasPrefix ref ''resize/'' \<longrightarrow>
     pull_head h (Pull_Number pr) = Some ref \<and> good_head ref)"

lemma listed_ours: "heads_ok h \<Longrightarrow> pulls_of (gh (Provider H)) h page = Inr (prs, nx) \<Longrightarrow> ours h prs"
  unfolding ours_def heads_ok_def using listed_head by blast

lemma scan_page_ours:
  assumes "ours h prs" and "slash_free ns" and "slash_free q"
  shows "case scan_page ns q prs (0, d0) of
      Inl legacy \<Rightarrow> legacy = (0, d0)
    | Inr (i, d) \<Rightarrow> \<exists>ref. pull_head h i = Some ref \<and> ref_direction ref = d"
  using assms(1)
proof (induction prs)
  case (Cons pr prs)
  have rest: "ours h prs" using Cons.prems by (auto simp: ours_def)
  show ?case
  proof (cases "Pull_Head pr")
    case (Some x)
    then obtain ref sha where x: "Pull_Head pr = Some (ref, sha)" by (cases x) simp
    have ours: "pull_head h (Pull_Number pr) = Some ref \<and> good_head ref" if "HasPrefix ref ''resize/''"
      using Cons.prems x that by (auto simp: ours_def)
    have own: "HasPrefix ref (ownPrefix d ns q) \<Longrightarrow> HasPrefix ref ''resize/''" for d by (auto simp: HasPrefix_iff ownPrefix_def)
    have "\<not> HasPrefix ref (legacyPrefix ns q)"
    proof
      assume l: "HasPrefix ref (legacyPrefix ns q)"
      then have "HasPrefix ref ''resize/''" by (auto simp: HasPrefix_iff legacyPrefix_def)
      with ours obtain d ns' q' now where "d \<in> {''grow'', ''shrink''}" "ref = branchName d ns' q' now" unfolding good_head_def by blast
      with l legacy_prefix_branch [OF _ _ assms(2,3), of d] show False by auto
    qed
    with Cons.IH [OF rest] ours own ref_direction_own show ?thesis
      by (auto simp: x git_grow_def git_shrink_def)
  qed (simp add: Cons.IH [OF rest])
qed simp

lemma triple_find_pages:
  assumes "slash_free ns" and "slash_free q"
  shows "triple heads_ok (\<lambda>h. pull_head h = M) (find_pages (Provider H) fuel ns q page (0, '''') :: ('m, _) ghprog)
    (\<lambda>r h. pull_head h = M \<and> (\<forall>i d. r = Some (Inr (i, d)) \<longrightarrow> i \<noteq> 0 \<longrightarrow> (\<exists>ref. M i = Some ref \<and> ref_direction ref = d)))"
proof (induction fuel arbitrary: page)
  case (Suc fuel)
  let ?Q = "\<lambda>r h. pull_head h = M \<and> (\<forall>i d. r = Some (Inr (i, d)) \<longrightarrow> i \<noteq> 0 \<longrightarrow> (\<exists>ref. M i = Some ref \<and> ref_direction ref = d))"
  let ?R = "\<lambda>r h. pull_head h = M \<and> (\<forall>prs nx. r = Inr (prs, nx) \<longrightarrow> ours h prs)"
  have ask: "triple heads_ok (\<lambda>h. pull_head h = M) (ask (\<lambda>t. pulls_of (gh (Provider H)) t page) (ListPulls page)) ?R"
  proof (rule triple_ask)
    fix h assume h: "heads_ok h" "pull_head h = M"
    have same: "pull_head (h @ [ListPulls page r]) = pull_head h" for r by (rule ext) (simp add: pull_head_plain)
    show "heads_ok (h @ [ListPulls page (pulls_of (gh (Provider H)) h page)])
      \<and> ?R (pulls_of (gh (Provider H)) h page) (h @ [ListPulls page (pulls_of (gh (Provider H)) h page)])"
      using h listed_ours [of h page] by (auto simp: same heads_ok_def ours_def)
  qed
  show ?case
    unfolding find_pages.simps
  proof (rule triple_bind [OF ask], rule triple_sum, goal_cases)
    case (2 r x)
    obtain prs nx where x: "x = (prs, nx)" by (cases x)
    have scan: "case scan_page ns q prs (0, '''') of Inl legacy \<Rightarrow> legacy = (0, '''')
        | Inr (i, d) \<Rightarrow> \<exists>ref. pull_head h i = Some ref \<and> ref_direction ref = d" if "?R r h" for h
      using scan_page_ours [OF _ assms] that 2 x by blast
    show ?case
    proof (cases "scan_page ns q prs (0, '''')")
      case (Inl legacy)
      show ?thesis
        unfolding x prod.case Inl sum.case
      proof (rule triple_pre [where P' = "\<lambda>h. legacy = (0, '''') \<and> pull_head h = M"], rule triple_assume)
        assume "legacy = (0, '''')"
        then show "triple heads_ok (\<lambda>h. pull_head h = M) (if nx = 0 then return (Some (Inr (if fst legacy \<noteq> 0 then legacy else (0, ''''))))
            else find_pages (Provider H) fuel ns q nx legacy :: ('m, _) ghprog) ?Q"
          by (auto intro: triple_return Suc)
      qed (use scan Inl in auto)
    next
      case (Inr f)
      then show ?thesis unfolding x prod.case Inr sum.case by (intro triple_return) (use scan Inr in \<open>force split: prod.splits\<close>)
    qed
  qed (auto intro: triple_return)
qed (auto intro: triple_return)

section \<open>The provider is a host\<close>

lemma hosted_found:
  assumes "directed t" and "slash_free ns" and "slash_free q" and "pr_found (hosted_client H E) t ns q = Inr (i, d)" and "i \<noteq> 0"
  shows "hosted_dir H t i = Some d"
proof -
  let ?m = "GitHub_FindOpenPR (Provider H) (Pages H) ns q :: (unit, _) ghprog"
  from assms(4) have found: "fst (gh_run ?m (gh_after H t)) = Some (Inr (i, d))" by (simp split: option.splits)
  have "triple heads_ok (\<lambda>h. pull_head h = pull_head (gh_after H t)) ?m
    (\<lambda>r h. pull_head h = pull_head (gh_after H t)
      \<and> (\<forall>i d. r = Some (Inr (i, d)) \<longrightarrow> i \<noteq> 0 \<longrightarrow> (\<exists>ref. pull_head (gh_after H t) i = Some ref \<and> ref_direction ref = d)))"
    unfolding GitHub_FindOpenPR_def by (rule triple_find_pages [OF assms(2,3)])
  from gh_run_triple [OF this heads_ok_after [OF assms(1)] refl] found assms(5)
  show ?thesis by (auto simp: hosted_dir_def)
qed

lemma hosted_created:
  assumes "directed t" and "d \<in> {''grow'', ''shrink''}" and "pr_created (hosted_client H E) t q ns d a ls = Inr i"
  shows "hosted_dir H (t @ [CreatePR q ns d a ls (Inr i)]) i = Some d"
proof -
  let ?m = "GitHub_CreatePR (Provider H) (Host_Quantities H) (Host_Yaml H) q ns d a ls :: (unit, _) ghprog"
  from assms(3) have made: "fst (gh_run ?m (gh_after H t)) = Inr i" by simp
  from gh_run_triple [OF triple_CreatePR [OF assms(2)] heads_ok_after [OF assms(1)] TrueI, of "Host_Quantities H" "Host_Yaml H" q ns a ls] made
  obtain now where "pull_head (gh_step H (CreatePR q ns d a ls (Inr i)) (gh_after H t)) i = Some (branchName d ns q now)" by auto
  moreover have "ref_direction (branchName d ns q now) = d" by (rule ref_direction_own [OF branchName_own]) (use assms(2) in auto)
  ultimately show ?thesis by (simp add: hosted_dir_def)
qed

end

text \<open>The API server returns Leases as they were written, and the quota that was asked for.\<close>

locale api_server =
  fixes E :: "'q client"
  assumes lease_written: "lease_of E t n m = Inr l \<Longrightarrow> PRID (stateFromLease l) = 0 \<or> (\<exists>l'. lease_in l' t \<and> same_lock l l')"
    and quota_named: "quota_of E t ns q = Inr quota \<Longrightarrow> Quota_Name quota = q"

locale github_server = github_host H + api_server E for H :: "('q, 'x) hosted" and E :: "'q client"

sublocale github_server \<subseteq> host: hosting "hosted_client H E" "hosted_dir H" slash_free
  by unfold_locales (auto intro: hosted_dir_stays hosted_found hosted_created dest: lease_written quota_named)

context github_server
begin

lemma merged_branch:
  assumes "retries_on_conflict (Retry C)" and "Client C = hosted_client H E" and "session C slash_free t"
    and "MergePull n msg how c \<in> set (gh_after H t)"
  shows "\<exists>ref. pull_head (gh_after H t) n = Some ref \<and> \<not> HasPrefix ref ''resize/shrink/''"
proof -
  have "merges n (gh_after H t)" using assms(4) unfolding merges_def by blast
  then obtain how' c' where "MergePR n how' c' \<in> set t" using merges_asked by blast
  from host.no_shrink_merged [OF assms(3,1,2) this] obtain ref where
    ref: "pull_head (gh_after H t) n = Some ref" "ref_direction ref \<noteq> ''shrink''" by (auto simp: hosted_dir_def)
  have "HasPrefix ref ''resize/shrink/'' \<Longrightarrow> ref_direction ref = ''shrink''" by (auto simp: HasPrefix_iff ref_direction_def)
  with ref show ?thesis by blast
qed

end

end
