(* ===== verification/Paged.thy ===== *)
theory Paged
  imports Hosted
begin

text \<open>
  The search of the GitHub provider through the pages of open pull requests, and what follows for
  the controller: no quota has two open pull requests on GitHub.
\<close>

section \<open>One open pull request on GitHub\<close>

text \<open>The pull requests a call creates.\<close>

lemma filter_is_pull [simp]: "filter (\<lambda>e. gh_writes e \<and> is_pull e) s = filter is_pull s"
proof -
  have "is_pull e \<Longrightarrow> gh_writes e" for e by (cases e) simp_all
  then have "(\<lambda>e. gh_writes e \<and> is_pull e) = is_pull" by blast
  then show ?thesis by simp
qed

lemma pulls_written: "written s = w \<Longrightarrow> filter is_pull s = filter is_pull w"
  using filter_is_pull [of s] by (metis filter_filter)

definition pulls_for :: "string \<Rightarrow> string \<Rightarrow> string \<Rightarrow> gh_call list \<Rightarrow> bool" where
  "pulls_for d ns q s \<longleftrightarrow> filter is_pull s = [] \<or>
     (\<exists>p c now. filter is_pull s = [CreatePull p c] \<and> New_Head p = branchName d ns q now)"

lemma pulls_CreatePR: "ensures (GitHub_CreatePR g Q Y q ns d a ls :: ('m, _) ghprog) (\<lambda>r s. pulls_for d ns q s)"
proof (rule ensures_weaken [OF ensures_CreatePR])
  fix r s assume "created Q Y q ns d ls r s"
  then consider "filter is_pull s = []"
    | base now s' where "opened Q Y q ns d ls base (branchName d ns q now) r s'" "filter is_pull s = filter is_pull s'"
    unfolding created_def Let_def by (auto dest: pulls_written)
  then show "pulls_for d ns q s"
  proof cases
    case 2
    have none: "filter is_pull w = []" if "settled ns d n r w" for n w
      using settled_no_pull [OF that] by (auto simp: filter_empty_conv elim!: is_pull.elims)
    from 2(1) consider "filter is_pull s' = []"
      | path opts p c w where "written s' = UpdateFile path opts (Inr ()) # CreatePull p c # w" "New_Head p = branchName d ns q now"
        "case c of Inl _ \<Rightarrow> w = [] \<and> isl r | Inr n \<Rightarrow> settled ns d n r w"
      unfolding opened_def by (elim disjE conjE exE) (simp add: pulls_written, simp add: pulls_written, blast)
    then show ?thesis
    proof cases
      case (2 path opts p c w)
      have "filter is_pull s' = [CreatePull p c]" using pulls_written [OF 2(1)] 2(3) none by (auto split: sum.splits)
      with 2(2) \<open>filter is_pull s = _\<close> show ?thesis unfolding pulls_for_def by metis
    qed (use 2(2) in \<open>simp add: pulls_for_def\<close>)
  qed (simp add: pulls_for_def)
qed

lemma no_pulls: "only (\<lambda>e. \<not> is_pull e) m \<Longrightarrow> \<exists>s. snd (gh_run m h) = h @ s \<and> filter is_pull s = []"
  using gh_run_ensures [of m "\<lambda>_ s. list_all (\<lambda>e. \<not> is_pull e) s" h] by (auto simp: list_all_iff filter_empty_conv)

lemmas no_pulls_plain = no_pulls [OF only_mono [OF _ pull_free_pull]]

lemma gh_step_pulls:
  "\<exists>s. gh_step H e h = h @ s \<and> (\<not> is_create e \<longrightarrow> filter is_pull s = [])
    \<and> (\<forall>q ns d a ls c. e = CreatePR q ns d a ls c \<longrightarrow> pulls_for d ns q s)"
proof (cases e)
  case (MergePR i how c)
  show ?thesis unfolding MergePR gh_step.simps GitHub_MergePR_def Let_def gh_run_def by auto
next
  case (CreatePR q ns d a ls c)
  show ?thesis using gh_run_ensures [OF pulls_CreatePR] unfolding CreatePR gh_step.simps by (metis call.inject(19) is_create.simps(1))
next
  case (FindOpenPR ns q c)
  show ?thesis using no_pulls_plain [OF pull_free_find_pages] unfolding FindOpenPR gh_step.simps GitHub_FindOpenPR_def by fastforce
next
  case (GetPRStatus i c)
  show ?thesis using no_pulls_plain [OF pull_free_GetPRStatus] unfolding GetPRStatus gh_step.simps by fastforce
next
  case (UpdatePR i q ns a ls c)
  show ?thesis using no_pulls_plain [OF pull_free_UpdatePR] unfolding UpdatePR gh_step.simps by fastforce
next
  case (ClosePR i comment c)
  show ?thesis using no_pulls_plain [OF pull_free_ClosePR] unfolding ClosePR gh_step.simps by fastforce
qed simp_all

section \<open>Pages\<close>

lemma scan_page_none: "scan_page ns q prs legacy = Inl legacy' \<Longrightarrow> pr \<in> set prs \<Longrightarrow> own ns q pr = None"
proof (induction prs arbitrary: legacy)
  case (Cons p prs)
  have "own ns q p = None" using Cons.prems(1) by (auto simp: own_def split: option.splits if_splits)
  moreover have "\<exists>l. scan_page ns q prs l = Inl legacy'" using Cons.prems(1) by (auto simp del: split_paired_Ex split: option.splits if_splits)
  ultimately show ?case using Cons.IH Cons.prems(2) by auto
qed simp

lemma scan_page_hit: "scan_page ns q prs legacy = Inr (i, d) \<Longrightarrow> \<exists>pr \<in> set prs. Pull_Number pr = i"
  by (induction prs arbitrary: legacy) (force split: option.splits if_splits)+

text \<open>
  GitHub keeps a list of the open pull requests and shows it in pages of a hundred
  (\<^verbatim>\<open>PerPage\<close>), without a page number the first; the answer names the next page, 0 when there is
  none. Pull requests have positive numbers and keep their head branch, only \<^verbatim>\<open>CreatePull\<close> adds one,
  nobody closes one while the pages are read, and at the beginning none is on a branch of the
  controller.
\<close>

abbreviation pull_ref :: "pull \<Rightarrow> string option" where
  "pull_ref pr \<equiv> map_option fst (Pull_Head pr)"

locale github_paged =
  fixes H :: "('q, 'x) hosted" and open_pulls :: "gh_call list \<Rightarrow> pull list"
  assumes paged: "pulls_of (gh (Provider H)) h page = Inr (prs, nx) \<Longrightarrow> 0 \<le> page \<Longrightarrow>
      (nat page - 1) * 100 \<le> length (open_pulls h) \<Longrightarrow> \<exists>a b. open_pulls h = a @ prs @ b \<and> length a = (nat page - 1) * 100
        \<and> (b = [] \<longrightarrow> nx = 0) \<and> (b \<noteq> [] \<longrightarrow> nx = max page 1 + 1 \<and> length prs = 100)"
    and open_number: "pr \<in> set (open_pulls h) \<Longrightarrow> 0 < Pull_Number pr"
    and open_empty: "pr \<in> set (open_pulls []) \<Longrightarrow> pull_ref pr = Some ref \<Longrightarrow> \<not> HasPrefix ref ''resize/''"
    and open_added: "pr \<in> set (open_pulls (h @ [e])) \<Longrightarrow>
      (\<exists>pr' \<in> set (open_pulls h). Pull_Number pr' = Pull_Number pr \<and> pull_ref pr' = pull_ref pr)
      \<or> (\<exists>p. e = CreatePull p (Inr (Pull_Number pr)) \<and> pull_ref pr = Some (New_Head p))"
    and open_listed: "open_pulls (h @ [ListPulls page r]) = open_pulls h"
begin

definition gh_open :: "'q call list \<Rightarrow> string \<Rightarrow> string \<Rightarrow> int set" where
  "gh_open t ns q = {n. \<exists>pr \<in> set (open_pulls (gh_after H t)). Pull_Number pr = n
     \<and> (\<exists>d \<in> {''grow'', ''shrink''}. \<exists>now. pull_ref pr = Some (branchName d ns q now))}"

lemma open_append:
  "pr \<in> set (open_pulls (h @ s)) \<Longrightarrow>
    (\<exists>pr' \<in> set (open_pulls h). Pull_Number pr' = Pull_Number pr \<and> pull_ref pr' = pull_ref pr)
    \<or> (\<exists>p. CreatePull p (Inr (Pull_Number pr)) \<in> set (filter is_pull s) \<and> pull_ref pr = Some (New_Head p))"
proof (induction s arbitrary: pr rule: rev_induct)
  case (snoc e s)
  then have "pr \<in> set (open_pulls ((h @ s) @ [e]))" by simp
  from open_added [OF this] show ?case
  proof (elim disjE bexE conjE)
    fix pr' assume pr': "pr' \<in> set (open_pulls (h @ s))" "Pull_Number pr' = Pull_Number pr" "pull_ref pr' = pull_ref pr"
    from snoc.IH [OF pr'(1)] pr'(2,3) show ?thesis by auto
  qed auto
qed auto

lemma open_stays:
  assumes "\<not> is_create e"
  shows "gh_open (t @ [e]) ns q \<subseteq> gh_open t ns q"
proof -
  obtain s where s: "gh_step H e (gh_after H t) = gh_after H t @ s" "filter is_pull s = []" using gh_step_pulls assms by metis
  show ?thesis unfolding gh_open_def gh_after_snoc s(1) using open_append [of _ "gh_after H t" s] s(2) by fastforce
qed

lemma open_create:
  assumes "n \<in> gh_open (t @ [CreatePR q ns d a ls c]) ns' q'" and "n \<notin> gh_open t ns' q'"
  shows "\<exists>p d' now now'. filter is_pull (gh_after H (t @ [CreatePR q ns d a ls c])) = filter is_pull (gh_after H t) @ [CreatePull p (Inr n)]
    \<and> d' \<in> {''grow'', ''shrink''} \<and> branchName d ns q now = branchName d' ns' q' now'"
proof -
  obtain s where s: "gh_step H (CreatePR q ns d a ls c) (gh_after H t) = gh_after H t @ s" "pulls_for d ns q s" using gh_step_pulls by metis
  from assms(1) obtain pr d' now' where pr: "pr \<in> set (open_pulls (gh_after H t @ s))" "Pull_Number pr = n" "d' \<in> {''grow'', ''shrink''}"
    "pull_ref pr = Some (branchName d' ns' q' now')" unfolding gh_open_def gh_after_snoc s(1) by blast
  have "\<not> (\<exists>pr' \<in> set (open_pulls (gh_after H t)). Pull_Number pr' = Pull_Number pr \<and> pull_ref pr' = pull_ref pr)"
    using assms(2) pr(2-4) unfolding gh_open_def by auto
  with open_append [OF pr(1)] obtain p where "CreatePull p (Inr n) \<in> set (filter is_pull s)" "pull_ref pr = Some (New_Head p)" using pr(2) by blast
  with s(2) pr(4) obtain now where "filter is_pull s = [CreatePull p (Inr n)]" "branchName d ns q now = branchName d' ns' q' now'"
    unfolding pulls_for_def by (auto simp del: set_filter)
  with pr(3) s(1) show ?thesis unfolding gh_after_snoc s(1) by auto
qed

lemma open_other:
  assumes "d \<in> {''grow'', ''shrink''}" and "slash_free ns" "slash_free q" "slash_free ns'" "slash_free q'" and "(ns', q') \<noteq> (ns, q)"
  shows "gh_open (t @ [CreatePR q ns d a ls c]) ns' q' \<subseteq> gh_open t ns' q'"
proof
  fix n assume "n \<in> gh_open (t @ [CreatePR q ns d a ls c]) ns' q'"
  moreover have False if "d' \<in> {''grow'', ''shrink''}" "branchName d ns q now = branchName d' ns' q' now'" for d' now now'
  proof -
    have "slash_free d" "slash_free d'" using assms(1) that(1) by (auto simp: git_grow_def git_shrink_def)
    with own_prefix_branch [of d d' ns' q' ns q now] branchName_own [of d' ns' q' now'] that(2) assms show False by auto
  qed
  ultimately show "n \<in> gh_open t ns' q'" using open_create by metis
qed

lemma open_one: "\<exists>i. gh_open (t @ [CreatePR q ns d a ls c]) ns q \<subseteq> insert i (gh_open t ns q)"
proof (cases "gh_open (t @ [CreatePR q ns d a ls c]) ns q \<subseteq> gh_open t ns q")
  case False
  then obtain n where n: "n \<in> gh_open (t @ [CreatePR q ns d a ls c]) ns q" "n \<notin> gh_open t ns q" by blast
  have "m = n" if "m \<in> gh_open (t @ [CreatePR q ns d a ls c]) ns q" "m \<notin> gh_open t ns q" for m
    using open_create [OF that] open_create [OF n] by auto
  then show ?thesis by blast
qed blast

text \<open>The search ends without an answer only when no page had a pull request of the quota.\<close>

definition page_at :: "pull list \<Rightarrow> int \<Rightarrow> (pull list \<times> int) result \<Rightarrow> bool" where
  "page_at L page r \<longleftrightarrow> (\<forall>prs nx. r = Inr (prs, nx) \<longrightarrow> (\<exists>a b. L = a @ prs @ b \<and> length a = (nat page - 1) * 100
     \<and> (b = [] \<longrightarrow> nx = 0) \<and> (b \<noteq> [] \<longrightarrow> nx = max page 1 + 1 \<and> length prs = 100)))"

definition none_before :: "string \<Rightarrow> string \<Rightarrow> pull list \<Rightarrow> int \<Rightarrow> bool" where
  "none_before ns q L page \<longleftrightarrow> (nat page - 1) * 100 \<le> length L \<and> (\<forall>pr \<in> set (take ((nat page - 1) * 100) L). own ns q pr = None)"

lemma page_last:
  assumes "page_at L page (Inr (prs, 0))" and "none_before ns q L page" and "\<And>pr. pr \<in> set prs \<Longrightarrow> own ns q pr = None" and "0 \<le> page"
  shows "\<forall>pr \<in> set L. own ns q pr = None"
proof -
  from assms(1) obtain a b where "L = a @ prs @ b" "length a = (nat page - 1) * 100" "b \<noteq> [] \<longrightarrow> 0 = max page 1 + 1" unfolding page_at_def by blast
  with assms(2-4) show ?thesis by (auto simp: none_before_def)
qed

lemma page_step:
  assumes "page_at L page (Inr (prs, nx))" and "none_before ns q L page" and "\<And>pr. pr \<in> set prs \<Longrightarrow> own ns q pr = None" and "0 \<le> page" and "nx \<noteq> 0"
  shows "none_before ns q L nx \<and> 0 \<le> nx"
proof -
  from assms(1,5) obtain a b where ab: "L = a @ prs @ b" "length a = (nat page - 1) * 100" "nx = max page 1 + 1" "length prs = 100" unfolding page_at_def by blast
  then have "(nat nx - 1) * 100 = length (a @ prs)" using assms(4) by (simp add: nat_add_distrib max_def nat_diff_distrib algebra_simps)
  then show ?thesis using assms(2-4) ab by (auto simp: none_before_def)
qed

lemma triple_search:
  assumes "0 \<le> page"
  shows "triple (\<lambda>_. True) (\<lambda>h. open_pulls h = L \<and> none_before ns q L page)
    (find_pages (Provider H) fuel ns q page legacy :: ('m, _) ghprog)
    (\<lambda>r h. \<forall>d. r = Some (Inr (0, d)) \<longrightarrow> (\<forall>pr \<in> set L. own ns q pr = None))"
  using assms
proof (induction fuel arbitrary: page legacy)
  case (Suc fuel)
  let ?R = "\<lambda>r h. open_pulls h = L \<and> none_before ns q L page \<and> page_at L page r"
  have ask: "triple (\<lambda>_. True) (\<lambda>h. open_pulls h = L \<and> none_before ns q L page)
      (ask (\<lambda>t. pulls_of (gh (Provider H)) t page) (ListPulls page)) ?R"
    by (rule triple_ask) (use paged [OF _ Suc.prems] in \<open>auto simp: open_listed page_at_def none_before_def\<close>)
  show ?case
    unfolding find_pages.simps
  proof (rule triple_bind [OF ask], rule triple_sum, goal_cases)
    case (2 r x)
    obtain prs nx where x: "x = (prs, nx)" by (cases x)
    show ?case
      unfolding x prod.case
    proof (rule triple_sum, goal_cases)
      case (1 legacy')
      note none = scan_page_none [OF this]
      show ?case
      proof (rule triple_if, goal_cases)
        case 1
        show ?case by (rule triple_return) (use 1 2 x page_last [OF _ _ none Suc.prems] in auto)
      next
        case nx: 2
        have "0 \<le> nx" if "page_at L page r" "none_before ns q L page" using page_step [OF _ _ none Suc.prems nx] that 2 x by blast
        then have "triple (\<lambda>_. True) (\<lambda>h. 0 \<le> nx \<and> open_pulls h = L \<and> none_before ns q L nx) (find_pages (Provider H) fuel ns q nx legacy' :: ('m, _) ghprog)
            (\<lambda>r h. \<forall>d. r = Some (Inr (0, d)) \<longrightarrow> (\<forall>pr \<in> set L. own ns q pr = None))"
          by (intro triple_assume Suc.IH)
        then show ?case by (rule triple_pre) (use page_step [OF _ _ none Suc.prems nx] 2 x in blast)
      qed
    next
      case hit: (2 found)
      have "\<exists>pr \<in> set L. Pull_Number pr = fst found" if "page_at L page r"
        using scan_page_hit [of ns q prs legacy "fst found" "snd found"] hit that 2 x by (auto simp: page_at_def)
      then have "fst found \<noteq> 0" if "page_at L page r" "open_pulls h = L" for h using that open_number [of _ h] by fastforce
      then show ?case by (intro triple_return) (metis fst_conv option.inject sum.inject(2))
    qed
  qed (auto intro: triple_return)
qed (auto intro: triple_return)

lemma search_none:
  assumes "pr_found (hosted_client H E) t ns q = Inr (0, d)"
  shows "gh_open t ns q = {}"
proof -
  let ?m = "GitHub_FindOpenPR (Provider H) (Pages H) ns q :: (unit, _) ghprog" and ?L = "open_pulls (gh_after H t)"
  from assms have found: "fst (gh_run ?m (gh_after H t)) = Some (Inr (0, d))" by (simp split: option.splits)
  have start: "none_before ns q ?L 0" by (simp add: none_before_def)
  have "triple (\<lambda>_. True) (\<lambda>h. open_pulls h = ?L \<and> none_before ns q ?L 0) ?m
    (\<lambda>r h. \<forall>d. r = Some (Inr (0, d)) \<longrightarrow> (\<forall>pr \<in> set ?L. own ns q pr = None))"
    unfolding GitHub_FindOpenPR_def by (rule triple_search) simp
  from gh_run_triple [OF this TrueI] start found have none: "\<forall>pr \<in> set ?L. own ns q pr = None" by blast
  have "own ns q pr \<noteq> None" if "pull_ref pr = Some (branchName d ns q now)" "d \<in> {''grow'', ''shrink''}" for pr d now
    using that branchName_own [of d ns q now] by (auto simp: own_def git_grow_def git_shrink_def)
  with none show ?thesis unfolding gh_open_def by blast
qed

lemma open_start: "gh_open [] ns q = {}"
proof -
  have "HasPrefix (branchName d ns q now) ''resize/''" for d now by (simp add: HasPrefix_iff branchName_def)
  then show ?thesis unfolding gh_open_def gh_after_Nil using open_empty by blast
qed

end

text \<open>With an API server that returns the quota that was asked for, this is the contract.\<close>

locale github_paged_server = github_paged H open_pulls + api_server E
  for H :: "('q, 'x) hosted" and open_pulls and E :: "'q client"

sublocale github_paged_server \<subseteq> one: exclusive "hosted_client H E" gh_open slash_free
  by unfold_locales (rule open_start, erule open_stays, rule open_other, assumption+, rule open_one, erule search_none, simp add: quota_named)

context github_paged_server
begin

lemma one_pull:
  assumes "retries_on_conflict (Retry C)" and "Client C = hosted_client H E" and "session C slash_free t" and "slash_free ns" and "slash_free q"
    and "pr \<in> set (open_pulls (gh_after H t))" and "pull_ref pr = Some (branchName d ns q now)" and "d \<in> {''grow'', ''shrink''}"
    and "pr' \<in> set (open_pulls (gh_after H t))" and "pull_ref pr' = Some (branchName d' ns q now')" and "d' \<in> {''grow'', ''shrink''}"
  shows "Pull_Number pr = Pull_Number pr'"
proof -
  have "Pull_Number pr \<in> gh_open t ns q" "Pull_Number pr' \<in> gh_open t ns q" unfolding gh_open_def using assms(6-11) by blast+
  then show ?thesis using one.session_at_most_one [OF assms(3,1,2)] assms(4,5) unfolding one.at_most_one_def by blast
qed

end

end
