(* ===== verification/Server.thy ===== *)
theory Server
  imports Paged
begin

text \<open>
  Servers that keep the promises of \<^verbatim>\<open>Hosted\<close> and \<^verbatim>\<open>Paged\<close>: a GitHub that computes its pull requests,
  their numbers and its pages from the calls it got, and an API server that keeps Leases, with a
  resource version that every update checks and renews. They stand for code outside the repository
  and show that the promises can be kept.
\<close>

section \<open>GitHub\<close>

fun pulls_made :: "gh_call list \<Rightarrow> (int \<times> string) list" where
  "pulls_made [] = []"
| "pulls_made (CreatePull p (Inr n) # h) = (n, New_Head p) # pulls_made h"
| "pulls_made (_ # h) = pulls_made h"

fun shuts :: "int \<Rightarrow> gh_call \<Rightarrow> bool" where
  "shuts n (EditPull m edit (Inr _)) \<longleftrightarrow> m = n \<and> edit = Set_State ''closed''"
| "shuts n (MergePull m _ _ (Inr _)) \<longleftrightarrow> m = n"
| "shuts n _ \<longleftrightarrow> False"

definition server_pull :: "gh_call list \<Rightarrow> int \<times> string \<Rightarrow> pull" where
  "server_pull h = (\<lambda>(n, ref). \<lparr>Pull_Number = n, Pull_State = (if list_ex (shuts n) h then ''closed'' else ''open''),
     Pull_Merged = list_ex (\<lambda>e. shuts n e \<and> is_merge e) h, Pull_Mergeable = True, Pull_MergeableState = ''clean'',
     Pull_CreatedAt = 0, Pull_Head = Some (ref, Some ref), Pull_Labels = []\<rparr>)"

definition server_open :: "gh_call list \<Rightarrow> pull list" where
  "server_open h = map (server_pull h)
     (filter (\<lambda>(n, ref). 0 < n \<and> pull_head h n = Some ref \<and> \<not> list_ex (shuts n) h) (pulls_made h))"

definition server_github :: github where
  "server_github = (sample_github (Inr (Dir [sample_entry compute_file])) compute_file)\<lparr>
     pull_created := \<lambda>h p. Inr (1 + foldr max (map fst (pulls_made h)) 0),
     labels_added := \<lambda>_ _ _. Inr (),
     pull_of := \<lambda>h n. (case pull_head h n of None \<Rightarrow> Inl (StatusError 404) | Some ref \<Rightarrow> Inr (server_pull h (n, ref))),
     pulls_of := \<lambda>h page. (let k = (nat page - 1) * 100; L = server_open h in
        Inr (take 100 (drop k L), if k + 100 < length L then max page 1 + 1 else 0)),
     combined_of := \<lambda>_ _. Inr (''success'', Some 1),
     pull_merged := \<lambda>h n _ _. (if pull_head h n = None \<or> list_ex (shuts n) h then Inl (StatusError 405) else Inr ())\<rparr>"

definition server_host :: "(nano, unit) hosted" where
  "server_host = \<lparr>Provider = \<lparr>gh = server_github, clusterName = ''prod'', pathTemplate = \<lambda>_ _. Inr ''apps''\<rparr>,
     Host_Quantities = nano_api, Host_Yaml = fixed_yaml, Pages = 10\<rparr>"

lemma server_host_simps [simp]:
  "pull_created (gh (Provider server_host)) h p = Inr (1 + foldr max (map fst (pulls_made h)) 0)"
  "pulls_of (gh (Provider server_host)) h page = Inr (take 100 (drop ((nat page - 1) * 100) (server_open h)),
     if (nat page - 1) * 100 + 100 < length (server_open h) then max page 1 + 1 else 0)"
  by (simp_all add: server_host_def server_github_def Let_def)

lemma pull_head_made: "pull_head h n = Some ref \<Longrightarrow> (n, ref) \<in> set (pulls_made h)"
  by (induction h n rule: pull_head.induct) (auto split: if_splits)

lemma made_pull_head: "(n, ref) \<in> set (pulls_made h) \<Longrightarrow> pull_head h n \<noteq> None"
  by (induction h n rule: pull_head.induct) auto

lemma le_foldr_max: "x \<in> set xs \<Longrightarrow> x \<le> foldr max xs (0 :: int)"
  by (induction xs) auto

lemma server_number_fresh: "pull_head h (1 + foldr max (map fst (pulls_made h)) 0) = None"
proof (rule ccontr)
  let ?n = "1 + foldr max (map fst (pulls_made h)) 0"
  assume "pull_head h ?n \<noteq> None"
  then obtain ref where "(?n, ref) \<in> set (pulls_made h)" using pull_head_made by blast
  then have "?n \<in> set (map fst (pulls_made h))" by force
  from le_foldr_max [OF this] show False by simp
qed

lemma server_open_iff: "pr \<in> set (server_open h) \<longleftrightarrow>
  (\<exists>n ref. (n, ref) \<in> set (pulls_made h) \<and> 0 < n \<and> pull_head h n = Some ref \<and> \<not> list_ex (shuts n) h \<and> pr = server_pull h (n, ref))"
  by (auto simp: server_open_def)

interpretation server: github_host server_host
proof unfold_locales
  fix h p n assume "pull_created (gh (Provider server_host)) h p = Inr n"
  then show "pull_head h n = None" using server_number_fresh by auto
next
  fix h page prs nx pr ref sha
  assume "pulls_of (gh (Provider server_host)) h page = Inr (prs, nx)" "pr \<in> set prs" "Pull_Head pr = Some (ref, sha)"
  then have "pr \<in> set (server_open h)" by (auto dest: in_set_takeD in_set_dropD)
  with \<open>Pull_Head pr = Some (ref, sha)\<close> show "pull_head h (Pull_Number pr) = Some ref"
    by (auto simp: server_open_iff server_pull_def)
qed

lemma pulls_made_append: "pulls_made (h @ s) = pulls_made h @ pulls_made s"
  by (induction h rule: pulls_made.induct) auto

lemma server_pull_simps [simp]: "Pull_Number (server_pull h (n, ref)) = n" "Pull_Head (server_pull h (n, ref)) = Some (ref, Some ref)"
  by (simp_all add: server_pull_def)

lemma server_added:
  assumes "pr \<in> set (server_open (h @ [e]))"
  shows "(\<exists>pr' \<in> set (server_open h). Pull_Number pr' = Pull_Number pr \<and> pull_ref pr' = pull_ref pr)
      \<or> (\<exists>p. e = CreatePull p (Inr (Pull_Number pr)) \<and> pull_ref pr = Some (New_Head p))"
proof -
  from assms obtain n ref where pr: "(n, ref) \<in> set (pulls_made (h @ [e]))" "0 < n" "pull_head (h @ [e]) n = Some ref"
    "\<not> list_ex (shuts n) (h @ [e])" "pr = server_pull (h @ [e]) (n, ref)"
    unfolding server_open_iff by blast
  show ?thesis
  proof (cases "(n, ref) \<in> set (pulls_made h)")
    case True
    then have "pull_head h n = Some ref" using made_pull_head [OF True] pr(3) by (auto simp: pull_head_append)
    then have "server_pull h (n, ref) \<in> set (server_open h)" using True pr(2,4) by (auto simp: server_open_iff)
    then show ?thesis unfolding pr(5) by (intro disjI1 bexI [of _ "server_pull h (n, ref)"]) simp_all
  next
    case False
    with pr(1) have "(n, ref) \<in> set (pulls_made [e])" by (simp add: pulls_made_append)
    then obtain p where "e = CreatePull p (Inr n)" "New_Head p = ref" by (cases "[e]" rule: pulls_made.cases) auto
    then show ?thesis unfolding pr(5) by simp
  qed
qed

lemma server_listed: "server_open (h @ [ListPulls page r]) = server_open h"
proof -
  have "server_pull (h @ [ListPulls page r]) x = server_pull h x" for x by (simp add: server_pull_def split: prod.split)
  then show ?thesis by (simp add: server_open_def pulls_made_append pull_head_plain)
qed

lemma page_split:
  assumes "k \<le> length L"
  shows "\<exists>a b. L = a @ take 100 (drop k L) @ b \<and> length a = k \<and> (b = [] \<longleftrightarrow> length L \<le> k + 100) \<and> (b \<noteq> [] \<longrightarrow> length (take 100 (drop k L)) = 100)"
proof (rule exI, rule exI, intro conjI)
  show "L = take k L @ take 100 (drop k L) @ drop 100 (drop k L)" by (metis append_take_drop_id)
qed (use assms in auto)

interpretation server_pages: github_paged server_host server_open
proof unfold_locales
  fix h page prs nx
  let ?L = "server_open h" and ?k = "(nat page - 1) * 100"
  assume p: "pulls_of (gh (Provider server_host)) h page = Inr (prs, nx)" and k: "?k \<le> length ?L"
  from page_split [OF k] obtain a b where "?L = a @ take 100 (drop ?k ?L) @ b" "length a = ?k" "b = [] \<longleftrightarrow> length ?L \<le> ?k + 100"
    "b \<noteq> [] \<longrightarrow> length (take 100 (drop ?k ?L)) = 100" by blast
  moreover have "prs = take 100 (drop ?k ?L)" "nx = (if ?k + 100 < length ?L then max page 1 + 1 else 0)" using p by simp_all
  ultimately show "\<exists>a b. server_open h = a @ prs @ b \<and> length a = (nat page - 1) * 100
      \<and> (b = [] \<longrightarrow> nx = 0) \<and> (b \<noteq> [] \<longrightarrow> nx = max page 1 + 1 \<and> length prs = 100)"
    by (metis linorder_not_less)
next
  fix pr h assume "pr \<in> set (server_open h)"
  then show "0 < Pull_Number pr" by (auto simp: server_open_iff)
next
  fix pr ref assume "pr \<in> set (server_open [])"
  then show "\<not> HasPrefix ref ''resize/''" by (simp add: server_open_def)
next
  fix pr h e assume "pr \<in> set (server_open (h @ [e]))"
  then show "(\<exists>pr' \<in> set (server_open h). Pull_Number pr' = Pull_Number pr \<and> pull_ref pr' = pull_ref pr)
      \<or> (\<exists>p. e = CreatePull p (Inr (Pull_Number pr)) \<and> pull_ref pr = Some (New_Head p))" by (rule server_added)
qed (rule server_listed)

section \<open>The API server\<close>

definition renew :: "Lease \<Rightarrow> Lease" where
  "renew l = l\<lparr>ResourceVersion := ResourceVersion l @ ''+''\<rparr>"

fun store_step :: "'q call \<Rightarrow> (string \<times> string \<Rightarrow> Lease option) \<Rightarrow> string \<times> string \<Rightarrow> Lease option" where
  "store_step (CreateLease l (Inr _)) s = s((Lease_Namespace l, Lease_Name l) \<mapsto> renew l)"
| "store_step (UpdateLease l (Inr _)) s = s((Lease_Namespace l, Lease_Name l) \<mapsto> renew l)"
| "store_step (DeleteLease l (Inr _)) s = s((Lease_Namespace l, Lease_Name l) := None)"
| "store_step _ s = s"

definition leases_after :: "'q call list \<Rightarrow> string \<times> string \<Rightarrow> Lease option" where
  "leases_after t = fold store_step t Map.empty"

definition store_client :: "'q client \<Rightarrow> 'q client" where
  "store_client E = E\<lparr>
     quota_of := \<lambda>t ns q. (case quota_of E t ns q of Inl e \<Rightarrow> Inl e
       | Inr quota \<Rightarrow> if Quota_Name quota = q then Inr quota else Inl NotFound),
     lease_of := \<lambda>t ns n. (case leases_after t (ns, n) of None \<Rightarrow> Inl NotFound | Some l \<Rightarrow> Inr l),
     lease_created := \<lambda>t l. (if leases_after t (Lease_Namespace l, Lease_Name l) = None then Inr () else Inl AlreadyExists),
     lease_updated := \<lambda>t l. (case leases_after t (Lease_Namespace l, Lease_Name l) of None \<Rightarrow> Inl NotFound
       | Some l' \<Rightarrow> if ResourceVersion l = ResourceVersion l' then Inr () else Inl Conflict),
     lease_deleted := \<lambda>t l. (if leases_after t (Lease_Namespace l, Lease_Name l) = None then Inl NotFound else Inr ())\<rparr>"

lemma renew_lock: "same_lock (renew l) l"
  by (simp add: renew_def stateFromLease_def)

lemma leases_after_written: "leases_after t k = Some l \<Longrightarrow> \<exists>l'. lease_in l' t \<and> same_lock l l'"
proof (induction t arbitrary: l rule: rev_induct)
  case (snoc e t)
  have old: "\<exists>l'. lease_in l' (t @ [e]) \<and> same_lock l l'" if "leases_after t k = Some l"
    using snoc.IH [OF that] by (auto simp: lease_in_def)
  show ?case
    using snoc.prems old renew_lock
    by (cases "(e, leases_after t)" rule: store_step.cases) (auto simp: leases_after_def lease_in_def split: if_splits)
qed (simp add: leases_after_def)

interpretation store: api_server "store_client E" for E
  by unfold_locales (auto simp: store_client_def leases_after_written split: option.splits sum.splits if_splits)

interpretation server_session: github_server server_host "store_client E" for E
  by unfold_locales

interpretation server_one: github_paged_server server_host server_open "store_client E" for E
  by unfold_locales

end
