(* ===== verification/Providers.thy ===== *)
theory Providers
  imports Cluster
begin

text \<open>
  The providers without GitHub: \<^verbatim>\<open>internal/git/log_provider.go\<close> (dry run) and
  \<^verbatim>\<open>internal/controller/fake_git_provider.go\<close> (call recorder of the tests). Logging is not
  modelled. \<^verbatim>\<open>rand.Intn(1000)\<close> is an argument of \<^verbatim>\<open>CreatePR\<close>; the mutex makes every operation
  atomic, so operations are functions on the stored pull requests.

  \<open>git_provider\<close> is what a client may rely on: a provider is a finite map of pull requests.
\<close>

section \<open>The contract\<close>

text \<open>What a client can see of a pull request.\<close>

record pr_view =
  Of_Quota :: "string \<times> string"
  With_Direction :: string
  Is_Open :: bool
  Is_Merged :: bool

locale git_provider =
  fixes invar :: "'s \<Rightarrow> bool"
    and view :: "'s \<Rightarrow> int \<Rightarrow> pr_view option"
    and get :: "'s \<Rightarrow> int \<Rightarrow> PRStatus option"
    and create :: "nat \<Rightarrow> string \<Rightarrow> string \<Rightarrow> string \<Rightarrow> 'l \<Rightarrow> 's \<Rightarrow> int \<times> 's"
    and merge :: "int \<Rightarrow> 's \<Rightarrow> 's result"
    and close :: "int \<Rightarrow> 's \<Rightarrow> 's result"
    and search :: "string \<Rightarrow> string \<Rightarrow> 's \<Rightarrow> int \<times> string"
  assumes get_view: "invar s \<Longrightarrow> view s i = Some p \<Longrightarrow> \<exists>st. get s i = Some st \<and> IsOpen st = Is_Open p \<and> IsMerged st = Is_Merged p"
    and create_view: "invar s \<Longrightarrow> create n q ns d l s = (i, s') \<Longrightarrow> i \<noteq> 0 \<and> invar s'
      \<and> view s' = (view s)(i \<mapsto> \<lparr>Of_Quota = (ns, q), With_Direction = d, Is_Open = True, Is_Merged = False\<rparr>)"
    and merge_view: "invar s \<Longrightarrow> \<exists>s'. merge i s = Inr s' \<and> invar s'
      \<and> view s' = (view s)(i := map_option (\<lambda>p. p\<lparr>Is_Open := False, Is_Merged := True\<rparr>) (view s i))"
    and close_view: "invar s \<Longrightarrow> \<exists>s'. close i s = Inr s' \<and> invar s'
      \<and> view s' = (view s)(i := map_option (\<lambda>p. p\<lparr>Is_Open := False\<rparr>) (view s i))"
    and search_found: "invar s \<Longrightarrow> search ns q s = (i, d) \<Longrightarrow> i \<noteq> 0 \<Longrightarrow>
      \<exists>p. view s i = Some p \<and> Of_Quota p = (ns, q) \<and> With_Direction p = d \<and> Is_Open p"
    and search_none: "invar s \<Longrightarrow> search ns q s = (0, d) \<Longrightarrow> view s i = Some p \<Longrightarrow> Of_Quota p = (ns, q) \<Longrightarrow> \<not> Is_Open p"
begin

text \<open>No quota has two open pull requests.\<close>

definition one_open :: "'s \<Rightarrow> bool" where
  "one_open s \<longleftrightarrow> (\<forall>i j p p'. view s i = Some p \<longrightarrow> view s j = Some p' \<longrightarrow> Is_Open p \<longrightarrow> Is_Open p'
     \<longrightarrow> Of_Quota p = Of_Quota p' \<longrightarrow> i = j)"

lemma propose_one_open:
  assumes s: "invar s" "one_open s" and none: "search ns q s = (0, e)" and c: "create n q ns d l s = (i, s')"
  shows "one_open s'"
proof -
  from create_view [OF s(1) c]
  have v: "view s' = (view s)(i \<mapsto> \<lparr>Of_Quota = (ns, q), With_Direction = d, Is_Open = True, Is_Merged = False\<rparr>)" by blast
  have other: "view s j = Some p \<Longrightarrow> Of_Quota p = (ns, q) \<Longrightarrow> \<not> Is_Open p" for j p by (rule search_none [OF s(1) none])
  have uniq: "view s j = Some p \<Longrightarrow> view s k = Some p' \<Longrightarrow> Is_Open p \<Longrightarrow> Is_Open p' \<Longrightarrow> Of_Quota p = Of_Quota p' \<Longrightarrow> j = k" for j k p p'
    using s(2) unfolding one_open_def by blast
  show ?thesis unfolding one_open_def v by (auto split: if_splits dest: other uniq)
qed

lemma shut_one_open:
  assumes "one_open s" and "view s' = (view s)(i := map_option f (view s i))" and "\<And>p. \<not> Is_Open (f p)"
  shows "one_open s'"
  using assms(1,3) unfolding one_open_def assms(2) by (auto split: if_splits)

text \<open>A pull request just created is the one a later search finds, so that it is adopted.\<close>

lemma created_is_found:
  assumes s: "invar s" "one_open s" and none: "search ns q s = (0, e)" and c: "create n q ns d l s = (i, s')"
  shows "search ns q s' = (i, d)"
proof -
  from create_view [OF s(1) c] have s': "invar s'"
    and v: "view s' i = Some \<lparr>Of_Quota = (ns, q), With_Direction = d, Is_Open = True, Is_Merged = False\<rparr>" by simp_all
  obtain j f where f: "search ns q s' = (j, f)" by force
  have "j \<noteq> 0"
  proof
    assume "j = 0"
    from search_none [OF s' f [unfolded this] v] show False by simp
  qed
  from search_found [OF s' f this] obtain p where p: "view s' j = Some p" "Of_Quota p = (ns, q)" "With_Direction p = f" "Is_Open p" by blast
  have "j = i" using propose_one_open [OF s none c] p v unfolding one_open_def by fastforce
  with p v f show ?thesis by auto
qed

text \<open>Once merged or closed, a pull request is no longer found, and reported as not open.\<close>

lemma merged_is_shut:
  assumes "invar s" and "view s i = Some p" and "merge i s = Inr s'"
  shows "\<exists>st. get s' i = Some st \<and> \<not> IsOpen st \<and> IsMerged st" and "fst (search ns q s') \<noteq> i \<or> i = 0"
proof -
  from merge_view [OF assms(1), of i] assms(2,3) have s': "invar s'" and v: "view s' i = Some (p\<lparr>Is_Open := False, Is_Merged := True\<rparr>)" by auto
  from get_view [OF s' v] show "\<exists>st. get s' i = Some st \<and> \<not> IsOpen st \<and> IsMerged st" by auto
  show "fst (search ns q s') \<noteq> i \<or> i = 0" using search_found [OF s', of ns q i] v by (cases "search ns q s'") auto
qed

lemma closed_is_shut:
  assumes "invar s" and "view s i = Some p" and "close i s = Inr s'"
  shows "\<exists>st. get s' i = Some st \<and> \<not> IsOpen st \<and> IsMerged st = Is_Merged p" and "fst (search ns q s') \<noteq> i \<or> i = 0"
proof -
  from close_view [OF assms(1), of i] assms(2,3) have s': "invar s'" and v: "view s' i = Some (p\<lparr>Is_Open := False\<rparr>)" by auto
  from get_view [OF s' v] show "\<exists>st. get s' i = Some st \<and> \<not> IsOpen st \<and> IsMerged st = Is_Merged p" by auto
  show "fst (search ns q s') \<noteq> i \<or> i = 0" using search_found [OF s', of ns q i] v by (cases "search ns q s'") auto
qed

end

section \<open>\<^verbatim>\<open>LogOnlyProvider\<close>\<close>

definition LogOnly_GetPRStatus :: "int \<Rightarrow> PRStatus result" where
  "LogOnly_GetPRStatus prID = Inr \<lparr>IsOpen = True, IsMerged = False, Mergeable = True, MergeableState = ''clean'',
     ChecksState = ''success'', ChecksTotalCount = 0, CreatedAt = zero_time\<rparr>"

definition LogOnly_CreatePR :: "nat \<Rightarrow> string \<Rightarrow> string \<Rightarrow> string \<Rightarrow> string smap \<Rightarrow> 'q smap \<Rightarrow> int result" where
  "LogOnly_CreatePR n quotaName namespace direction annotations newLimits = Inr (int n + 1000)"

definition LogOnly_UpdatePR :: "int \<Rightarrow> string \<Rightarrow> string \<Rightarrow> string smap \<Rightarrow> 'q smap \<Rightarrow> unit result" where
  "LogOnly_UpdatePR prID quotaName namespace annotations newLimits = Inr ()"

definition LogOnly_MergePR :: "int \<Rightarrow> string \<Rightarrow> unit result" where "LogOnly_MergePR prID how = Inr ()"

definition LogOnly_FindOpenPR :: "string \<Rightarrow> string \<Rightarrow> (int \<times> string) result" where
  "LogOnly_FindOpenPR namespace quotaName = Inr (0, '''')"

definition LogOnly_ClosePR :: "int \<Rightarrow> string \<Rightarrow> unit result" where "LogOnly_ClosePR prID comment = Inr ()"

section \<open>\<^verbatim>\<open>StatefulLogProvider\<close>\<close>

text \<open>A pointer to a status is an option; dereferencing a nil pointer is a panic.\<close>

record 'q PRDetails =
  Det_Namespace :: string
  Det_QuotaName :: string
  Det_Direction :: string
  Det_NewLimits :: "'q smap"
  Det_Status :: "PRStatus option"

type_synonym 'q prs = "(int \<times> 'q PRDetails) list"

definition clean_status :: PRStatus where
  "clean_status = \<lparr>IsOpen = True, IsMerged = False, Mergeable = True, MergeableState = ''clean'',
     ChecksState = '''', ChecksTotalCount = 0, CreatedAt = zero_time\<rparr>"

definition NewStatefulLogProvider :: "'q prs" where [simp]: "NewStatefulLogProvider = []"

definition Stateful_GetPRStatus :: "'q prs \<Rightarrow> int \<Rightarrow> PRStatus option" where
  "Stateful_GetPRStatus prs prID = (case map_of prs prID of Some details \<Rightarrow> Det_Status details | None \<Rightarrow> Some clean_status)"

definition Stateful_CreatePR :: "nat \<Rightarrow> string \<Rightarrow> string \<Rightarrow> string \<Rightarrow> 'q smap \<Rightarrow> 'q prs \<Rightarrow> int \<times> 'q prs" where
  "Stateful_CreatePR n quotaName namespace direction newLimits prs = (let prID = int n + 1000 in
     (prID, AList.update prID \<lparr>Det_Namespace = namespace, Det_QuotaName = quotaName, Det_Direction = direction,
        Det_NewLimits = newLimits, Det_Status = Some clean_status\<rparr> prs))"

definition Stateful_UpdatePR :: "int \<Rightarrow> 'q smap \<Rightarrow> 'q prs \<Rightarrow> 'q prs" where
  "Stateful_UpdatePR prID newLimits prs = prs"

text \<open>The map is walked in the order of the list, which the code does not fix.\<close>

definition Stateful_FindOpenPR :: "string \<Rightarrow> string \<Rightarrow> 'q prs \<Rightarrow> int \<times> string" where
  "Stateful_FindOpenPR namespace quotaName prs = (case find (\<lambda>(prID, details). Det_Namespace details = namespace
       \<and> Det_QuotaName details = quotaName \<and> (case Det_Status details of None \<Rightarrow> False | Some st \<Rightarrow> IsOpen st)) prs of
     Some (prID, details) \<Rightarrow> (prID, Det_Direction details)
   | None \<Rightarrow> (0, ''''))"

definition change_status :: "(PRStatus \<Rightarrow> PRStatus) \<Rightarrow> int \<Rightarrow> 'q prs \<Rightarrow> 'q prs result" where
  "change_status f prID prs = (case map_of prs prID of
     None \<Rightarrow> Inr prs
   | Some details \<Rightarrow> (case Det_Status details of
       None \<Rightarrow> Inl (OtherError ''panic: nil pointer dereference'')
     | Some st \<Rightarrow> Inr (AList.update prID (details\<lparr>Det_Status := Some (f st)\<rparr>) prs)))"

definition Stateful_MergePR :: "int \<Rightarrow> 'q prs \<Rightarrow> 'q prs result" where
  "Stateful_MergePR = change_status (\<lambda>st. st\<lparr>IsOpen := False, IsMerged := True\<rparr>)"

definition Stateful_ClosePR :: "int \<Rightarrow> 'q prs \<Rightarrow> 'q prs result" where
  "Stateful_ClosePR = change_status (\<lambda>st. st\<lparr>IsOpen := False\<rparr>)"

subsection \<open>It keeps the contract\<close>

definition prs_ok :: "'q prs \<Rightarrow> bool" where
  "prs_ok prs \<longleftrightarrow> distinct (map fst prs) \<and> list_all (\<lambda>(i, d). i \<noteq> 0 \<and> Det_Status d \<noteq> None) prs"

definition prs_view :: "'q prs \<Rightarrow> int \<Rightarrow> pr_view option" where
  "prs_view prs i = (case map_of prs i of None \<Rightarrow> None
   | Some d \<Rightarrow> (case Det_Status d of None \<Rightarrow> None
     | Some st \<Rightarrow> Some \<lparr>Of_Quota = (Det_Namespace d, Det_QuotaName d), With_Direction = Det_Direction d, Is_Open = IsOpen st, Is_Merged = IsMerged st\<rparr>))"

lemma prs_ok_update: "prs_ok prs \<Longrightarrow> i \<noteq> 0 \<Longrightarrow> Det_Status d \<noteq> None \<Longrightarrow> prs_ok (AList.update i d prs)"
proof -
  assume a: "prs_ok prs" "i \<noteq> 0" "Det_Status d \<noteq> None"
  have "list_all P (AList.update i d prs)" if "list_all P prs" "P (i, d)" for P using that by (induction prs) auto
  with a show ?thesis unfolding prs_ok_def by (simp add: distinct_update)
qed

lemma prs_view_update: "Det_Status d = Some st \<Longrightarrow> prs_view (AList.update i d prs) = (prs_view prs)(i \<mapsto>
    \<lparr>Of_Quota = (Det_Namespace d, Det_QuotaName d), With_Direction = Det_Direction d, Is_Open = IsOpen st, Is_Merged = IsMerged st\<rparr>)"
  by (rule ext) (simp add: prs_view_def)

lemma prs_ok_lookup: "prs_ok prs \<Longrightarrow> map_of prs i = Some d \<Longrightarrow> i \<noteq> 0 \<and> (\<exists>st. Det_Status d = Some st)"
  by (drule map_of_SomeD) (auto simp: prs_ok_def list_all_iff)

lemma change_status_view:
  assumes "prs_ok prs" and "\<And>st. IsOpen (f st) = False" and "\<And>st. IsMerged (f st) = (m \<or> IsMerged st)"
  shows "\<exists>prs'. change_status f i prs = Inr prs' \<and> prs_ok prs' \<and> prs_view prs' = (prs_view prs)(i :=
    map_option (\<lambda>p. p\<lparr>Is_Open := False, Is_Merged := m \<or> Is_Merged p\<rparr>) (prs_view prs i))"
proof (cases "map_of prs i")
  case None
  then show ?thesis using assms(1) by (auto simp: change_status_def prs_view_def)
next
  case (Some d)
  from prs_ok_lookup [OF assms(1) this] obtain st where d: "Det_Status d = Some st" "i \<noteq> 0" by blast
  have v: "prs_view prs i = Some \<lparr>Of_Quota = (Det_Namespace d, Det_QuotaName d), With_Direction = Det_Direction d, Is_Open = IsOpen st, Is_Merged = IsMerged st\<rparr>"
    using Some d by (simp add: prs_view_def)
  show ?thesis
    using Some d assms by (simp add: change_status_def prs_ok_update prs_view_update v)
qed

abbreviation matches_quota :: "string \<Rightarrow> string \<Rightarrow> int \<times> 'q PRDetails \<Rightarrow> bool" where
  "matches_quota ns q \<equiv> \<lambda>(prID, details). Det_Namespace details = ns \<and> Det_QuotaName details = q
     \<and> (case Det_Status details of None \<Rightarrow> False | Some st \<Rightarrow> IsOpen st)"

lemma find_SomeD: "find P xs = Some x \<Longrightarrow> x \<in> set xs \<and> P x"
  by (induction xs) (auto split: if_splits)

lemma prs_lookup: "prs_ok prs \<Longrightarrow> (i, d) \<in> set prs \<Longrightarrow> map_of prs i = Some d"
  by (simp add: prs_ok_def)

lemma FindOpenPR_found:
  assumes ok: "prs_ok s" and f: "Stateful_FindOpenPR ns q s = (i, d)" and i: "i \<noteq> 0"
  shows "\<exists>p. prs_view s i = Some p \<and> Of_Quota p = (ns, q) \<and> With_Direction p = d \<and> Is_Open p"
proof (cases "find (matches_quota ns q) s")
  case None
  with f i show ?thesis by (simp add: Stateful_FindOpenPR_def)
next
  case (Some x)
  with f obtain det where x: "x = (i, det)" "Det_Direction det = d" by (cases x) (simp add: Stateful_FindOpenPR_def)
  from find_SomeD [OF Some] x(1) have det: "(i, det) \<in> set s" "matches_quota ns q (i, det)" by simp_all
  with x(2) prs_lookup [OF ok det(1)] show ?thesis by (auto simp: prs_view_def split: option.splits)
qed

lemma FindOpenPR_none:
  assumes ok: "prs_ok s" and f: "Stateful_FindOpenPR ns q s = (0, d)" and v: "prs_view s i = Some p" "Of_Quota p = (ns, q)"
  shows "\<not> Is_Open p"
proof
  assume "Is_Open p"
  with v obtain det where det: "map_of s i = Some det" "matches_quota ns q (i, det)"
    by (auto simp: prs_view_def split: option.splits)
  have "find (matches_quota ns q) s \<noteq> None" unfolding find_None_iff using map_of_SomeD [OF det(1)] det(2) by blast
  then obtain j e where j: "find (matches_quota ns q) s = Some (j, e)" by auto
  with f have "j = 0" by (simp add: Stateful_FindOpenPR_def)
  with find_SomeD [OF j] prs_ok_lookup [OF ok prs_lookup [OF ok]] show False by blast
qed

interpretation stateful: git_provider prs_ok prs_view Stateful_GetPRStatus Stateful_CreatePR Stateful_MergePR Stateful_ClosePR Stateful_FindOpenPR
proof unfold_locales
  fix s :: "'a prs" and i p assume "prs_ok s" "prs_view s i = Some p"
  then show "\<exists>st. Stateful_GetPRStatus s i = Some st \<and> IsOpen st = Is_Open p \<and> IsMerged st = Is_Merged p"
    by (auto simp: prs_view_def Stateful_GetPRStatus_def split: option.splits)
next
  fix s s' :: "'a prs" and n q ns d l i assume "prs_ok s" "Stateful_CreatePR n q ns d l s = (i, s')"
  then show "i \<noteq> 0 \<and> prs_ok s' \<and> prs_view s' = (prs_view s)(i \<mapsto> \<lparr>Of_Quota = (ns, q), With_Direction = d, Is_Open = True, Is_Merged = False\<rparr>)"
    by (auto simp: Stateful_CreatePR_def Let_def clean_status_def prs_view_update intro!: prs_ok_update)
next
  fix s :: "'a prs" and i assume "prs_ok s"
  from change_status_view [OF this, of "\<lambda>st. st\<lparr>IsOpen := False, IsMerged := True\<rparr>" True i]
  show "\<exists>s'. Stateful_MergePR i s = Inr s' \<and> prs_ok s' \<and> prs_view s' = (prs_view s)(i := map_option (\<lambda>p. p\<lparr>Is_Open := False, Is_Merged := True\<rparr>) (prs_view s i))"
    by (simp add: Stateful_MergePR_def)
next
  fix s :: "'a prs" and i assume "prs_ok s"
  from change_status_view [OF this, of "\<lambda>st. st\<lparr>IsOpen := False\<rparr>" False i]
  show "\<exists>s'. Stateful_ClosePR i s = Inr s' \<and> prs_ok s' \<and> prs_view s' = (prs_view s)(i := map_option (\<lambda>p. p\<lparr>Is_Open := False\<rparr>) (prs_view s i))"
    by (simp add: Stateful_ClosePR_def)
next
  fix s :: "'a prs" and ns q i d assume "prs_ok s" "Stateful_FindOpenPR ns q s = (i, d)" "i \<noteq> 0"
  then show "\<exists>p. prs_view s i = Some p \<and> Of_Quota p = (ns, q) \<and> With_Direction p = d \<and> Is_Open p" by (rule FindOpenPR_found)
next
  fix s :: "'a prs" and ns q d i p
  assume "prs_ok s" "Stateful_FindOpenPR ns q s = (0, d)" "prs_view s i = Some p" "Of_Quota p = (ns, q)"
  then show "\<not> Is_Open p" by (rule FindOpenPR_none)
qed

subsection \<open>The dry run\<close>

text \<open>
  The provider as the reconciler uses it: a pull request is created only after a search found none
  (\<^verbatim>\<open>handleNewProposal\<close>); merges, closes and updates come in any order, for any number.
\<close>

inductive dry_run :: "'q prs \<Rightarrow> bool" where
  start: "dry_run []"
| propose: "dry_run s \<Longrightarrow> Stateful_FindOpenPR ns q s = (0, e) \<Longrightarrow> Stateful_CreatePR n q ns d l s = (i, s') \<Longrightarrow> dry_run s'"
| update: "dry_run s \<Longrightarrow> dry_run (Stateful_UpdatePR i l s)"
| merge: "dry_run s \<Longrightarrow> Stateful_MergePR i s = Inr s' \<Longrightarrow> dry_run s'"
| close: "dry_run s \<Longrightarrow> Stateful_ClosePR i s = Inr s' \<Longrightarrow> dry_run s'"

inductive_cases dry_run_NilE: "dry_run []"

lemma dry_run_invariant: "dry_run s \<Longrightarrow> prs_ok s \<and> stateful.one_open s"
proof (induction rule: dry_run.induct)
  case start
  show ?case unfolding prs_ok_def stateful.one_open_def by (simp add: prs_view_def)
next
  case (propose s ns q e n d l i s')
  then show ?case using stateful.create_view stateful.propose_one_open by metis
next
  case (update s i l)
  then show ?case by (simp add: Stateful_UpdatePR_def)
next
  case (merge s i s')
  from stateful.merge_view [of s i] merge have "prs_ok s'"
    "prs_view s' = (prs_view s)(i := map_option (\<lambda>p. p\<lparr>Is_Open := False, Is_Merged := True\<rparr>) (prs_view s i))" by auto
  with merge stateful.shut_one_open [of s s' i] show ?case by simp
next
  case (close s i s')
  from stateful.close_view [of s i] close have "prs_ok s'"
    "prs_view s' = (prs_view s)(i := map_option (\<lambda>p. p\<lparr>Is_Open := False\<rparr>) (prs_view s i))" by auto
  with close stateful.shut_one_open [of s s' i] show ?case by simp
qed

text \<open>
  In every state a dry run reaches, no operation dereferences a nil pointer, and no
  quota has two open pull requests, whatever numbers the random generator draws.
\<close>

theorem dry_run_one_open:
  assumes "dry_run s"
  shows "(\<exists>st. Stateful_GetPRStatus s i = Some st) \<and> (\<exists>s'. Stateful_MergePR i s = Inr s') \<and> (\<exists>s'. Stateful_ClosePR i s = Inr s')
    \<and> (\<forall>d st j d' st'. map_of s i = Some d \<longrightarrow> Det_Status d = Some st \<longrightarrow> IsOpen st \<longrightarrow>
        map_of s j = Some d' \<longrightarrow> Det_Status d' = Some st' \<longrightarrow> IsOpen st' \<longrightarrow>
        Det_Namespace d = Det_Namespace d' \<longrightarrow> Det_QuotaName d = Det_QuotaName d' \<longrightarrow> i = j)"
proof -
  from dry_run_invariant [OF assms] have ok: "prs_ok s" "stateful.one_open s" by simp_all
  have "\<exists>st. Stateful_GetPRStatus s i = Some st"
    using prs_ok_lookup [OF ok(1), of i] by (auto simp: Stateful_GetPRStatus_def split: option.split)
  moreover have "i = j" if "map_of s i = Some d" "Det_Status d = Some st" "IsOpen st" "map_of s j = Some d'" "Det_Status d' = Some st'" "IsOpen st'"
    "Det_Namespace d = Det_Namespace d'" "Det_QuotaName d = Det_QuotaName d'" for d st j d' st'
    using ok(2) that unfolding stateful.one_open_def by (simp add: prs_view_def)
  ultimately show ?thesis using stateful.merge_view [OF ok(1), of i] stateful.close_view [OF ok(1), of i] by blast
qed

text \<open>
  What the dry run proposes is what it finds: after a proposal the search for the quota
  returns its number and direction, until it is merged or closed.
\<close>

theorem dry_run_adopts:
  assumes "dry_run s" and "Stateful_FindOpenPR ns q s = (0, e)" and "Stateful_CreatePR n q ns d l s = (i, s')"
  shows "Stateful_FindOpenPR ns q s' = (i, d) \<and>
    (\<forall>s''. Stateful_MergePR i s' = Inr s'' \<or> Stateful_ClosePR i s' = Inr s'' \<longrightarrow> Stateful_FindOpenPR ns q s'' = (0, ''''))"
proof -
  from dry_run_invariant [OF assms(1)] have ok: "prs_ok s" "stateful.one_open s" by simp_all
  have f: "Stateful_FindOpenPR ns q s' = (i, d)" by (rule stateful.created_is_found [OF ok assms(2,3)])
  have s': "prs_ok s'" "i \<noteq> 0" using stateful.create_view [OF ok(1) assms(3)] by simp_all
  have uniq: "stateful.one_open s'" using stateful.propose_one_open [OF ok assms(2,3)] .
  from stateful.search_found [OF s'(1) f s'(2)] obtain p where
    p: "prs_view s' i = Some p" "Of_Quota p = (ns, q)" "Is_Open p" by blast
  have gone: "Stateful_FindOpenPR ns q t = (0, '''')"
    if t: "prs_ok t" "prs_view t = (prs_view s')(i := map_option g (prs_view s' i))" "\<And>p. \<not> Is_Open (g p)" for g t
  proof -
    obtain j f where jf: "Stateful_FindOpenPR ns q t = (j, f)" by force
    have "j = 0"
    proof (rule ccontr)
      assume "j \<noteq> 0"
      from stateful.search_found [OF t(1) jf this] obtain r where "prs_view t j = Some r" "Of_Quota r = (ns, q)" "Is_Open r" by blast
      with t(2,3) p uniq show False unfolding stateful.one_open_def by (auto split: if_splits)
    qed
    with jf show ?thesis
      by (auto simp: Stateful_FindOpenPR_def split: option.splits dest!: find_SomeD prs_lookup [OF t(1)] prs_ok_lookup [OF t(1)])
  qed
  have "Stateful_FindOpenPR ns q s'' = (0, '''')" if "Stateful_MergePR i s' = Inr s'' \<or> Stateful_ClosePR i s' = Inr s''" for s''
    using that stateful.merge_view [OF s'(1), of i] stateful.close_view [OF s'(1), of i] gone by force
  with f show ?thesis by blast
qed

text \<open>A dry run with one proposal.\<close>

definition one_proposal :: "nano prs" where "one_proposal = snd (Stateful_CreatePR 5 ''compute'' ''team'' ''shrink'' [] [])"

lemma one_proposal_run: "dry_run one_proposal" "Stateful_FindOpenPR ''team'' ''compute'' ([] :: nano prs) = (0, '''')"
  "Stateful_CreatePR 5 ''compute'' ''team'' ''shrink'' [] ([] :: nano prs) = (1005, one_proposal)"
proof -
  show f: "Stateful_FindOpenPR ''team'' ''compute'' ([] :: nano prs) = (0, '''')" by (simp add: Stateful_FindOpenPR_def)
  show c: "Stateful_CreatePR 5 ''compute'' ''team'' ''shrink'' [] ([] :: nano prs) = (1005, one_proposal)"
    by (simp add: one_proposal_def Stateful_CreatePR_def)
  show "dry_run one_proposal" by (rule dry_run.propose [OF dry_run.start f c])
qed

theorem dry_run_one_open_witness:
  "(\<exists>s'. Stateful_MergePR 1005 one_proposal = Inr s') \<and> (\<exists>s'. Stateful_ClosePR 3 one_proposal = Inr s')"
  using dry_run_one_open [OF one_proposal_run(1), of 1005] dry_run_one_open [OF one_proposal_run(1), of 3] by blast

theorem dry_run_adopts_witness: "Stateful_FindOpenPR ''team'' ''compute'' one_proposal = (1005, ''shrink'')"
  using dry_run_adopts [OF dry_run.start one_proposal_run(2,3)] by blast

text \<open>
  Numbers are drawn from a thousand: when one is drawn twice, the pull request that had it is
  forgotten although it was neither merged nor closed.
\<close>

theorem Stateful_number_reused:
  "Stateful_FindOpenPR ''team'' ''compute'' (snd (Stateful_CreatePR 5 ''batch'' ''other'' ''grow'' [] one_proposal)) = (0, '''')"
  by (simp add: one_proposal_def Stateful_CreatePR_def Stateful_FindOpenPR_def)

section \<open>\<^verbatim>\<open>FakeGitProvider\<close>\<close>

text \<open>Counters are \<^verbatim>\<open>int\<close>, as wide as \<^verbatim>\<open>int64\<close>.\<close>

record 'q FakeGitProvider =
  Fake_PRStatus :: "PRStatus option"
  MergedPRID :: int
  CreatePRID :: int
  ExistingPR :: int
  ExistingPRDirection :: string
  CreatePRCalls :: int
  UpdatePRCalls :: int
  FindOpenPRCalls :: int
  ClosePRCalls :: int
  LastLimits :: "'q smap"
  LastDirection :: string
  ClosedPRID :: int
  ClosedComment :: string

definition Fake_GetPRStatus :: "int \<Rightarrow> 'q FakeGitProvider \<Rightarrow> PRStatus option" where
  "Fake_GetPRStatus prID f = Fake_PRStatus f"

definition Fake_CreatePR :: "string \<Rightarrow> string \<Rightarrow> string \<Rightarrow> string smap \<Rightarrow> 'q smap \<Rightarrow> 'q FakeGitProvider \<Rightarrow> int \<times> 'q FakeGitProvider" where
  "Fake_CreatePR quotaName namespace direction annotations newLimits f = (let
      f = f\<lparr>CreatePRCalls := wrap64 (CreatePRCalls f + 1), LastLimits := newLimits, LastDirection := direction\<rparr>
    in if CreatePRID f \<noteq> 0 then (CreatePRID f, f) else (1, f))"

definition Fake_UpdatePR :: "int \<Rightarrow> string \<Rightarrow> string \<Rightarrow> string smap \<Rightarrow> 'q smap \<Rightarrow> 'q FakeGitProvider \<Rightarrow> 'q FakeGitProvider" where
  "Fake_UpdatePR prID quotaName namespace annotations newLimits f =
     f\<lparr>UpdatePRCalls := wrap64 (UpdatePRCalls f + 1), LastLimits := newLimits\<rparr>"

definition Fake_MergePR :: "int \<Rightarrow> string \<Rightarrow> 'q FakeGitProvider \<Rightarrow> 'q FakeGitProvider" where
  "Fake_MergePR prID how f = f\<lparr>MergedPRID := prID\<rparr>"

definition Fake_FindOpenPR :: "string \<Rightarrow> string \<Rightarrow> 'q FakeGitProvider \<Rightarrow> (int \<times> string) \<times> 'q FakeGitProvider" where
  "Fake_FindOpenPR namespace quotaName f = (let
      f = f\<lparr>FindOpenPRCalls := wrap64 (FindOpenPRCalls f + 1)\<rparr>;
      direction = ExistingPRDirection f;
      direction = (if ExistingPR f \<noteq> 0 \<and> direction = '''' then ''grow'' else direction)
    in ((ExistingPR f, direction), f))"

definition Fake_ClosePR :: "int \<Rightarrow> string \<Rightarrow> 'q FakeGitProvider \<Rightarrow> 'q FakeGitProvider" where
  "Fake_ClosePR prID comment f =
     f\<lparr>ClosePRCalls := wrap64 (ClosePRCalls f + 1), ClosedPRID := prID, ClosedComment := comment\<rparr>"

end
