(* ===== verification/Dry_Run.thy ===== *)
theory Dry_Run
  imports Hosting Providers
begin

text \<open>
  The controller with the in-memory provider of the dry run behind it
  (\<^verbatim>\<open>StatefulLogProvider\<close>, \<^verbatim>\<open>internal/git/log_provider.go\<close>). The pull requests in memory are a function
  of the calls since the process was started; the random numbers are an argument.
\<close>

fun dry_step :: "'q call \<Rightarrow> 'q prs \<Rightarrow> 'q prs" where
  "dry_step (CreatePR q ns d a ls (Inr i)) s = snd (Stateful_CreatePR (nat (i - 1000)) q ns d ls s)"
| "dry_step (UpdatePR i q ns a ls c) s = Stateful_UpdatePR i ls s"
| "dry_step (MergePR i how c) s = (case Stateful_MergePR i s of Inl _ \<Rightarrow> s | Inr s' \<Rightarrow> s')"
| "dry_step (ClosePR i comment c) s = (case Stateful_ClosePR i s of Inl _ \<Rightarrow> s | Inr s' \<Rightarrow> s')"
| "dry_step _ s = s"

definition dry_after :: "'q call list \<Rightarrow> 'q prs" where
  "dry_after t = fold dry_step t NewStatefulLogProvider"

text \<open>A panic of the provider ends the call; the caller goes no further.\<close>

definition no_result :: "'a result" where
  "no_result = Inl (OtherError ''panic: nil pointer dereference'')"

definition dry_client :: "('q call list \<Rightarrow> nat) \<Rightarrow> 'q client \<Rightarrow> 'q client" where
  "dry_client rand E = E\<lparr>
     pr_status := \<lambda>t i. (case Stateful_GetPRStatus (dry_after t) i of None \<Rightarrow> no_result | Some st \<Rightarrow> Inr st),
     pr_merged := \<lambda>t i how. map_sum id (\<lambda>_. ()) (Stateful_MergePR i (dry_after t)),
     pr_created := \<lambda>t q ns d a ls. Inr (fst (Stateful_CreatePR (rand t) q ns d ls (dry_after t))),
     pr_updated := \<lambda>t i q ns a ls. Inr (),
     pr_found := \<lambda>t ns q. Inr (Stateful_FindOpenPR ns q (dry_after t)),
     pr_closed := \<lambda>t i comment. map_sum id (\<lambda>_. ()) (Stateful_ClosePR i (dry_after t))\<rparr>"

text \<open>The answers of the client are those of the provider, and the state after a call is the provider's.\<close>

lemma dry_created:
  "pr_created (dry_client rand E) t q ns d a ls = Inr i \<Longrightarrow>
     Stateful_CreatePR (rand t) q ns d ls (dry_after t) = (i, dry_after (t @ [CreatePR q ns d a ls (Inr i)]))"
  by (auto simp: dry_client_def dry_after_def Stateful_CreatePR_def Let_def)

lemma dry_after_snoc [simp]: "dry_after (t @ [e]) = dry_step e (dry_after t)" "dry_after [] = []"
  by (simp_all add: dry_after_def)

definition dry_open :: "'q call list \<Rightarrow> string \<Rightarrow> string \<Rightarrow> int set" where
  "dry_open t ns q = {i. \<exists>p. prs_view (dry_after t) i = Some p \<and> Of_Quota p = (ns, q) \<and> Is_Open p}"

text \<open>A step creates a pull request, shuts one, or leaves everything as it is.\<close>

lemma dry_step_cases:
  assumes "prs_ok s"
  obtains (create) q ns d a ls i j where "e = CreatePR q ns d a ls (Inr i)"
      and "Stateful_CreatePR (nat (i - 1000)) q ns d ls s = (j, dry_step e s)"
    | (shut) i f where "prs_view (dry_step e s) = (prs_view s)(i := map_option f (prs_view s i))" "prs_ok (dry_step e s)"
        "\<not> is_create e" "\<And>p. \<not> Is_Open (f p)"
    | (same) "dry_step e s = s"
proof (cases "(e, s)" rule: dry_step.cases)
  case (1 q ns d a ls i s')
  then show thesis by (intro create) (auto simp: prod_eq_iff)
next
  case (3 i how c s')
  with stateful.merge_view [OF assms, of i] show thesis
    by (intro shut [of i "\<lambda>p. p\<lparr>Is_Open := False, Is_Merged := True\<rparr>"]) auto
next
  case (4 i how c s')
  with stateful.close_view [OF assms, of i] show thesis
    by (intro shut [of i "\<lambda>p. p\<lparr>Is_Open := False\<rparr>"]) auto
qed (auto intro: same simp: Stateful_UpdatePR_def)

lemma dry_ok: "prs_ok (dry_after t)"
proof (induction t rule: rev_induct)
  case (snoc e t)
  show ?case
    unfolding dry_after_snoc by (rule dry_step_cases [OF snoc, of e]) (use snoc stateful.create_view [OF snoc] in metis)+
qed (simp add: prs_ok_def)

lemma dry_create_view:
  "prs_view (dry_after (t @ [CreatePR q ns d a ls c])) = prs_view (dry_after t)
    \<or> (\<exists>i. prs_view (dry_after (t @ [CreatePR q ns d a ls c])) = (prs_view (dry_after t))(i \<mapsto>
        \<lparr>Of_Quota = (ns, q), With_Direction = d, Is_Open = True, Is_Merged = False\<rparr>))"
proof (cases c)
  case (Inr i)
  obtain j s where s: "Stateful_CreatePR (nat (i - 1000)) q ns d ls (dry_after t) = (j, s)" by force
  from stateful.create_view [OF dry_ok s] show ?thesis by (auto simp: Inr s)
qed simp

lemma dry_open_stays:
  assumes "\<not> is_create e"
  shows "dry_open (t @ [e]) ns q \<subseteq> dry_open t ns q"
  by (rule dry_step_cases [OF dry_ok [of t], of e]) (use assms in \<open>auto simp: dry_open_def split: if_splits\<close>)

lemma dry_open_create:
  "(ns', q') \<noteq> (ns, q) \<Longrightarrow> dry_open (t @ [CreatePR q ns d a ls c]) ns' q' \<subseteq> dry_open t ns' q'"
  "\<exists>i. dry_open (t @ [CreatePR q ns d a ls c]) ns q \<subseteq> insert i (dry_open t ns q)"
  using dry_create_view [of t q ns d a ls c] by (auto simp: dry_open_def split: if_splits)

lemma dry_search_none: "pr_found (dry_client rand E) t ns q = Inr (0, d) \<Longrightarrow> dry_open t ns q = {}"
  using FindOpenPR_none [OF dry_ok, of ns q t d] by (simp add: dry_client_def dry_open_def)

lemma dry_open_start: "dry_open [] ns q = {}"
  by (simp add: dry_open_def prs_view_def)

interpretation dry: exclusive "dry_client rand E" dry_open "\<lambda>_. True" for rand E
  by unfold_locales (rule dry_open_start dry_open_stays dry_open_create dry_search_none TrueI; assumption)+

end
