(* ===== verification/Decide_Safety.thy ===== *)
theory Decide_Safety
  imports Decide
begin

text \<open>
  Properties of \<^verbatim>\<open>Decide\<close>: targets never fall below the usage, directions and targets agree, the
  gates and the step cap hold, the result does not depend on the order of the maps, and applied
  decisions settle.
\<close>

section \<open>Targets and demand\<close>

context quantity_laws
begin

lemma not_overflows:
  assumes "\<not> overflowsMilliValue Q q"
  shows "0 \<le> val q" "val q \<le> of_int (int64_max div 1000)"
proof -
  have "val (maxMilliRepresentable Q) = of_int (int64_max div 1000)"
    unfolding maxMilliRepresentable_def maxMilliValue_def by (rule val_new) (simp add: in64_iff int64_max_def)
  then show "0 \<le> val q" "val q \<le> of_int (int64_max div 1000)"
    using assms by (auto simp: overflowsMilliValue_def sign_neg cmp_greater)
qed

lemma overflows_iff: "overflowsMilliValue Q q \<longleftrightarrow> val q < 0 \<or> of_int (int64_max div 1000) < val q"
proof -
  have "val (maxMilliRepresentable Q) = of_int (int64_max div 1000)"
    unfolding maxMilliRepresentable_def maxMilliValue_def by (rule val_new) (simp add: in64_iff int64_max_def)
  then show ?thesis by (auto simp: overflowsMilliValue_def sign_neg cmp_greater)
qed

lemma in64_to_int64: "in64 (to_int64 Q f)"
  using oor_in64 by (cases f) (auto simp: Let_def)

lemma in64_targetFor: "in64 u \<Longrightarrow> in64 (fst (targetFor Q inp res u h))"
  using in64_to_int64 milli_in64
  by (auto simp: targetFor_def scaled_def Let_def split: option.split prod.split)

end

lemma targetFor_ge:
  "scaled Q u h \<le> fst (targetFor Q inp res u h)"
  "MinFor (Policy_in inp) res = Some m \<Longrightarrow> MilliValue Q m \<le> fst (targetFor Q inp res u h)"
  by (auto simp: targetFor_def Let_def split: option.split prod.split)

lemma targetFor_ge_demand:
  "\<exists>k. scaled Q k h \<le> fst (targetFor Q inp res u h) \<and> u \<le> k
     \<and> (\<forall>p. Peak Q (InWindow inp) res (Now inp) (WindowDays (Policy_in inp)) = Some p \<longrightarrow> p \<le> k)
     \<and> (\<forall>d. map_of (Deficits inp) res = Some d \<and> 0 < d \<longrightarrow> wrap64 (u + d) \<le> k)"
proof -
  define k1 where "k1 = (case Peak Q (InWindow inp) res (Now inp) (WindowDays (Policy_in inp)) of Some p \<Rightarrow> max u p | None \<Rightarrow> u)"
  define k where "k = (case map_of (Deficits inp) res of Some d \<Rightarrow> if 0 < d then max k1 (wrap64 (u + d)) else k1 | None \<Rightarrow> k1)"
  have "scaled Q k h \<le> fst (targetFor Q inp res u h)"
    by (auto simp: targetFor_def k_def k1_def Let_def max_def split: option.split prod.split)
  then show ?thesis by (intro exI [of _ k]) (auto simp: k_def k1_def split: option.split)
qed

text \<open>A headroom between 0 and 500, that is at most 50000 percent.\<close>

definition moderate :: "float64 \<Rightarrow> bool" where
  "moderate h \<longleftrightarrow> wf_float h \<and> f_le f_zero h \<and> f_le h (Fin 500 1)"

lemma moderateE:
  assumes "moderate h"
  obtains x where "f64_is h x" and "0 \<le> x" and "x \<le> 500"
proof (cases h)
  case (Fin p q)
  with assms have b: "0 < q" "0 \<le> p" "p \<le> 500 * q" by (simp_all add: moderate_def)
  then have "(of_int p :: real) \<le> of_int (500 * q)" by (simp only: of_int_le_iff)
  with b show thesis by (intro that [of "of_int p / of_int q"]) (auto simp: Fin divide_le_eq)
qed (use assms in \<open>simp_all add: moderate_def\<close>)

lemma scaled_val:
  assumes h: "f64_is h x" "0 \<le> x" "x \<le> 500" and u: "0 \<le> u" "u \<le> 2 ^ 53"
  shows "scaled Q u h = \<lfloor>rnd (of_int u * rnd (1 + x))\<rfloor>" "1 \<le> rnd (1 + x)" "rnd (of_int u * rnd (1 + x)) \<le> 2 ^ 62"
proof -
  have big: "(2::real) ^ 9 < 2 ^ 1024" "(2::real) ^ 62 < 2 ^ 1024" by (intro power_strict_increasing; simp)+
  have c: "\<bar>rnd (1 + x)\<bar> \<le> 2 ^ 9" using h by (intro rnd_abs_bound) simp
  show ge: "1 \<le> rnd (1 + x)" using h(2) by (intro b64.r_ge_1) simp
  have fc: "f64_is (f_add f_one h) (rnd (1 + x))"
    using c big(1) h(1) by (intro f64_is_add) (simp_all add: le_less_trans)
  have fu: "f64_is (f_of_int u) (of_int u)" using u by (rule f64_is_small_int)
  have u': "(of_int u :: real) \<le> 2 ^ 53"
  proof -
    have "(of_int u :: real) \<le> of_int (2 ^ 53)" using u(2) by (simp only: of_int_le_iff)
    then show ?thesis by simp
  qed
  have "of_int u * rnd (1 + x) \<le> 2 ^ 53 * 2 ^ 9" using u u' c ge by (intro mult_mono) auto
  also have "(2::real) ^ 53 * 2 ^ 9 = 2 ^ 62" by simp
  finally have "\<bar>of_int u * rnd (1 + x)\<bar> \<le> 2 ^ 62" using u ge by simp
  from rnd_abs_bound [OF this] have b: "\<bar>rnd (of_int u * rnd (1 + x))\<bar> \<le> 2 ^ 62" .
  then show "rnd (of_int u * rnd (1 + x)) \<le> 2 ^ 62" by simp
  have "f64_is (f_mul (f_of_int u) (f_add f_one h)) (rnd (of_int u * rnd (1 + x)))"
    using b big(2) by (intro f64_is_mul fu fc) simp
  moreover have "0 \<le> rnd (of_int u * rnd (1 + x))" using u ge by (intro rnd_nonneg) simp
  ultimately show "scaled Q u h = \<lfloor>rnd (of_int u * rnd (1 + x))\<rfloor>"
    unfolding scaled_def using b by (intro f_to_int64_floor) simp_all
qed

lemma scaled_ge:
  assumes "moderate h" and "0 \<le> u" and "u \<le> 2 ^ 53"
  shows "u \<le> scaled Q u h"
proof -
  obtain x where x: "f64_is h x" "0 \<le> x" "x \<le> 500" using assms(1) by (rule moderateE)
  note s = scaled_val [OF x assms(2,3)]
  have "of_int u \<le> of_int u * rnd (1 + x)" using assms(2) s(2) by (simp add: mult_le_cancel_left1)
  from rnd_mono [OF this] have "of_int u \<le> rnd (of_int u * rnd (1 + x))"
    using rnd_of_int [of u] assms(2,3) by simp
  then show ?thesis unfolding s(1) by (simp add: le_floor_iff)
qed

lemma Decide_target:
  assumes "distinct (map fst (Hard inp))" and "(res, t) \<in> set (Targets (Decide Q inp))"
  obtains hard target driver m where "map_of (Hard inp) res = Some hard"
    and "key_target Q inp res hard = Some (target, driver)"
    and "m = target \<or> m = capped_milli Q inp (MilliValue Q hard)" and "target \<le> m"
    and "t = Quantize Q res m (Format Q hard)"
    and "Direction_of (Decide Q inp) = DirectionGrow \<and> key_grow Q inp res hard \<noteq> None \<and> m = target \<and> Cmp Q t hard > 0
       \<or> Direction_of (Decide Q inp) = DirectionShrink \<and> key_shrink Q inp res hard \<noteq> None
          \<and> capped_milli Q inp (MilliValue Q hard) \<le> m \<and> Cmp Q t hard < 0"
proof -
  let ?c = "candidatesOf Q inp"
  consider "Direction_of (Decide Q inp) = DirectionGrow" "map_of (growTargets ?c) res = Some t"
    | "Direction_of (Decide Q inp) = DirectionShrink" "map_of (shrinkTargets ?c) res = Some t"
    using assms(2) candidates_distinct [of Q inp]
    by (auto simp: Decide_def noDecision_def Let_def split: if_splits)
  then show thesis
  proof cases
    case 1
    then obtain h d where h: "map_of (Hard inp) res = Some h" "key_grow Q inp res h = Some (t, d)"
      by (auto simp: candidates_lookup [OF assms(1)] bind_eq_Some_conv)
    then show thesis using 1(1) by (auto simp: key_grow_def Let_def split: option.splits if_splits intro: that)
  next
    case 2
    then obtain h d where h: "map_of (Hard inp) res = Some h" "key_shrink Q inp res h = Some (t, d)"
      by (auto simp: candidates_lookup [OF assms(1)] bind_eq_Some_conv)
    obtain a b where k: "key_target Q inp res h = Some (a, b)"
      using h(2) by (auto simp: key_shrink_def split: option.splits)
    define m where "m = max a (capped_milli Q inp (MilliValue Q h))"
    have "t = Quantize Q res m (Format Q h) \<and> Cmp Q t h < 0"
      using h(2) by (auto simp: key_shrink_def k m_def Let_def max_def split: if_splits)
    then show thesis using 2(1) h k by (intro that [of h a b m]) (auto simp: m_def max_def)
  qed
qed

text \<open>
  A proposed limit is never below the current usage of its key, whether
  it grows or shrinks the quota: for every order of the maps, every history in the window and
  every deficit, as long as the usage is below \<open>2\<^sup>5\<^sup>3\<close> milli-units and the headroom is moderate.
\<close>

lemma Decide_target_ge_usage:
  assumes "quantity_laws Q val" and "distinct (map fst (Hard inp))"
    and "(res, t) \<in> set (Targets (Decide Q inp))" and "map_of (Used inp) res = Some used"
    and "moderate (HeadroomFor (Policy_in inp) res)" and "MilliValue Q used < 2 ^ 53"
  shows "val used \<le> val t"
proof -
  obtain hard target driver m where k: "key_target Q inp res hard = Some (target, driver)" "target \<le> m"
    "m = target \<or> m = capped_milli Q inp (MilliValue Q hard)" "t = Quantize Q res m (Format Q hard)"
    using Decide_target [OF assms(2,3)] by metis
  have o: "\<not> overflowsMilliValue Q used" and tg: "target = fst (targetFor Q inp res (MilliValue Q used) (HeadroomFor (Policy_in inp) res))"
    using k(1) assms(4) by (auto simp: key_target_def split: if_splits)
  note v = quantity_laws.not_overflows [OF assms(1) o]
  note b = quantity_laws.milli_bounds [OF assms(1) v]
  have "MilliValue Q used \<le> scaled Q (MilliValue Q used) (HeadroomFor (Policy_in inp) res)"
    using b assms(5,6) by (intro scaled_ge) simp_all
  also have "\<dots> \<le> m" using targetFor_ge(1) k(2) unfolding tg by (rule order.trans)
  finally have um: "MilliValue Q used \<le> m" .
  have "in64 m"
    using k(3) quantity_laws.in64_targetFor [OF assms(1) quantity_laws.milli_in64 [OF assms(1)]]
      quantity_laws.in64_to_int64 [OF assms(1)] by (auto simp: tg capped_milli_def)
  then have "m \<le> int64_max" by (simp add: in64_def)
  from quantity_laws.val_Quantize_mono [OF assms(1) b(1) um this]
  have "val (Quantize Q res (MilliValue Q used) (Format Q hard)) \<le> val t" unfolding k(4) .
  moreover have "of_int (MilliValue Q used) / 1000 \<le> val (Quantize Q res (MilliValue Q used) (Format Q hard))"
    by (rule quantity_laws.val_Quantize_ge [OF assms(1) b(1) assms(6)])
  ultimately show ?thesis using b(3) by linarith
qed

section \<open>Directions\<close>

lemma nonempty_lookup: "m \<noteq> [] \<longleftrightarrow> (\<exists>r. map_of m r \<noteq> None)"
proof (cases m)
  case (Cons a l)
  then have "map_of m (fst a) \<noteq> None" by simp
  with Cons show ?thesis by blast
qed simp

lemma candidates_nonempty:
  assumes "distinct (map fst (Hard inp))"
  shows "growTargets (candidatesOf Q inp) \<noteq> [] \<longleftrightarrow> (\<exists>(r, h) \<in> set (Hard inp). key_grow Q inp r h \<noteq> None)"
    and "shrinkTargets (candidatesOf Q inp) \<noteq> [] \<longleftrightarrow> (\<exists>(r, h) \<in> set (Hard inp). key_shrink Q inp r h \<noteq> None)"
  unfolding nonempty_lookup candidates_lookup [OF assms]
  using assms by (auto simp: bind_eq_Some_conv split: prod.split) (fastforce intro: map_of_SomeD)+

lemma shrinkTargets_complete:
  assumes "distinct (map fst (Hard inp))"
  shows "list_ex (\<lambda>rt. \<not> P (fst rt)) (shrinkTargets (candidatesOf Q inp))
    \<longleftrightarrow> (\<exists>(r, h) \<in> set (Hard inp). key_shrink Q inp r h \<noteq> None \<and> \<not> P r)"
proof -
  have "(\<exists>x. (r, x) \<in> set (shrinkTargets (candidatesOf Q inp))) \<longleftrightarrow> map_of (shrinkTargets (candidatesOf Q inp)) r \<noteq> None" for r
    using candidates_distinct(2) [of Q inp] by simp
  also have "map_of (shrinkTargets (candidatesOf Q inp)) r \<noteq> None \<longleftrightarrow> (\<exists>h. (r, h) \<in> set (Hard inp) \<and> key_shrink Q inp r h \<noteq> None)" for r
    unfolding candidates_lookup(2) [OF assms] using assms by (auto simp: bind_eq_Some_conv)
  finally have k: "(\<exists>x. (r, x) \<in> set (shrinkTargets (candidatesOf Q inp))) \<longleftrightarrow> (\<exists>h. (r, h) \<in> set (Hard inp) \<and> key_shrink Q inp r h \<noteq> None)" for r .
  have "list_ex (\<lambda>rt. \<not> P (fst rt)) (shrinkTargets (candidatesOf Q inp))
      \<longleftrightarrow> (\<exists>r. (\<exists>x. (r, x) \<in> set (shrinkTargets (candidatesOf Q inp))) \<and> \<not> P r)"
    unfolding list_ex_iff by force
  also have "\<dots> \<longleftrightarrow> (\<exists>r. (\<exists>h. (r, h) \<in> set (Hard inp) \<and> key_shrink Q inp r h \<noteq> None) \<and> \<not> P r)" unfolding k ..
  finally show ?thesis by blast
qed

lemma shrinkGates_empty:
  "shrinkGates Q inp ts = [] \<longleftrightarrow> ShrinkEnabled (Policy_in inp)
     \<and> \<not> list_ex (\<lambda>rt. \<not> IsComplete Q (InWindow inp) (fst rt) (Now inp) (WindowDays (Policy_in inp))) ts
     \<and> (IsZero (LastGrow inp) \<or> windowSpan (Policy_in inp) \<le> Sub (Now inp) (LastGrow inp))
     \<and> (IsZero (LastShrink inp) \<or> ShrinkCooldown (Policy_in inp) \<le> Sub (Now inp) (LastShrink inp))"
  by (auto simp: shrinkGates_def)

text \<open>
  (C8) The direction of a decision, exactly. It grows when the policy is enabled
  and some key needs to grow: growth always wins. It shrinks when no key needs to grow, some
  key can shrink, and every gate is open: shrinking is enabled, the window is complete for each
  shrinking key, no growth lies within the window span and no shrink within the cooldown.
\<close>

theorem Decide_direction:
  assumes "distinct (map fst (Hard inp))"
  shows "(Direction_of (Decide Q inp) = DirectionGrow \<longleftrightarrow>
      Enabled (Policy_in inp) \<and> (\<exists>(r, h) \<in> set (Hard inp). key_grow Q inp r h \<noteq> None))
    \<and> (Direction_of (Decide Q inp) = DirectionShrink \<longleftrightarrow>
      Enabled (Policy_in inp) \<and> \<not> (\<exists>(r, h) \<in> set (Hard inp). key_grow Q inp r h \<noteq> None)
      \<and> (\<exists>(r, h) \<in> set (Hard inp). key_shrink Q inp r h \<noteq> None) \<and> ShrinkEnabled (Policy_in inp)
      \<and> (\<forall>(r, h) \<in> set (Hard inp). key_shrink Q inp r h \<noteq> None \<longrightarrow>
          IsComplete Q (InWindow inp) r (Now inp) (WindowDays (Policy_in inp)))
      \<and> (IsZero (LastGrow inp) \<or> windowSpan (Policy_in inp) \<le> Sub (Now inp) (LastGrow inp))
      \<and> (IsZero (LastShrink inp) \<or> ShrinkCooldown (Policy_in inp) \<le> Sub (Now inp) (LastShrink inp)))"
proof (intro conjI)
  show "Direction_of (Decide Q inp) = DirectionGrow \<longleftrightarrow>
      Enabled (Policy_in inp) \<and> (\<exists>(r, h) \<in> set (Hard inp). key_grow Q inp r h \<noteq> None)"
    unfolding candidates_nonempty(1) [OF assms, symmetric] by (auto simp: Decide_def noDecision_def Let_def)
  have g: "(\<forall>(r, h) \<in> set (Hard inp). key_shrink Q inp r h \<noteq> None \<longrightarrow>
      IsComplete Q (InWindow inp) r (Now inp) (WindowDays (Policy_in inp)))
    \<longleftrightarrow> \<not> list_ex (\<lambda>rt. \<not> IsComplete Q (InWindow inp) (fst rt) (Now inp) (WindowDays (Policy_in inp)))
        (shrinkTargets (candidatesOf Q inp))"
    unfolding shrinkTargets_complete [OF assms, where P = "\<lambda>r. IsComplete Q (InWindow inp) r (Now inp) (WindowDays (Policy_in inp))"]
    by auto
  show "Direction_of (Decide Q inp) = DirectionShrink \<longleftrightarrow>
      Enabled (Policy_in inp) \<and> \<not> (\<exists>(r, h) \<in> set (Hard inp). key_grow Q inp r h \<noteq> None)
      \<and> (\<exists>(r, h) \<in> set (Hard inp). key_shrink Q inp r h \<noteq> None) \<and> ShrinkEnabled (Policy_in inp)
      \<and> (\<forall>(r, h) \<in> set (Hard inp). key_shrink Q inp r h \<noteq> None \<longrightarrow>
          IsComplete Q (InWindow inp) r (Now inp) (WindowDays (Policy_in inp)))
      \<and> (IsZero (LastGrow inp) \<or> windowSpan (Policy_in inp) \<le> Sub (Now inp) (LastGrow inp))
      \<and> (IsZero (LastShrink inp) \<or> ShrinkCooldown (Policy_in inp) \<le> Sub (Now inp) (LastShrink inp))"
    unfolding g candidates_nonempty [OF assms, symmetric] using shrinkGates_empty [of Q inp "shrinkTargets (candidatesOf Q inp)"]
    by (auto simp: Decide_def noDecision_def Let_def)
qed

text \<open>
  The targets agree with the direction: a grow has at least one target and every
  target is above the hard limit of its key, a shrink at least one and every target is below,
  and without a direction there are no targets. The preview of a blocked shrink also stays
  below the limits.
\<close>

theorem Decide_consistent:
  assumes "distinct (map fst (Hard inp))"
  shows "(Direction_of (Decide Q inp) = DirectionGrow \<longrightarrow> Targets (Decide Q inp) \<noteq> []
      \<and> (\<forall>(r, t) \<in> set (Targets (Decide Q inp)). \<exists>h. map_of (Hard inp) r = Some h \<and> Cmp Q t h > 0))
    \<and> (Direction_of (Decide Q inp) = DirectionShrink \<longrightarrow> Targets (Decide Q inp) \<noteq> []
      \<and> (\<forall>(r, t) \<in> set (Targets (Decide Q inp)). \<exists>h. map_of (Hard inp) r = Some h \<and> Cmp Q t h < 0))
    \<and> (Direction_of (Decide Q inp) = DirectionNone \<longrightarrow> Targets (Decide Q inp) = [])
    \<and> (\<forall>(r, t) \<in> set (ShrinkPreview (Decide Q inp)). \<exists>h. map_of (Hard inp) r = Some h \<and> Cmp Q t h < 0)"
proof (intro conjI)
  have t: "\<exists>h. map_of (Hard inp) r = Some h
      \<and> (Direction_of (Decide Q inp) = DirectionGrow \<and> Cmp Q t h > 0 \<or> Direction_of (Decide Q inp) = DirectionShrink \<and> Cmp Q t h < 0)"
    if "(r, t) \<in> set (Targets (Decide Q inp))" for r t
    using Decide_target [OF assms that] by metis
  show "Direction_of (Decide Q inp) = DirectionGrow \<longrightarrow> Targets (Decide Q inp) \<noteq> []
      \<and> (\<forall>(r, t) \<in> set (Targets (Decide Q inp)). \<exists>h. map_of (Hard inp) r = Some h \<and> Cmp Q t h > 0)"
    using t by (fastforce simp: Decide_def noDecision_def Let_def split: if_splits)
  show "Direction_of (Decide Q inp) = DirectionShrink \<longrightarrow> Targets (Decide Q inp) \<noteq> []
      \<and> (\<forall>(r, t) \<in> set (Targets (Decide Q inp)). \<exists>h. map_of (Hard inp) r = Some h \<and> Cmp Q t h < 0)"
    using t by (fastforce simp: Decide_def noDecision_def Let_def split: if_splits)
  show "Direction_of (Decide Q inp) = DirectionNone \<longrightarrow> Targets (Decide Q inp) = []"
    by (auto simp: Decide_def noDecision_def Let_def split: if_splits)
  have "\<exists>h. map_of (Hard inp) r = Some h \<and> Cmp Q t h < 0" if "(r, t) \<in> set (shrinkTargets (candidatesOf Q inp))" for r t
  proof -
    have "map_of (shrinkTargets (candidatesOf Q inp)) r = Some t" using that candidates_distinct(2) [of Q inp] by simp
    then obtain h d where "map_of (Hard inp) r = Some h" "key_shrink Q inp r h = Some (t, d)"
      by (auto simp: candidates_lookup [OF assms] bind_eq_Some_conv)
    then show ?thesis by (auto simp: key_shrink_def Let_def split: option.splits if_splits prod.splits)
  qed
  then show "\<forall>(r, t) \<in> set (ShrinkPreview (Decide Q inp)). \<exists>h. map_of (Hard inp) r = Some h \<and> Cmp Q t h < 0"
    by (auto simp: Decide_def noDecision_def Let_def)
qed

section \<open>Map order\<close>

lemma key_Hard [simp]:
  "key_grow Q (inp\<lparr>Hard := hs\<rparr>) = key_grow Q inp" "key_shrink Q (inp\<lparr>Hard := hs\<rparr>) = key_shrink Q inp"
  "key_raw Q (inp\<lparr>Hard := hs\<rparr>) = key_raw Q inp"
proof -
  have s: "Policy_in (inp\<lparr>Hard := hs\<rparr>) = Policy_in inp" "InWindow (inp\<lparr>Hard := hs\<rparr>) = InWindow inp"
    "Now (inp\<lparr>Hard := hs\<rparr>) = Now inp" "Deficits (inp\<lparr>Hard := hs\<rparr>) = Deficits inp"
    "Used (inp\<lparr>Hard := hs\<rparr>) = Used inp" by simp_all
  have t: "targetFor Q (inp\<lparr>Hard := hs\<rparr>) = targetFor Q inp" unfolding fun_eq_iff targetFor_def s by simp
  have k: "key_target Q (inp\<lparr>Hard := hs\<rparr>) = key_target Q inp" unfolding fun_eq_iff key_target_def s t by simp
  have b: "above_band (inp\<lparr>Hard := hs\<rparr>) = above_band inp" "below_band (inp\<lparr>Hard := hs\<rparr>) = below_band inp"
    "capped_milli Q (inp\<lparr>Hard := hs\<rparr>) = capped_milli Q inp"
    unfolding fun_eq_iff above_band_def below_band_def capped_milli_def s by simp_all
  show "key_grow Q (inp\<lparr>Hard := hs\<rparr>) = key_grow Q inp" "key_shrink Q (inp\<lparr>Hard := hs\<rparr>) = key_shrink Q inp"
    "key_raw Q (inp\<lparr>Hard := hs\<rparr>) = key_raw Q inp"
    unfolding fun_eq_iff key_grow_def key_shrink_def key_raw_def k b by simp_all
qed

definition reasons_of :: "'q resource_api \<Rightarrow> (resource_name \<Rightarrow> 'q \<Rightarrow> ('q \<times> string) option) \<Rightarrow> resource_name \<times> 'q \<Rightarrow> string list" where
  "reasons_of Q f rh = (case f (fst rh) (snd rh) of None \<Rightarrow> [] | Some (q, d) \<Rightarrow> [describe Q (fst rh) (snd rh) q d])"

lemma candidates_reasons:
  "growReasons (candidatesOf Q inp) = concat (map (reasons_of Q (key_grow Q inp)) (Hard inp))"
  "shrinkReasons (candidatesOf Q inp) = concat (map (reasons_of Q (key_shrink Q inp)) (Hard inp))"
proof -
  have "growReasons (fold (decide_key Q inp) hs c) = growReasons c @ concat (map (reasons_of Q (key_grow Q inp)) hs)
      \<and> shrinkReasons (fold (decide_key Q inp) hs c) = shrinkReasons c @ concat (map (reasons_of Q (key_shrink Q inp)) hs)" for hs c
    by (induction hs arbitrary: c) (auto simp: decide_key_eq reasons_of_def split: option.split)
  then show "growReasons (candidatesOf Q inp) = concat (map (reasons_of Q (key_grow Q inp)) (Hard inp))"
    "shrinkReasons (candidatesOf Q inp) = concat (map (reasons_of Q (key_shrink Q inp)) (Hard inp))"
    by (simp_all add: candidatesOf_def)
qed

lemma sort_concat_perm:
  fixes f :: "'a \<Rightarrow> string list"
  assumes "mset xs = mset ys"
  shows "sort (concat (map f xs)) = sort (concat (map f ys))"
proof (rule properties_for_sort)
  have "mset (concat (map f xs)) = (\<Sum>x\<in>#mset xs. mset (f x))" for xs
    by (induction xs) auto
  then show "mset (sort (concat (map f ys))) = mset (concat (map f xs))" using assms by simp
qed simp

lemma perm_Hard:
  assumes "distinct (map fst (Hard inp))" and "mset hs = mset (Hard inp)"
  shows "distinct (map fst hs)" and "map_of hs = map_of (Hard inp)"
proof -
  have "mset (map fst hs) = mset (map fst (Hard inp))" using assms(2) by simp
  then show d: "distinct (map fst hs)" using assms(1) mset_eq_imp_distinct_iff by blast
  show "map_of hs = map_of (Hard inp)"
    using map_of_inject_set [OF d assms(1)] mset_eq_setD [OF assms(2)] by blast
qed

lemma candidates_perm:
  fixes Q :: "'q resource_api"
  assumes "distinct (map fst (Hard inp))" and "mset hs = mset (Hard inp)"
  defines "c \<equiv> candidatesOf Q (inp\<lparr>Hard := hs\<rparr>)" and "c' \<equiv> candidatesOf Q inp"
  shows "map_of (growTargets c) = map_of (growTargets c')" "map_of (shrinkTargets c) = map_of (shrinkTargets c')"
    "map_of (rawTargets c) = map_of (rawTargets c')"
    and "sort (growReasons c) = sort (growReasons c')" "sort (shrinkReasons c) = sort (shrinkReasons c')"
proof -
  note p = perm_Hard [OF assms(1,2)]
  have d: "distinct (map fst (Hard (inp\<lparr>Hard := hs\<rparr>)))" using p(1) by simp
  have m: "map_of (Hard (inp\<lparr>Hard := hs\<rparr>)) = map_of (Hard inp)" using p(2) by simp
  show "map_of (growTargets c) = map_of (growTargets c')" "map_of (shrinkTargets c) = map_of (shrinkTargets c')"
    "map_of (rawTargets c) = map_of (rawTargets c')"
    unfolding c_def c'_def fun_eq_iff candidates_lookup [OF d] candidates_lookup [OF assms(1)] m key_Hard by simp_all
  show "sort (growReasons c) = sort (growReasons c')" "sort (shrinkReasons c) = sort (shrinkReasons c')"
    unfolding c_def c'_def candidates_reasons key_Hard
    using sort_concat_perm [OF assms(2)] by simp_all
qed

lemma Decide_perm:
  assumes "map_of (growTargets c) = map_of (growTargets c')" "map_of (shrinkTargets c) = map_of (shrinkTargets c')"
    "map_of (rawTargets c) = map_of (rawTargets c')"
    and "sort (growReasons c) = sort (growReasons c')" "sort (shrinkReasons c) = sort (shrinkReasons c')"
    and "distinct (map fst (shrinkTargets c))" "distinct (map fst (shrinkTargets c'))"
  shows "growTargets c = [] \<longleftrightarrow> growTargets c' = []" "shrinkTargets c = [] \<longleftrightarrow> shrinkTargets c' = []"
    and "shrinkGates Q (inp\<lparr>Hard := hs\<rparr>) (shrinkTargets c) = shrinkGates Q inp (shrinkTargets c')"
proof -
  show "growTargets c = [] \<longleftrightarrow> growTargets c' = []" "shrinkTargets c = [] \<longleftrightarrow> shrinkTargets c' = []"
    using assms(1,2) map_of_eq_empty_iff by metis+
  have "set (shrinkTargets c) = set (shrinkTargets c')"
    using assms(2) map_of_inject_set [OF assms(6,7)] by blast
  then show "shrinkGates Q (inp\<lparr>Hard := hs\<rparr>) (shrinkTargets c) = shrinkGates Q inp (shrinkTargets c')"
    by (simp add: shrinkGates_def list_ex_iff)
qed

text \<open>
  (C30) The decision does not depend on the order in which the maps are
  visited: for every two orders of the hard limits the direction, the reason text and the
  blocking gates are the same and the targets, the preview and the raw targets are the same maps.
\<close>

theorem Decide_order_independent:
  assumes "distinct (map fst (Hard inp))" and "mset hs = mset (Hard inp)"
  shows "Direction_of (Decide Q (inp\<lparr>Hard := hs\<rparr>)) = Direction_of (Decide Q inp)
    \<and> Reason (Decide Q (inp\<lparr>Hard := hs\<rparr>)) = Reason (Decide Q inp)
    \<and> BlockedBy (Decide Q (inp\<lparr>Hard := hs\<rparr>)) = BlockedBy (Decide Q inp)
    \<and> map_of (Targets (Decide Q (inp\<lparr>Hard := hs\<rparr>))) = map_of (Targets (Decide Q inp))
    \<and> map_of (ShrinkPreview (Decide Q (inp\<lparr>Hard := hs\<rparr>))) = map_of (ShrinkPreview (Decide Q inp))
    \<and> map_of (RawTargets (Decide Q (inp\<lparr>Hard := hs\<rparr>))) = map_of (RawTargets (Decide Q inp))"
proof (intro conjI)
  let ?i = "inp\<lparr>Hard := hs\<rparr>"
  note l = candidates_perm [OF assms, of Q]
  note n = Decide_perm [OF l candidates_distinct(2) candidates_distinct(2)]
  have e: "Policy_in ?i = Policy_in inp" by simp
  show "Direction_of (Decide Q ?i) = Direction_of (Decide Q inp)"
    unfolding Decide_def Let_def e n by (simp add: noDecision_def)
  show "Reason (Decide Q ?i) = Reason (Decide Q inp)"
    unfolding Decide_def Let_def e n l(4,5) by (simp add: noDecision_def)
  show "BlockedBy (Decide Q ?i) = BlockedBy (Decide Q inp)"
    unfolding Decide_def Let_def e n by (simp add: noDecision_def)
  show "map_of (Targets (Decide Q ?i)) = map_of (Targets (Decide Q inp))"
    unfolding Decide_def Let_def e n by (simp add: noDecision_def l(1,2))
  show "map_of (ShrinkPreview (Decide Q ?i)) = map_of (ShrinkPreview (Decide Q inp))"
    unfolding Decide_def Let_def e n by (simp add: noDecision_def l(2))
  show "map_of (RawTargets (Decide Q ?i)) = map_of (RawTargets (Decide Q inp))"
    unfolding Decide_def Let_def e n by (simp add: noDecision_def l(3))
qed

section \<open>The step of a shrink\<close>

lemma rnd_lower:
  assumes "0 \<le> y" and "y \<le> 2 ^ k"
  shows "y - 2 ^ k / 2 ^ 53 \<le> rnd y"
proof (cases "2 powi (- 1022) \<le> y")
  case True
  then have "\<bar>rnd y - y\<bar> \<le> y * 2 powi (- 53)" using rnd_relative_error [of y] assms(1) by simp
  also have "\<dots> \<le> 2 ^ k * 2 powi (- 53)" using assms by (intro mult_right_mono) auto
  also have "2 ^ k * 2 powi (- 53) = (2::real) ^ k / 2 ^ 53" by (simp add: powi2_neg_nat)
  finally show ?thesis by linarith
next
  case False
  have "(2::real) powi (- 1022) \<le> 2 powi (- 53)" by (intro powi2_mono) simp
  also have "\<dots> \<le> 2 ^ k / 2 ^ 53" by (simp add: powi2_neg_nat divide_right_mono)
  finally show ?thesis using False rnd_nonneg [OF assms(1)] by linarith
qed

lemma f64_sub_one:
  assumes "f64_is f s" and "0 \<le> s" and "s \<le> 1"
  shows "f64_is (f_sub f_one f) (rnd (1 - s))" "0 \<le> rnd (1 - s)" "rnd (1 - s) \<le> 1"
proof -
  have b: "\<bar>rnd (1 - s)\<bar> \<le> 2 ^ 0" using assms by (intro rnd_abs_bound) simp
  have big: "(2::real) ^ 0 < 2 ^ 1024" by (intro power_strict_increasing) simp_all
  show "f64_is (f_sub f_one f) (rnd (1 - s))" using assms(1) b big by (intro f64_is_sub) (simp_all add: le_less_trans)
  show "0 \<le> rnd (1 - s)" "rnd (1 - s) \<le> 1" using b assms by (auto intro: rnd_nonneg)
qed

lemma capped_milli_bounds:
  assumes "f64_is (MaxShrinkStep (Policy_in inp)) s" and "0 \<le> s" and "s \<le> 1" and "0 \<le> m" and "m < 2 ^ 53"
  shows "0 \<le> capped_milli Q inp m" "capped_milli Q inp m \<le> m" "(1 - s) * of_int m - 3 \<le> of_int (capped_milli Q inp m)"
proof -
  let ?c = "rnd (1 - s)"
  note c = f64_sub_one [OF assms(1-3)]
  have m': "0 \<le> (of_int m :: real)" "(of_int m :: real) \<le> 2 ^ 53"
  proof -
    have "(of_int m :: real) \<le> of_int (2 ^ 53)" using assms(5) by (simp only: of_int_le_iff)
    then show "(of_int m :: real) \<le> 2 ^ 53" by simp
  qed (use assms(4) in simp)
  have fm: "f64_is (f_of_int m) (of_int m)" using assms by (intro f64_is_small_int) simp_all
  have mc: "0 \<le> of_int m * ?c" "of_int m * ?c \<le> of_int m" using m' c by (auto simp: mult_le_cancel_left2)
  have r: "0 \<le> rnd (of_int m * ?c)" "rnd (of_int m * ?c) \<le> of_int m"
    using mc rnd_nonneg [OF mc(1)] rnd_mono [OF mc(2)] rnd_of_int [of m] assms(4,5) by simp_all
  have "(2::real) ^ 53 < 2 ^ 63" "(2::real) ^ 53 < 2 ^ 1024" by (intro power_strict_increasing; simp)+
  then have fc: "capped_milli Q inp m = \<lfloor>rnd (of_int m * ?c)\<rfloor>"
    unfolding capped_milli_def using r m' by (intro f_to_int64_floor f64_is_mul fm c(1)) auto
  show "0 \<le> capped_milli Q inp m" "capped_milli Q inp m \<le> m" unfolding fc using r by (auto simp: floor_le_iff)
  have "(1 - s) - 1 / 2 ^ 53 \<le> ?c" using rnd_lower [of "1 - s" 0] assms(2,3) by simp
  then have "of_int m * ((1 - s) - 1 / 2 ^ 53) \<le> of_int m * ?c" using m'(1) by (rule mult_left_mono)
  then have "(1 - s) * of_int m - of_int m / 2 ^ 53 \<le> of_int m * ?c" by (simp add: algebra_simps)
  moreover have "(of_int m :: real) / 2 ^ 53 \<le> 1" using m'(2) by simp
  moreover have "of_int m * ?c - 1 \<le> rnd (of_int m * ?c)"
    using rnd_lower [of "of_int m * ?c" 53] mc m'(2) by simp
  moreover have "rnd (of_int m * ?c) - 1 \<le> of_int (capped_milli Q inp m)" unfolding fc by linarith
  ultimately show "(1 - s) * of_int m - 3 \<le> of_int (capped_milli Q inp m)" by linarith
qed

text \<open>
  (C13) One shrink takes at most the configured step: no target of a shrink is
  more than three milli-units below \<open>(1 - s)\<close> times the hard limit, where \<open>s\<close> is the largest step.
\<close>

theorem Shrink_step_bounded:
  assumes "quantity_laws Q val" and "distinct (map fst (Hard inp))"
    and "Direction_of (Decide Q inp) = DirectionShrink" and "(res, t) \<in> set (Targets (Decide Q inp))"
    and "map_of (Hard inp) res = Some hard" and "MilliValue Q hard < 2 ^ 53"
    and "f64_is (MaxShrinkStep (Policy_in inp)) s" and "0 \<le> s" and "s \<le> 1"
  shows "(1 - s) * of_int (MilliValue Q hard) - 3 \<le> 1000 * val t"
proof -
  obtain target driver m where k: "key_target Q inp res hard = Some (target, driver)"
    "m = target \<or> m = capped_milli Q inp (MilliValue Q hard)" "t = Quantize Q res m (Format Q hard)"
    "capped_milli Q inp (MilliValue Q hard) \<le> m"
    using Decide_target [OF assms(2,4)] assms(3,5) by (metis Direction.distinct(5) option.inject)
  have "\<not> overflowsMilliValue Q hard" using k(1) by (auto simp: key_target_def split: if_splits)
  note b = quantity_laws.milli_bounds [OF assms(1) quantity_laws.not_overflows [OF assms(1) this]]
  note c = capped_milli_bounds [OF assms(7,8,9) b(1) assms(6), of Q]
  have "in64 m"
    using k(1,2) quantity_laws.in64_targetFor [OF assms(1) quantity_laws.milli_in64 [OF assms(1)]]
      quantity_laws.in64_to_int64 [OF assms(1)]
    by (auto simp: key_target_def capped_milli_def split: if_splits option.splits) (metis fst_conv)
  then have "m \<le> int64_max" by (simp add: in64_def)
  from quantity_laws.val_Quantize_mono [OF assms(1) c(1) k(4) this]
  have "val (Quantize Q res (capped_milli Q inp (MilliValue Q hard)) (Format Q hard)) \<le> val t" unfolding k(3) .
  moreover have "capped_milli Q inp (MilliValue Q hard) < 2 ^ 53" using c(2) assms(6) by linarith
  from quantity_laws.val_Quantize_ge [OF assms(1) c(1) this]
  have "of_int (capped_milli Q inp (MilliValue Q hard)) / 1000
      \<le> val (Quantize Q res (capped_milli Q inp (MilliValue Q hard)) (Format Q hard))" .
  ultimately show ?thesis using c(3) by linarith
qed

section \<open>Settling\<close>

lemma not_above_band:
  assumes "f64_is (Tolerance (Policy_in inp)) tol" and "0 \<le> tol" and "tol \<le> 1"
    and "t \<le> h" and "0 \<le> h" and "in64 h" and "in64 t" and "t < 2 ^ 53"
  shows "\<not> above_band inp h t"
proof -
  let ?c = "rnd (1 + tol)"
  have "\<bar>1 + tol\<bar> \<le> 2 ^ 1" using assms(2,3) by simp
  from rnd_abs_bound [OF this] b64.r_ge_1 [of "1 + tol"] assms(2) have c: "1 \<le> ?c" "\<bar>?c\<bar> \<le> 2 ^ 1" by simp_all
  have big: "(2::real) ^ 1 < 2 ^ 1024" "(2::real) ^ 64 < 2 ^ 1024" by (intro power_strict_increasing; simp)+
  have fc: "f64_is (f_add f_one (Tolerance (Policy_in inp))) ?c"
    using assms(1) c(2) big(1) by (intro f64_is_add) (simp_all add: le_less_trans)
  have h: "f64_is (f_of_int h) (rnd (of_int h))" and t: "f64_is (f_of_int t) (rnd (of_int t))"
    using assms(6,7) by (auto intro!: f64_is_of_int simp: in64_iff)
  have "\<bar>of_int h :: real\<bar> \<le> of_int (2 ^ 63)" using assms(5,6) unfolding in64_iff by (simp only: of_int_abs [symmetric] of_int_le_iff) simp
  then have "\<bar>rnd (of_int h)\<bar> \<le> 2 ^ 63" by (intro rnd_abs_bound) simp
  moreover have h0: "0 \<le> rnd (of_int h)" using assms(5) by (intro rnd_nonneg) simp
  ultimately have "rnd (of_int h) * ?c \<le> 2 ^ 63 * 2 ^ 1" using c by (intro mult_mono) auto
  then have "\<bar>rnd (of_int h) * ?c\<bar> \<le> 2 ^ 64" using h0 c by simp
  from rnd_abs_bound [OF this] big(2) have p: "f64_is (f_mul (f_of_int h) (f_add f_one (Tolerance (Policy_in inp)))) (rnd (rnd (of_int h) * ?c))"
    by (intro f64_is_mul h fc) simp
  have "rnd (of_int t) \<le> rnd (rnd (of_int h) * ?c)"
  proof (cases "0 \<le> t")
    case True
    have "rnd (of_int t) \<le> rnd (of_int h)" using assms(4) by (intro rnd_mono) simp
    also have "\<dots> \<le> rnd (of_int h) * ?c" using h0 c by (simp add: mult_le_cancel_left1)
    finally have "rnd (rnd (of_int t)) \<le> rnd (rnd (of_int h) * ?c)" by (rule rnd_mono)
    then show ?thesis using True assms(8) rnd_of_int [of t] by simp
  next
    case False
    then have "rnd (of_int t) \<le> rnd 0" by (intro rnd_mono) simp
    also have "\<dots> \<le> rnd (rnd (of_int h) * ?c)" using h0 c by (intro rnd_mono) simp
    finally show ?thesis .
  qed
  then show ?thesis unfolding above_band_def f64_is_less [OF p t] by simp
qed

lemma Decide_grow_key:
  assumes "distinct (map fst (Hard inp))" and "Direction_of (Decide Q inp) = DirectionGrow"
  shows "\<exists>(r, h) \<in> set (Hard inp). key_grow Q inp r h \<noteq> None"
  using assms(2) unfolding candidates_nonempty(1) [OF assms(1), symmetric]
  by (auto simp: Decide_def noDecision_def Let_def split: if_splits)

lemma Decide_grow_targets:
  assumes "distinct (map fst (Hard inp))" and "Direction_of (Decide Q inp) \<noteq> DirectionNone"
    and "(r, h) \<in> set (Hard inp)" and "key_grow Q inp r h \<noteq> None"
  shows "Direction_of (Decide Q inp) = DirectionGrow" and "map_of (Targets (Decide Q inp)) r \<noteq> None"
proof -
  have h: "map_of (Hard inp) r = Some h" using assms(1,3) by simp
  then have m: "map_of (growTargets (candidatesOf Q inp)) r \<noteq> None"
    using assms(4) by (auto simp: candidates_lookup [OF assms(1)])
  then have n: "growTargets (candidatesOf Q inp) \<noteq> []" by auto
  show "Direction_of (Decide Q inp) = DirectionGrow"
    using assms(2) n by (auto simp: Decide_def noDecision_def Let_def split: if_splits)
  show "map_of (Targets (Decide Q inp)) r \<noteq> None"
    using assms(2) n m by (auto simp: Decide_def noDecision_def Let_def split: if_splits)
qed

lemma key_target_same:
  "key_target Q inp res h = Some (t, d) \<Longrightarrow> key_target Q inp res h' = Some (t', d') \<Longrightarrow> t' = t \<and> d' = d"
  by (auto simp: key_target_def split: if_splits option.splits)

lemma key_target_facts:
  assumes "quantity_laws Q val" and "key_target Q inp res h = Some (t, d)"
  shows "in64 t" and "\<not> overflowsMilliValue Q h" and "0 \<le> MilliValue Q h" and "in64 (MilliValue Q h)"
proof -
  show o: "\<not> overflowsMilliValue Q h" using assms(2) by (auto simp: key_target_def split: if_splits)
  show "0 \<le> MilliValue Q h"
    using quantity_laws.milli_bounds(1) [OF assms(1) quantity_laws.not_overflows [OF assms(1) o]] .
  show "in64 (MilliValue Q h)" by (rule quantity_laws.milli_in64 [OF assms(1)])
  obtain u where "targetFor Q inp res (MilliValue Q u) (HeadroomFor (Policy_in inp) res) = (t, d)"
    using assms(2) by (auto simp: key_target_def split: if_splits option.splits)
  then show "in64 t"
    using quantity_laws.in64_targetFor [OF assms(1) quantity_laws.milli_in64 [OF assms(1)], where inp = inp and res = res and h = "HeadroomFor (Policy_in inp) res"]
    by (metis fst_conv)
qed

lemma applied_key_settles:
  assumes "quantity_laws Q val" and "key_target Q inp res h = Some (t, d)" and "t < 2 ^ 53" and "t \<le> m" and "in64 m"
    and tol: "f64_is (Tolerance (Policy_in inp)) tol" "0 \<le> tol" "tol \<le> 1"
  shows "key_grow Q inp res (Quantize Q res m f) = None"
proof (cases "key_target Q inp res (Quantize Q res m f)")
  case (Some td)
  then have k: "key_target Q inp res (Quantize Q res m f) = Some (t, d)"
    using key_target_same [OF assms(2)] by (cases td) auto
  note n = key_target_facts [OF assms(1) k]
  note v = quantity_laws.not_overflows [OF assms(1) n(2)]
  have "t \<le> MilliValue Q (Quantize Q res m f)"
  proof (cases "0 \<le> t")
    case True
    have m: "m \<le> int64_max" using assms(5) by (simp add: in64_def)
    have "of_int t / 1000 \<le> val (Quantize Q res t f)" by (rule quantity_laws.val_Quantize_ge [OF assms(1) True assms(3)])
    also have "\<dots> \<le> val (Quantize Q res m f)" by (rule quantity_laws.val_Quantize_mono [OF assms(1) True assms(4) m])
    finally have "of_int t \<le> 1000 * val (Quantize Q res m f)" by simp
    then show ?thesis unfolding quantity_laws.milli_ceil [OF assms(1) v] by (metis ceiling_mono ceiling_of_int)
  qed (use n(3) in simp)
  from not_above_band [OF tol this n(3,4,1) assms(3)] show ?thesis
    by (simp add: key_grow_def k)
qed (simp add: key_grow_def)

definition apply_targets :: "'q smap \<Rightarrow> 'q resource_list \<Rightarrow> 'q resource_list" where
  "apply_targets ts = map (\<lambda>(r, h). (r, case map_of ts r of Some t \<Rightarrow> t | None \<Rightarrow> h))"

text \<open>
  (C17) Decisions do not flap: once the targets of a grow or a shrink are
  applied, the same demand does not ask for a growth, for any number of keys.
\<close>

theorem applied_decision_settles:
  assumes "quantity_laws Q val" and "distinct (map fst (Hard inp))"
    and "Direction_of (Decide Q inp) \<noteq> DirectionNone"
    and "f64_is (Tolerance (Policy_in inp)) tol" and "0 \<le> tol" and "tol \<le> 1"
    and "\<forall>(r, h) \<in> set (Hard inp). \<forall>t d. key_target Q inp r h = Some (t, d) \<longrightarrow> t < 2 ^ 53"
    and "inp' = inp\<lparr>Hard := apply_targets (Targets (Decide Q inp)) (Hard inp)\<rparr>"
  shows "Direction_of (Decide Q inp') \<noteq> DirectionGrow"
proof
  let ?ts = "Targets (Decide Q inp)"
  have d: "distinct (map fst (Hard inp'))" using assms(2) by (simp add: assms(8) apply_targets_def comp_def case_prod_beta)
  assume "Direction_of (Decide Q inp') = DirectionGrow"
  from Decide_grow_key [OF d this] obtain r h' where r: "(r, h') \<in> set (Hard inp')" "key_grow Q inp' r h' \<noteq> None"
    by blast
  then obtain h where rh: "(r, h) \<in> set (Hard inp)" and h': "h' = (case map_of ?ts r of Some t \<Rightarrow> t | None \<Rightarrow> h)"
    by (auto simp: assms(8) apply_targets_def)
  have g: "key_grow Q inp r (case map_of ?ts r of Some t \<Rightarrow> t | None \<Rightarrow> h) \<noteq> None"
    using r(2) unfolding assms(8) key_Hard h' .
  show False
  proof (cases "map_of ?ts r")
    case None
    then have "key_grow Q inp r h \<noteq> None" using g by simp
    with rh have "Direction_of (Decide Q inp) = DirectionGrow" "map_of ?ts r \<noteq> None"
      using Decide_grow_targets [OF assms(2)] assms(3) by blast+
    with None show False by simp
  next
    case (Some t)
    then have "(r, t) \<in> set ?ts" by (rule map_of_SomeD)
    then obtain hard target driver m where k: "map_of (Hard inp) r = Some hard"
      "key_target Q inp r hard = Some (target, driver)" "target \<le> m"
      "m = target \<or> m = capped_milli Q inp (MilliValue Q hard)" "t = Quantize Q r m (Format Q hard)"
      using Decide_target [OF assms(2)] by metis
    have "in64 m" using k(4) key_target_facts(1) [OF assms(1) k(2)] quantity_laws.in64_to_int64 [OF assms(1)]
      by (auto simp: capped_milli_def)
    moreover have "target < 2 ^ 53" using assms(7) k(1,2) map_of_SomeD [OF k(1)] by blast
    ultimately have "key_grow Q inp r t = None"
      unfolding k(5) by (intro applied_key_settles [OF assms(1) k(2) _ k(3) _ assms(4-6)])
    with g Some show False by simp
  qed
qed

section \<open>Witnesses\<close>

text \<open>
  A quota of one key, seen on the third day of the epoch with a window of one covered day.
\<close>

definition sample_bucket_day :: DayBucket where
  "sample_bucket_day = \<lparr>Date = format_day 1, N_samples = 24, First = ''00:00'', Last = ''23:59'', MaxGap = '''',
     Peaks = [(''pods'', ''1'')]\<rparr>"

definition sample_input :: "float64 \<Rightarrow> int \<Rightarrow> int \<Rightarrow> nano Input" where
  "sample_input headroom hard used = \<lparr>Now = 2 * day, Hard = [(''pods'', (hard * 10 ^ 9, DecimalSI))],
     Used = [(''pods'', (used * 10 ^ 9, DecimalSI))], Deficits = [],
     InWindow = emptyWindow\<lparr>Days := [sample_bucket_day]\<rparr>,
     Policy_in = DefaultPolicy\<lparr>Headroom := [(DefaultKey, headroom)], WindowDays := 1\<rparr>,
     LastGrow = zero_time, LastShrink = zero_time\<rparr>"

lemma sample_fields [simp]:
  "Now (sample_input x h u) = 2 * day" "Hard (sample_input x h u) = [(''pods'', (h * 10 ^ 9, DecimalSI))]"
  "Used (sample_input x h u) = [(''pods'', (u * 10 ^ 9, DecimalSI))]" "Deficits (sample_input x h u) = []"
  "LastGrow (sample_input x h u) = zero_time" "LastShrink (sample_input x h u) = zero_time"
  "WindowDays (Policy_in (sample_input x h u)) = 1" "Enabled (Policy_in (sample_input x h u))"
  "ShrinkEnabled (Policy_in (sample_input x h u))" "Tolerance (Policy_in (sample_input x h u)) = round64 15 100"
  "MaxShrinkStep (Policy_in (sample_input x h u)) = round64 25 100"
  "HeadroomFor (Policy_in (sample_input x h u)) ''pods'' = x" "MinFor (Policy_in (sample_input x h u)) ''pods'' = None"
  by (simp_all add: sample_input_def DefaultPolicy_def HeadroomFor_def MinFor_def resourceFamily_def DefaultKey_def go_eval)

lemma sample_complete: "IsComplete nano_api (InWindow (sample_input x h u)) ''pods'' (2 * day) 1"
proof -
  have p: "nano_parse ''1'' \<noteq> None" by (simp add: go_eval)
  have d: "format_date (AddDate (2 * day) (- 1)) = format_day 1" by (simp add: format_date_def day_number_examples)
  show ?thesis using covered_example p
    by (simp add: IsComplete_def day_complete_def byDate_def d sample_input_def sample_bucket_day_def)
qed

lemma nano_overflows: "overflowsMilliValue nano_api q \<longleftrightarrow> 9223372036854775000000000 < fst q \<or> fst q < 0"
  by (simp add: overflowsMilliValue_def maxMilliRepresentable_def maxMilliValue_def int64_max_def)

lemmas nano_eval = nano_overflows wrap64_id in64_iff

lemma sample_peak: "Peak nano_api (InWindow (sample_input x h u)) ''pods'' (2 * day) 1 = Some 1000"
proof -
  have p: "nano_parse ''1'' = Some (10 ^ 9, DecimalSI)" by (simp add: go_eval)
  have d: "format_date (AddDate (2 * day) (- 1)) = format_day 1" "format_date (2 * day) = format_day 2"
    by (simp_all add: format_date_def day_number_examples)
  have "format_day 1 < format_day 2" using format_day_less_iff [OF four_digit_examples(2,3)] by simp
  then show ?thesis
    unfolding Peak_def Let_def d by (simp add: peak_step_def sample_input_def sample_bucket_day_def p nano_eval flip: not_less)
qed

lemma sample_scaled:
  "scaled nano_api 4000 (round64 25 100) = 5000" "scaled nano_api 1000 (round64 25 100) = 1250"
  "scaled nano_api 4000 PosInf = int64_min"
  by (simp_all add: scaled_def f64_eval in64_iff)

lemma sample_target:
  "key_target nano_api (sample_input (round64 25 100) 4 4) ''pods'' (4 * 10 ^ 9, f) = Some (5000, ''current usage'')"
  "key_target nano_api (sample_input (round64 25 100) 10 1) ''pods'' (10 * 10 ^ 9, f) = Some (1250, ''current usage'')"
  "key_target nano_api (sample_input PosInf 4 4) ''pods'' (4 * 10 ^ 9, f) = Some (int64_min, ''current usage'')"
  by (simp_all add: key_target_def targetFor_def sample_peak sample_scaled nano_eval)

lemma sample_grow: "Direction_of (Decide nano_api (sample_input (round64 25 100) 4 4)) = DirectionGrow"
  "Targets (Decide nano_api (sample_input (round64 25 100) 4 4)) = [(''pods'', (5 * 10 ^ 9, DecimalSI))]"
proof -
  let ?i = "sample_input (round64 25 100) 4 4"
  have q: "Quantize nano_api ''pods'' 5000 DecimalSI = (5 * 10 ^ 9, DecimalSI)"
    by (simp add: Quantize_def go_eval) (simp add: f64_eval in64_iff)
  have "above_band ?i 4000 5000" by (simp add: above_band_def f64_eval)
  then have "key_grow nano_api ?i ''pods'' (4 * 10 ^ 9, DecimalSI) = Some ((5 * 10 ^ 9, DecimalSI), ''current usage'')"
    using sample_target(1) q by (simp add: key_grow_def nano_eval)
  then show "Direction_of (Decide nano_api ?i) = DirectionGrow" "Targets (Decide nano_api ?i) = [(''pods'', (5 * 10 ^ 9, DecimalSI))]"
    by (simp_all add: Decide_def candidatesOf_def decide_key_eq noDecision_def)
qed

lemma sample_shrink_key:
  assumes "key_target nano_api i ''pods'' (h * 10 ^ 9, DecimalSI) = Some (t, d)"
    and "i = sample_input x h u" and "\<not> above_band i (h * 1000) t" and "below_band i (h * 1000) t"
    and "capped_milli nano_api i (h * 1000) = c" and "t < c" and "Quantize nano_api ''pods'' c DecimalSI = (k * 10 ^ 9, DecimalSI)"
    and "k < h" and "MilliValue nano_api (h * 10 ^ 9, DecimalSI) = h * 1000"
  shows "Direction_of (Decide nano_api i) = DirectionShrink" "Targets (Decide nano_api i) = [(''pods'', (k * 10 ^ 9, DecimalSI))]"
proof -
  have s: "key_shrink nano_api i ''pods'' (h * 10 ^ 9, DecimalSI) = Some ((k * 10 ^ 9, DecimalSI), ''step cap'')"
    using assms by (simp add: key_shrink_def)
  have g: "key_grow nano_api i ''pods'' (h * 10 ^ 9, DecimalSI) = None"
    using assms by (simp add: key_grow_def)
  have w: "shrinkGates nano_api i [(''pods'', (k * 10 ^ 9, DecimalSI))] = []"
    unfolding shrinkGates_empty using sample_complete assms(2) by (simp add: IsZero_def)
  show "Direction_of (Decide nano_api i) = DirectionShrink" "Targets (Decide nano_api i) = [(''pods'', (k * 10 ^ 9, DecimalSI))]"
    using s g w assms(2) by (simp_all add: Decide_def candidatesOf_def decide_key_eq noDecision_def)
qed

lemma sample_shrink:
  "Direction_of (Decide nano_api (sample_input (round64 25 100) 10 1)) = DirectionShrink"
  "Targets (Decide nano_api (sample_input (round64 25 100) 10 1)) = [(''pods'', (8 * 10 ^ 9, DecimalSI))]"
proof -
  let ?i = "sample_input (round64 25 100) 10 1"
  have q: "Quantize nano_api ''pods'' 7500 DecimalSI = (8 * 10 ^ 9, DecimalSI)"
    by (simp add: Quantize_def go_eval) (simp add: f64_eval in64_iff)
  have "\<not> above_band ?i (10 * 1000) 1250" "below_band ?i (10 * 1000) 1250" "capped_milli nano_api ?i (10 * 1000) = 7500"
    by (simp_all add: above_band_def below_band_def capped_milli_def f64_eval in64_iff)
  from sample_shrink_key [OF sample_target(2) refl this _ q] show "Direction_of (Decide nano_api ?i) = DirectionShrink"
    "Targets (Decide nano_api ?i) = [(''pods'', (8 * 10 ^ 9, DecimalSI))]"
    by (simp_all add: nano_eval)
qed

text \<open>
  Without the bound on the headroom the guarantee fails. The
  annotation value \<^verbatim>\<open>Inf\<close> is an accepted headroom, the conversion of the infinite target to
  \<^verbatim>\<open>int64\<close> is out of range, and on a platform that converts it to the least integer a quota of four
  pods that are all in use is shrunk to three.
\<close>

theorem infinite_headroom_shrinks_below_usage:
  "parseFraction ''Inf'' = Some PosInf \<and> f_le f_zero PosInf
   \<and> Direction_of (Decide nano_api (sample_input PosInf 4 4)) = DirectionShrink
   \<and> (\<exists>t. (''pods'', t) \<in> set (Targets (Decide nano_api (sample_input PosInf 4 4)))
        \<and> nano_val t < nano_val (4 * 10 ^ 9, DecimalSI) \<and> map_of (Used (sample_input PosInf 4 4)) ''pods'' = Some (4 * 10 ^ 9, DecimalSI))"
proof -
  let ?i = "sample_input PosInf 4 4"
  have p: "parseFraction ''Inf'' = Some PosInf" by (simp add: parseFraction_def parse_float_eval go_eval Let_def)
  have q: "Quantize nano_api ''pods'' 3000 DecimalSI = (3 * 10 ^ 9, DecimalSI)"
    by (simp add: Quantize_def go_eval) (simp add: f64_eval in64_iff)
  have "\<not> above_band ?i (4 * 1000) int64_min" "below_band ?i (4 * 1000) int64_min" "capped_milli nano_api ?i (4 * 1000) = 3000"
    by (simp_all add: above_band_def below_band_def capped_milli_def int64_min_def f64_eval in64_iff)
  from sample_shrink_key [OF sample_target(3) refl this _ q] have "Direction_of (Decide nano_api ?i) = DirectionShrink"
    "Targets (Decide nano_api ?i) = [(''pods'', (3 * 10 ^ 9, DecimalSI))]"
    by (simp_all add: nano_eval int64_min_def)
  then show ?thesis using p by (simp add: nano_val_def)
qed

lemma sample_f64: "moderate (round64 25 100)" "f64_is (round64 25 100) (1 / 4)"
  "\<exists>tol. f64_is (round64 15 100) tol \<and> 0 \<le> tol \<and> tol \<le> 1"
proof -
  show "\<exists>tol. f64_is (round64 15 100) tol \<and> 0 \<le> tol \<and> tol \<le> 1"
    by (rule exI [of _ "5404319552844595 / 36028797018963968"]) (simp add: f64_eval)
qed (simp_all add: moderate_def f64_eval)

theorem Decide_direction_witness:
  "(\<exists>(r, h) \<in> set (Hard (sample_input (round64 25 100) 4 4)). key_grow nano_api (sample_input (round64 25 100) 4 4) r h \<noteq> None)
   \<and> \<not> (\<exists>(r, h) \<in> set (Hard (sample_input (round64 25 100) 10 1)). key_grow nano_api (sample_input (round64 25 100) 10 1) r h \<noteq> None)"
  using Decide_direction [of "sample_input (round64 25 100) 4 4" nano_api] sample_grow(1)
    Decide_direction [of "sample_input (round64 25 100) 10 1" nano_api] sample_shrink(1)
  by simp

theorem Decide_consistent_witness:
  "(\<exists>h. map_of (Hard (sample_input (round64 25 100) 10 1)) ''pods'' = Some h \<and> Cmp nano_api (8 * 10 ^ 9, DecimalSI) h < 0)
   \<and> Targets (Decide nano_api (sample_input (round64 25 100) 4 4)) \<noteq> []"
  using Decide_consistent [of "sample_input (round64 25 100) 10 1" nano_api] sample_shrink
    Decide_consistent [of "sample_input (round64 25 100) 4 4" nano_api] sample_grow
  by simp

theorem Decide_order_independent_witness:
  "Reason (Decide nano_api ((sample_input (round64 25 100) 4 4)\<lparr>Hard :=
       [(''services'', (7 * 10 ^ 9, DecimalSI)), (''pods'', (4 * 10 ^ 9, DecimalSI))]\<rparr>))
   = Reason (Decide nano_api ((sample_input (round64 25 100) 4 4)\<lparr>Hard :=
       [(''pods'', (4 * 10 ^ 9, DecimalSI)), (''services'', (7 * 10 ^ 9, DecimalSI))]\<rparr>))"
  using Decide_order_independent [of "(sample_input (round64 25 100) 4 4)\<lparr>Hard :=
       [(''pods'', (4 * 10 ^ 9, DecimalSI)), (''services'', (7 * 10 ^ 9, DecimalSI))]\<rparr>"
       "[(''services'', (7 * 10 ^ 9, DecimalSI)), (''pods'', (4 * 10 ^ 9, DecimalSI))]" nano_api]
  by simp

theorem Shrink_step_bounded_witness:
  "(1 - 1 / 4) * 10000 - 3 \<le> 1000 * nano_val (8 * 10 ^ 9, DecimalSI)"
  using Shrink_step_bounded [OF nq.quantity_laws_axioms, of "sample_input (round64 25 100) 10 1" "''pods''"
      "(8 * 10 ^ 9, DecimalSI)" "(10 * 10 ^ 9, DecimalSI)" "1 / 4"] sample_shrink sample_f64(2)
  by (simp add: nano_eval)

theorem applied_decision_settles_witness:
  "Direction_of (Decide nano_api ((sample_input (round64 25 100) 4 4)\<lparr>Hard := [(''pods'', (5 * 10 ^ 9, DecimalSI))]\<rparr>)) \<noteq> DirectionGrow"
proof -
  obtain tol where tol: "f64_is (Tolerance (Policy_in (sample_input (round64 25 100) 4 4))) tol" "0 \<le> tol" "tol \<le> 1"
    using sample_f64(3) by auto
  have a: "apply_targets (Targets (Decide nano_api (sample_input (round64 25 100) 4 4))) (Hard (sample_input (round64 25 100) 4 4))
      = [(''pods'', (5 * 10 ^ 9, DecimalSI))]"
    by (simp add: apply_targets_def sample_grow)
  show ?thesis
    using applied_decision_settles [OF nq.quantity_laws_axioms _ _ tol _ refl] sample_grow sample_target(1) [of DecimalSI] a
    by (simp add: nano_eval)
qed

end
