(* ===== verification/Reconcile_Example.thy ===== *)
theory Reconcile_Example
  imports Decide_Safety Reconcile_Safety
begin

text \<open>
  A reconciliation run through: a quota of four pods, all in use, seen for the first time. The
  Lease and the auto-merge switch are arguments. The witnesses of the properties of
  \<^verbatim>\<open>Reconcile\<close> use it.
\<close>

definition demo_now :: time where "demo_now = 2 * day"

definition four :: nano where "four = (4 * 10 ^ 9, DecimalSI)"

definition demo_quota :: "nano ResourceQuota" where
  "demo_quota = \<lparr>Quota_Namespace = ''team'', Quota_Name = ''compute'', Quota_UID = ''u'', Spec_Hard = [],
     Status_Hard = [(''pods'', four)], Status_Used = [(''pods'', four)]\<rparr>"

definition demo_policy :: "nano policy" where
  "demo_policy = DefaultPolicy\<lparr>Headroom := [(DefaultKey, round64 25 100)]\<rparr>"

definition demo_obs :: Window where
  "demo_obs = (fst (Observe nano_api demo_now ''u'' [(''pods'', four)] 14 emptyWindow))\<lparr>LastWriteAt := format_rfc3339 demo_now\<rparr>"

text \<open>The first sample of a window opens the bucket of the day, which does not count yet.\<close>

lemma demo_obs_day: "\<exists>b. Days demo_obs = [b] \<and> Date b = format_date demo_now"
  by (simp add: demo_obs_def Observe_def claimWindow_def prune_def emptyWindow_def Let_def newBucket_def sample_bucket_def observe_gap_def
    observe_peak_def parse_rfc3339_def split: option.split prod.split)

lemma demo_no_peak: "Peak nano_api demo_obs res demo_now n = None"
  using demo_obs_day by (auto simp: Peak_def peak_step_def)

definition demo_input :: "nano Input" where
  "demo_input = \<lparr>Now = demo_now, Hard = [(''pods'', four)], Used = [(''pods'', four)],
     Deficits = [], InWindow = demo_obs, Policy_in = demo_policy, LastGrow = zero_time, LastShrink = zero_time\<rparr>"

lemma demo_grow: "Direction_of (Decide nano_api demo_input) = DirectionGrow"
  "Targets (Decide nano_api demo_input) = [(''pods'', (5 * 10 ^ 9, DecimalSI))]"
proof -
  have f: "HeadroomFor demo_policy ''pods'' = round64 25 100" "MinFor demo_policy ''pods'' = None" "Enabled demo_policy"
    "Tolerance demo_policy = round64 15 100"
    by (simp_all add: demo_policy_def DefaultPolicy_def HeadroomFor_def MinFor_def resourceFamily_def DefaultKey_def go_eval)
  have t: "key_target nano_api demo_input ''pods'' four = Some (5000, ''current usage'')"
    by (simp add: key_target_def targetFor_def demo_input_def demo_no_peak f sample_scaled nano_eval four_def)
  have q: "Quantize nano_api ''pods'' 5000 DecimalSI = (5 * 10 ^ 9, DecimalSI)"
    by (simp add: Quantize_def go_eval) (simp add: f64_eval in64_iff)
  have "above_band demo_input 4000 5000" by (simp add: above_band_def demo_input_def f f64_eval)
  then have "key_grow nano_api demo_input ''pods'' four = Some ((5 * 10 ^ 9, DecimalSI), ''current usage'')"
    using t q by (simp add: key_grow_def nano_eval four_def)
  then show "Direction_of (Decide nano_api demo_input) = DirectionGrow" "Targets (Decide nano_api demo_input) = [(''pods'', (5 * 10 ^ 9, DecimalSI))]"
    by (simp_all add: Decide_def candidatesOf_def decide_key_eq noDecision_def demo_input_def f)
qed

definition demo_lease :: "string option \<Rightarrow> string \<Rightarrow> Lease" where
  "demo_lease holder direction = (newLease ''team'' ''compute'')\<lparr>HolderIdentity := holder, Lease_Annotations := [(AnnotationPRDirection, direction)]\<rparr>"

definition demo_status :: PRStatus where
  "demo_status = \<lparr>IsOpen = True, IsMerged = False, Mergeable = True, MergeableState = ''clean'', ChecksState = '''', ChecksTotalCount = 0, CreatedAt = zero_time\<rparr>"

definition demo_client :: "Lease \<Rightarrow> nano client" where
  "demo_client l = offline\<lparr>quota_of := \<lambda>_ _ _. Inr demo_quota, namespace_of := \<lambda>_ _. Inr [], lease_of := \<lambda>_ _ _. Inr l,
     lease_updated := \<lambda>_ _. Inr (), events_of := \<lambda>_ _. Inr [], clock := \<lambda>_. demo_now, pr_status := \<lambda>_ _. Inr demo_status,
     pr_merged := \<lambda>_ _ _. Inr (), pr_created := \<lambda>_ _ _ _ _ _. Inr 9, pr_updated := \<lambda>_ _ _ _ _ _. Inr (),
     pr_found := \<lambda>_ _ _. Inr (0, ''''), pr_closed := \<lambda>_ _ _. Inr ()\<rparr>"

definition demo :: "bool \<Rightarrow> Lease \<Rightarrow> (nano, unit) Reconciler" where
  "demo merge l = \<lparr>Client = demo_client l, Retry = attempts 4, Quantities = nano_api, Codec = sample_codec,
     BasePolicy = demo_policy, EnableAutoMerge = merge\<rparr>"

lemma demo_client_simps [simp]:
  "quota_of (demo_client l) t ns q = Inr demo_quota" "namespace_of (demo_client l) t ns = Inr []" "lease_of (demo_client l) t ns q = Inr l"
  "lease_updated (demo_client l) t x = Inr ()" "events_of (demo_client l) t ns = Inr []" "clock (demo_client l) t = demo_now"
  "pr_status (demo_client l) t i = Inr demo_status" "pr_merged (demo_client l) t i m = Inr ()"
  "pr_created (demo_client l) t q ns d as ls = Inr 9" "pr_updated (demo_client l) t i q ns as ls = Inr ()"
  "pr_found (demo_client l) t ns q = Inr (0, [])" "pr_closed (demo_client l) t i r = Inr ()"
  by (simp_all add: demo_client_def)

lemma demo_simps [simp]:
  "Client (demo merge l) = demo_client l" "Retry (demo merge l) = attempts 4" "Quantities (demo merge l) = nano_api"
  "Codec (demo merge l) = sample_codec" "BasePolicy (demo merge l) = demo_policy" "EnableAutoMerge (demo merge l) = merge"
  by (simp_all add: demo_def)

definition cold :: "nano controller" where "cold = \<lparr>calls = [], cached = []\<rparr>"

lemma demo_state: "stateFromLease (demo_lease holder direction) = zeroState\<lparr>PRID := (case holder of None \<Rightarrow> 0 | Some h \<Rightarrow> (case Sscanf_pr h of Some n \<Rightarrow> n | None \<Rightarrow> 0)),
    PRDirection := direction\<rparr>"
  by (simp add: stateFromLease_def demo_lease_def newLease_def gets_def zeroState_def parseStamp_def annotation_names)

lemma demo_holder: "Sscanf_pr ''pr-7'' = Some 7"
  using Sscanf_pr_itoa [of 7] by (simp add: go_eval)

lemma demo_observe: "\<exists>s w. run_state (Observer_Observe nano_api (demo_client (demo_lease h d)) (attempts 4) sample_codec demo_quota 14) (cold\<lparr>calls := t\<rparr>)
   = (Inr demo_obs, cold\<lparr>calls := t @ s, cached := w\<rparr>)"
proof -
  obtain obs ch where o: "Observe nano_api demo_now ''u'' [(''pods'', four)] 14 emptyWindow = (obs, ch)" by force
  note hb = sample_heartbeat [OF o]
  have "demo_obs = obs\<lparr>LastWriteAt := format_rfc3339 demo_now\<rparr>" by (simp add: demo_obs_def o)
  then show ?thesis using o hb
    by (simp add: Observer_Observe_def load_window_def GetState_def MutateState_def ensureLeaseExists_def mutate_once_def
        run_or_fail Let_def demo_quota_def sample_codec_def DecodeWindow_def EncodeWindow_def
        store_window_def cacheKey_def numeral_eq_Suc cold_def demo_state zeroState_def)
qed

lemma ParsePolicy_none: "ParsePolicy Q [] base = (base, [])"
  by (simp add: ParsePolicy_def Let_def apply_threshold_def apply_increment_def apply_headroom_def)

lemma demo_policy_simps: "WindowDays demo_policy = 14" "Enabled demo_policy"
  by (simp_all add: demo_policy_def DefaultPolicy_def)

lemma demo_publish: "\<exists>s'. run_state (foldM publish ops ()) (cold\<lparr>calls := s, cached := w\<rparr>) = ((), cold\<lparr>calls := s @ s', cached := w\<rparr>)"
proof (induction ops arbitrary: s)
  case Nil
  show ?case by (rule exI [of _ "[]"]) simp
next
  case (Cons op ops)
  from Cons [of "s @ [Metric op]"] show ?case by (auto simp: publish_def cold_def)
qed

text \<open>A run of the example up to the decision.\<close>

definition demo_reads :: "nano call list" where
  "demo_reads = [GetQuota ''team'' ''compute'' (Inr demo_quota), GetNamespace ''team'' (Inr [])]"

lemma demo_reconcile: "\<exists>s w. run_state (Reconcile (demo merge (demo_lease h d)) ''team'' ''compute'') cold
  = run_state (act_on_decision (demo merge (demo_lease h d)) ''team'' demo_quota [] demo_policy (stateFromLease (demo_lease h d)) False
      (Decide nano_api demo_input)) (cold\<lparr>calls := demo_reads @ s, cached := w\<rparr>)"
proof -
  let ?C = "demo merge (demo_lease h d)"
  from demo_observe [of h d demo_reads] obtain s w where
    "run_state (Observer_Observe nano_api (demo_client (demo_lease h d)) (attempts 4) sample_codec demo_quota 14)
      (cold\<lparr>calls := demo_reads\<rparr>)
      = (Inr demo_obs, cold\<lparr>calls := demo_reads @ s, cached := w\<rparr>)" by blast
  then have 1: "run_state (Reconcile ?C ''team'' ''compute'') cold
    = run_state (decide_and_act ?C ''team'' demo_quota [] demo_policy demo_obs) (cold\<lparr>calls := demo_reads @ s, cached := w\<rparr>)"
    by (simp add: Reconcile_def run_or_fail Let_def ParsePolicy_none demo_policy_simps demo_reads_def cold_def)
  let ?s = "(demo_reads @ s) @ [GetLease ControllerNamespace (getLeaseName ''team'' ''compute'') (Inr (demo_lease h d)), ListEvents ''team'' (Inr []), Clock demo_now, Clock demo_now]"
  let ?ops = "recordDecision nano_api ''team'' ''compute'' (Status_Hard demo_quota) (Decide nano_api demo_input)"
  obtain s' where "run_state (foldM publish ?ops ()) (cold\<lparr>calls := ?s, cached := w\<rparr>) = ((), cold\<lparr>calls := ?s @ s', cached := w\<rparr>)"
    using demo_publish by blast
  then have "run_state (decide_and_act ?C ''team'' demo_quota [] demo_policy demo_obs) (cold\<lparr>calls := demo_reads @ s, cached := w\<rparr>)
    = run_state (act_on_decision ?C ''team'' demo_quota [] demo_policy (stateFromLease (demo_lease h d)) False (Decide nano_api demo_input))
        (cold\<lparr>calls := ?s @ s', cached := w\<rparr>)"
    by (simp add: decide_and_act_def GetState_def run_or_fail Let_def collectDeficits_def total_deficits_def demo_quota_def demo_input_def
        demo_state zeroState_def cold_def)
  with 1 show ?thesis unfolding append_assoc by metis
qed

text \<open>Its calls, whatever was done before the decision.\<close>

definition demo_calls :: "bool \<Rightarrow> Lease \<Rightarrow> nano call list" where
  "demo_calls merge l = calls (snd (run_state (Reconcile (demo merge l) ''team'' ''compute'') cold))"

lemmas demo_eval = act_on_decision_def handleActivePR_def try_auto_merge_def update_open_pr_def handleNewProposal_def create_pr_def
  run_or_fail Let_def demo_grow demo_status_def demo_state demo_holder canAttemptMerge_def zeroState_def isNoop_def
  MutateState_def ensureLeaseExists_def mutate_once_def shrinkPRShouldClose_def recommend_event_def numeral_eq_Suc demo_quota_def

lemma demo_merges: "MergePR 7 ''squash'' (Inr ()) \<in> set (demo_calls True (demo_lease (Some ''pr-7'') ''grow''))"
  using demo_reconcile [of True "Some ''pr-7''" "''grow''"] unfolding demo_calls_def
  by (elim exE) (simp add: demo_eval go_eval)

lemma demo_updates: "UpdatePR 7 ''compute'' ''team'' [] [(''pods'', (5 * 10 ^ 9, DecimalSI))] (Inr ()) \<in> set (demo_calls False (demo_lease (Some ''pr-7'') ''grow''))"
  using demo_reconcile [of False "Some ''pr-7''" "''grow''"] unfolding demo_calls_def
  by (elim exE) (simp add: demo_eval go_eval)

lemma demo_closes: "\<exists>reason. ClosePR 7 reason (Inr ()) \<in> set (demo_calls False (demo_lease (Some ''pr-7'') ''shrink''))"
  using demo_reconcile [of False "Some ''pr-7''" "''shrink''"] unfolding demo_calls_def
  by (elim exE) (auto simp: demo_eval go_eval)

lemma demo_creates: "CreatePR ''compute'' ''team'' ''grow'' [] [(''pods'', (5 * 10 ^ 9, DecimalSI))] (Inr 9) \<in> set (demo_calls False (demo_lease None ''''))"
  using demo_reconcile [of False None "''''"] unfolding demo_calls_def
  by (elim exE) (simp add: demo_eval IsZero_def)

definition demo_result :: "bool \<Rightarrow> Lease \<Rightarrow> Result result" where
  "demo_result merge l = fst (run_state (Reconcile (demo merge l) ''team'' ''compute'') cold)"

lemma demo_succeeds: "\<exists>res. demo_result False (demo_lease None '''') = Inr res"
  using demo_reconcile [of False None "''''"] unfolding demo_result_def
  by (elim exE) (simp add: demo_eval IsZero_def)

text \<open>What holds after every run holds of this one.\<close>

lemma demo_ensures:
  assumes "ensures (Reconcile (demo merge l) ''team'' ''compute'') P"
  shows "P (demo_result merge l) (demo_calls merge l)"
proof -
  obtain r w' where r: "run_state (Reconcile (demo merge l) ''team'' ''compute'') cold = (r, w')" by force
  from ensuresD [OF assms r] r show ?thesis by (auto simp: demo_calls_def demo_result_def cold_def)
qed

lemma demo_retries: "retries_on_conflict (Retry (demo merge l))"
  by (simp add: attempts_retry)

text \<open>The same quota under a controller whose base policy is switched off.\<close>

definition demo_off :: "(nano, unit) Reconciler" where
  "demo_off = (demo False (demo_lease None ''''))\<lparr>BasePolicy := demo_policy\<lparr>Enabled := False\<rparr>\<rparr>"

lemma demo_off_retries: "retries_on_conflict (Retry demo_off)"
  by (simp add: demo_off_def attempts_retry)

lemma demo_off_run: "run_state (Reconcile demo_off ''team'' ''compute'') cold
  = (Inr finished, cold\<lparr>calls := [GetQuota ''team'' ''compute'' (Inr demo_quota), GetNamespace ''team'' (Inr [])]\<rparr>)"
  by (simp add: demo_off_def Reconcile_def run_or_fail Let_def ParsePolicy_none cold_def)

text \<open>The run starts with the quota and the namespace.\<close>

lemma demo_starts: "\<exists>t. demo_calls merge (demo_lease h d) = demo_reads @ t"
proof -
  let ?C = "demo merge (demo_lease h d)"
  let ?act = "act_on_decision ?C ''team'' demo_quota [] demo_policy (stateFromLease (demo_lease h d)) False (Decide nano_api demo_input)"
  obtain s w where e: "run_state (Reconcile ?C ''team'' ''compute'') cold = run_state ?act (cold\<lparr>calls := demo_reads @ s, cached := w\<rparr>)"
    using demo_reconcile by blast
  obtain r w' where r: "run_state ?act (cold\<lparr>calls := demo_reads @ s, cached := w\<rparr>) = (r, w')" by force
  note act = ensures_act_on_decision [OF demo_retries, where scan = "Inr () :: unit + unit", simplified sum.disc]
  from ensuresD [OF act r] show ?thesis by (auto simp: demo_calls_def e r)
qed

end
