(* ===== verification/Sessions.thy ===== *)
theory Sessions
  imports Server Dry_Run Reconcile_Example
begin

text \<open>
  Reconciliations of the quota of \<^verbatim>\<open>Reconcile_Example\<close> with a provider behind them: the answers of the
  cluster are fixed, those of the provider are computed. The witnesses of the properties of whole
  sessions use them.
\<close>

definition answers :: "nano client \<Rightarrow> Lease \<Rightarrow> (nano call list \<Rightarrow> bool) \<Rightarrow> bool" where
  "answers E l P \<longleftrightarrow> stays (\<lambda>e. \<not> provider_call e) P \<and> (\<forall>t. P t \<longrightarrow> quota_of E t ''team'' ''compute'' = Inr demo_quota \<and> (\<forall>ns q. namespace_of E t ns = Inr [] \<and> lease_of E t ns q = Inr l \<and> events_of E t ns = Inr []
     \<and> clock E t = demo_now) \<and> (\<forall>x. lease_updated E t x = Inr ()))"

lemma answers_simps:
  assumes "answers E l P" and "P t" and "list_all (\<lambda>e. \<not> provider_call e) s"
  shows "quota_of E (t @ s) ''team'' ''compute'' = Inr demo_quota" "namespace_of E (t @ s) ns = Inr []" "lease_of E (t @ s) ns q = Inr l"
    "events_of E (t @ s) ns = Inr []" "clock E (t @ s) = demo_now" "lease_updated E (t @ s) x = Inr ()"
    "P (t @ s)"
  using assms stays_append [of "\<lambda>e. \<not> provider_call e" P s t] unfolding answers_def by blast+

lemma answers_observe:
  assumes "answers E (demo_lease h d) P" and "P t"
  shows "\<exists>s w. run_state (Observer_Observe nano_api E (attempts 4) sample_codec demo_quota 14) (cold\<lparr>calls := t\<rparr>)
     = (Inr demo_obs, cold\<lparr>calls := t @ s, cached := w\<rparr>) \<and> list_all (\<lambda>e. \<not> provider_call e) s"
proof -
  obtain obs ch where o: "Observe nano_api demo_now ''u'' [(''pods'', four)] 14 emptyWindow = (obs, ch)" by force
  note hb = sample_heartbeat [OF o]
  have "demo_obs = obs\<lparr>LastWriteAt := format_rfc3339 demo_now\<rparr>" by (simp add: demo_obs_def o)
  then show ?thesis using o hb answers_simps [OF assms, of "[]"]
    by (simp add: Observer_Observe_def load_window_def GetState_def MutateState_def ensureLeaseExists_def mutate_once_def
        run_or_fail Let_def demo_quota_def sample_codec_def DecodeWindow_def EncodeWindow_def
        store_window_def cacheKey_def numeral_eq_Suc cold_def demo_state zeroState_def answers_simps [OF assms])
qed

definition staged :: "bool \<Rightarrow> nano client \<Rightarrow> (nano, unit) Reconciler" where
  "staged merge E = \<lparr>Client = E, Retry = attempts 4, Quantities = nano_api, Codec = sample_codec,
     BasePolicy = demo_policy, EnableAutoMerge = merge\<rparr>"

lemma staged_simps [simp]:
  "Client (staged merge E) = E" "Retry (staged merge E) = attempts 4" "Quantities (staged merge E) = nano_api"
  "Codec (staged merge E) = sample_codec" "BasePolicy (staged merge E) = demo_policy" "EnableAutoMerge (staged merge E) = merge"
  by (simp_all add: staged_def)

lemma publish_plain: "\<exists>s'. run_state (foldM publish ops ()) (cold\<lparr>calls := s, cached := w\<rparr>) = ((), cold\<lparr>calls := s @ s', cached := w\<rparr>)
    \<and> list_all (\<lambda>e. \<not> provider_call e) s'"
proof (induction ops arbitrary: s)
  case Nil
  show ?case by (rule exI [of _ "[]"]) simp
next
  case (Cons op ops)
  from Cons [of "s @ [Metric op]"] show ?case by (force simp: publish_def cold_def)
qed

lemma answers_reconcile:
  assumes "answers E (demo_lease h d) P" and "P t"
  shows "\<exists>s w. run_state (Reconcile (staged merge E) ''team'' ''compute'') (cold\<lparr>calls := t\<rparr>)
    = run_state (act_on_decision (staged merge E) ''team'' demo_quota [] demo_policy (stateFromLease (demo_lease h d)) False
        (Decide nano_api demo_input)) (cold\<lparr>calls := t @ s, cached := w\<rparr>) \<and> list_all (\<lambda>e. \<not> provider_call e) s"
proof -
  let ?C = "staged merge E" and ?n = "list_all (\<lambda>e :: nano call. \<not> provider_call e)"
  note [simp] = answers_simps [OF assms]
  note start = answers_simps [OF assms, of "[]", simplified]
  have reads: "?n demo_reads" by (simp add: demo_reads_def)
  from answers_observe [OF assms(1) answers_simps(7) [OF assms reads]] obtain s w where
    o: "run_state (Observer_Observe nano_api E (attempts 4) sample_codec demo_quota 14) (cold\<lparr>calls := t @ demo_reads\<rparr>)
      = (Inr demo_obs, cold\<lparr>calls := t @ demo_reads @ s, cached := w\<rparr>)" and s: "?n s" by auto
  then have 1: "run_state (Reconcile ?C ''team'' ''compute'') (cold\<lparr>calls := t\<rparr>)
    = run_state (decide_and_act ?C ''team'' demo_quota [] demo_policy demo_obs) (cold\<lparr>calls := t @ demo_reads @ s, cached := w\<rparr>)"
    by (simp add: Reconcile_def run_or_fail Let_def ParsePolicy_none demo_policy_simps demo_reads_def cold_def start)
  let ?s = "demo_reads @ s @ [GetLease ControllerNamespace (getLeaseName ''team'' ''compute'') (Inr (demo_lease h d)), ListEvents ''team'' (Inr []), Clock demo_now, Clock demo_now]"
  let ?ops = "recordDecision nano_api ''team'' ''compute'' (Status_Hard demo_quota) (Decide nano_api demo_input)"
  obtain s' where m: "run_state (foldM publish ?ops ()) (cold\<lparr>calls := t @ ?s, cached := w\<rparr>) = ((), cold\<lparr>calls := t @ ?s @ s', cached := w\<rparr>)"
    and s': "?n s'" using publish_plain [where ops = ?ops and s = "t @ ?s" and w = w] by auto
  have "run_state (decide_and_act ?C ''team'' demo_quota [] demo_policy demo_obs) (cold\<lparr>calls := t @ demo_reads @ s, cached := w\<rparr>)
    = run_state (act_on_decision ?C ''team'' demo_quota [] demo_policy (stateFromLease (demo_lease h d)) False (Decide nano_api demo_input))
        (cold\<lparr>calls := t @ ?s @ s', cached := w\<rparr>)"
    using m s reads by (simp add: decide_and_act_def GetState_def run_or_fail Let_def collectDeficits_def total_deficits_def demo_quota_def demo_input_def
        demo_state zeroState_def cold_def)
  with 1 reads s s' show ?thesis by (intro exI [of _ "?s @ s'"] exI [of _ w]) simp
qed

section \<open>A session with GitHub\<close>

text \<open>Calls to the cluster do not reach GitHub.\<close>

lemma gh_step_cluster: "\<not> provider_call e \<Longrightarrow> gh_step H e h = h"
  by (cases e) simp_all

lemma gh_after_cluster: "list_all (\<lambda>e. \<not> provider_call e) s \<Longrightarrow> gh_after H (t @ s) = gh_after H t"
  by (induction s rule: rev_induct) (simp_all add: gh_step_cluster flip: append_assoc)

text \<open>
  A cluster with one quota. Its Lease is kept as far as the lock is concerned: it is free until
  the number of a pull request was written.
\<close>

fun locks :: "nano call \<Rightarrow> bool" where
  "locks (UpdateLease l (Inr _)) \<longleftrightarrow> same_lock (demo_lease (Some ''pr-1'') ''grow'') l"
| "locks _ \<longleftrightarrow> False"

definition stage_lease :: "nano call list \<Rightarrow> Lease" where
  "stage_lease t = (if list_ex locks (dropWhile (\<lambda>e. \<not> is_create e) t) then demo_lease (Some ''pr-1'') ''grow'' else demo_lease None '''')"

definition stage :: "nano client" where
  "stage = (demo_client (demo_lease None ''''))\<lparr>quota_of := \<lambda>_ ns q. (if q = ''compute'' then Inr demo_quota else Inl NotFound),
     lease_of := \<lambda>t _ _. Inr (stage_lease t)\<rparr>"

lemma lock_1: "stateFromLease (demo_lease (Some ''pr-1'') ''grow'') = zeroState\<lparr>PRID := 1, PRDirection := ''grow''\<rparr>"
  using Sscanf_pr_itoa [of 1] by (simp add: demo_state go_eval)

lemma stage_api: "api_server stage"
proof unfold_locales
  fix t n m l assume l: "lease_of stage t n m = Inr l"
  show "PRID (stateFromLease l) = 0 \<or> (\<exists>l'. lease_in l' t \<and> same_lock l l')"
  proof (cases "list_ex locks (dropWhile (\<lambda>e. \<not> is_create e) t)")
    case True
    then obtain e where "e \<in> set t" "locks e" by (auto simp: list_ex_iff dest: set_dropWhileD)
    then obtain l' u where "UpdateLease l' (Inr u) \<in> set t" "same_lock (demo_lease (Some ''pr-1'') ''grow'') l'" by (auto elim!: locks.elims)
    with l True show ?thesis by (auto simp: stage_def stage_lease_def lease_in_def)
  next
    case False
    with l show ?thesis by (auto simp: stage_def stage_lease_def demo_state zeroState_def)
  qed
qed (auto simp: stage_def demo_quota_def split: if_splits)

lemma stage_server: "github_server server_host stage" "github_paged_server server_host server_open stage"
  using stage_api server.github_host_axioms server_pages.github_paged_axioms
  by (simp_all add: github_server_def github_paged_server_def)

abbreviation hosted_stage :: "nano client" where "hosted_stage \<equiv> hosted_client server_host stage"

lemma stage_simps [simp]:
  "pr_status (hosted_client H E) t i = fst (gh_run (GitHub_GetPRStatus (Provider H) i) (gh_after H t))"
  "pr_merged (hosted_client H E) t i how = fst (gh_run (GitHub_MergePR (Provider H) i how) (gh_after H t))"
  "clock hosted_stage t = demo_now" "lease_updated hosted_stage t l = Inr ()" "lease_of stage t ns q = Inr (stage_lease t)"
  by (simp_all add: stage_def hosted_client_def)

lemma stage_answers:
  assumes "stays (\<lambda>e. \<not> provider_call e) P" and "\<And>t. P t \<Longrightarrow> stage_lease t = l"
  shows "answers hosted_stage l P"
  using assms unfolding answers_def by (auto simp: stage_def hosted_client_def)

text \<open>What the server answers to the calls of the provider, when there is no pull request yet and when there is one.\<close>

lemma server_search: "fst (gh_run (GitHub_FindOpenPR (Provider server_host) (Pages server_host) ''team'' ''compute'') []) = Some (Inr (0, ''''))"
  by (simp add: gh_run_def GitHub_FindOpenPR_def server_host_def server_github_def numeral_eq_Suc server_open_def Let_def)

abbreviation searched_once :: "gh_call list" where "searched_once \<equiv> [ListPulls 0 (Inr ([], 0))]"

lemma server_searched: "snd (gh_run (GitHub_FindOpenPR (Provider server_host) (Pages server_host) ''team'' ''compute'') []) = searched_once"
  by (simp add: gh_run_def GitHub_FindOpenPR_def server_host_def server_github_def numeral_eq_Suc server_open_def Let_def)

abbreviation server_create :: "nano smap \<Rightarrow> int result \<times> gh_call list" where
  "server_create ls \<equiv> gh_run (GitHub_CreatePR (Provider server_host) (Host_Quantities server_host) (Host_Yaml server_host) ''compute'' ''team'' ''grow'' [] ls) searched_once"

lemma server_answers:
  "repo_of (gh (Provider server_host)) h = Inr ''main''" "ref_of (gh (Provider server_host)) h r = Inr ''s0''"
  "ref_created (gh (Provider server_host)) h r sha = Inr ()" "gh_clock (gh (Provider server_host)) h = 0"
  "contents_of (gh (Provider server_host)) h path r = (if path = ''apps'' then Inr (Dir [sample_entry compute_file]) else Inr (File (sample_entry compute_file)))"
  "file_updated (gh (Provider server_host)) h path opts = Inr ()" "labels_added (gh (Provider server_host)) h n ls = Inr ()"
  "pathTemplate (Provider server_host) c ns = Inr ''apps''" "Host_Yaml server_host = fixed_yaml"
  by (simp_all add: server_host_def server_github_def sample_github_def)

lemma server_labels: "run_state (label_or_close (Provider server_host) ns d n) w =
    (Inr n, w\<lparr>calls := calls w @ [AddLabels n [labelManaged, ''resizer/ns:'' @ ns, labelDirectionPrefix @ d] (Inr ())]\<rparr>)"
proof -
  have l: "labelAttempts = Suc 2" by (simp add: labelAttempts_def)
  show ?thesis unfolding label_or_close_def addLabels_def l label_loop.simps(2) by (simp add: server_answers)
qed

lemma server_create_run: "\<exists>s. server_create ls = (Inr 1, searched_once @ s)
    \<and> pulls_made s = [(1, branchName ''grow'' ''team'' ''compute'' 0)] \<and> \<not> list_ex (shuts 1) s"
  by (simp add: gh_run_def server_answers GitHub_CreatePR_def commit_and_open_def git_shrink_def server_labels
      run_or_wrap resolvePath_def findQuotaFile_def sample_entry_def applyChangesToYaml_def fixed_yaml_def Let_def compute_file_contains HasSuffix_def)

lemma server_status:
  assumes "pull_head h 1 = Some ref" and "\<not> list_ex (shuts 1) h"
  shows "\<exists>status h'. gh_run (GitHub_GetPRStatus (Provider server_host) 1) h = (Inr status, h') \<and> IsOpen status \<and> MergeableState status = ''clean''
    \<and> Mergeable status \<and> pull_head h' 1 = Some ref \<and> \<not> list_ex (shuts 1) h'"
  using assms by (simp add: gh_run_def GitHub_GetPRStatus_def server_host_def server_github_def run_or_fail run_or_wrap Let_def server_pull_def
      pull_head_append)

lemma server_merge:
  "pull_head h 1 = Some ref \<Longrightarrow> \<not> list_ex (shuts 1) h \<Longrightarrow> fst (gh_run (GitHub_MergePR (Provider server_host) 1 m) h) = Inr ()"
  by (simp add: gh_run_def GitHub_MergePR_def Let_def server_host_def server_github_def)

lemma skip_cluster: "list_all (\<lambda>e. \<not> provider_call e) s \<Longrightarrow> dropWhile (\<lambda>e. \<not> is_create e) (s @ t) = dropWhile (\<lambda>e. \<not> is_create e) t"
proof -
  assume "list_all (\<lambda>e. \<not> provider_call e) s"
  moreover have "is_create e \<Longrightarrow> provider_call e" for e :: "'a call" by (cases e) simp_all
  ultimately show ?thesis by (subst dropWhile_append2) (auto simp: list_all_iff)
qed

lemmas skip_all = skip_cluster [where t = "[]", unfolded append_Nil2 dropWhile.simps(1)]

text \<open>The first reconciliation finds no pull request, makes one and locks the Lease.\<close>

definition first_run :: "nano call list" where
  "first_run = calls (snd (run_state (Reconcile (staged True hosted_stage) ''team'' ''compute'') cold))"

lemma first_run_calls: "\<exists>s l x y a b. first_run = s @ [FindOpenPR ''team'' ''compute'' (Inr (0, '''')), x, CreatePR ''compute'' ''team'' ''grow'' [] [(''pods'', (5 * 10 ^ 9, DecimalSI))] (Inr 1),
    a, b, y, UpdateLease l (Inr ())] \<and> list_all (\<lambda>e. \<not> provider_call e) s \<and> \<not> provider_call x \<and> \<not> provider_call y
    \<and> \<not> provider_call a \<and> \<not> provider_call b \<and> same_lock (demo_lease (Some ''pr-1'') ''grow'') l"
proof -
  let ?P = "list_all (\<lambda>e :: nano call. \<not> provider_call e)"
  have "answers hosted_stage (demo_lease None '''') ?P"
    by (rule stage_answers) (auto simp: stays_def stage_lease_def skip_all)
  from answers_reconcile [OF this, of "[]" True] obtain s w where
    r: "run_state (Reconcile (staged True hosted_stage) ''team'' ''compute'') (cold\<lparr>calls := []\<rparr>)
      = run_state (act_on_decision (staged True hosted_stage) ''team'' demo_quota [] demo_policy (stateFromLease (demo_lease None '''')) False
          (Decide nano_api demo_input)) (cold\<lparr>calls := s, cached := w\<rparr>)" and s: "?P s" by auto
  have cold: "cold\<lparr>calls := []\<rparr> = cold" by (simp add: cold_def)
  have gh: "gh_after server_host s = []" using gh_after_cluster [OF s, of server_host "[]"] by simp
  have gh1: "gh_after server_host (s @ [FindOpenPR ''team'' ''compute'' c]) = searched_once" for c using gh server_searched by simp
  obtain u where u: "server_create [(''pods'', (5000000000, DecimalSI))] = (Inr 1, searched_once @ u)" using server_create_run by blast
  have scan: "Sscanf_pr ''pr-1'' = Some 1" using Sscanf_pr_itoa [of 1] by (simp add: go_eval)
  have lock: "PRID st = 1 \<Longrightarrow> PRID (stateFromLease (applyStateToLease st l)) = 1" for st l
    using scan by (simp add: stateFromLease_def applyStateToLease_def Let_def go_eval)
  show ?thesis
    unfolding first_run_def r [unfolded cold]
    by (rule exI [of _ s])
      (simp add: s gh gh1 u demo_eval IsZero_def server_search server_searched stage_lease_def skip_cluster scan lock applyStateToLease_lock)
qed

abbreviation first_gh :: "gh_call list" where "first_gh \<equiv> gh_after server_host first_run"

lemma first_run_state:
  "stage_lease first_run = demo_lease (Some ''pr-1'') ''grow''"
  "pull_head first_gh 1 = Some (branchName ''grow'' ''team'' ''compute'' 0)" "\<not> list_ex (shuts 1) first_gh"
proof -
  let ?ls = "[(''pods'', (5 * 10 ^ 9, DecimalSI))]"
  obtain s l x y a b where f: "first_run = s @ [FindOpenPR ''team'' ''compute'' (Inr (0, '''')), x, CreatePR ''compute'' ''team'' ''grow'' [] ?ls (Inr 1),
    a, b, y, UpdateLease l (Inr ())]" "list_all (\<lambda>e. \<not> provider_call e) s" "\<not> provider_call x" "\<not> provider_call y"
    "\<not> provider_call a" "\<not> provider_call b" "same_lock (demo_lease (Some ''pr-1'') ''grow'') l" using first_run_calls by blast
  have x: "\<not> is_create x" using f(3) by (cases x) simp_all
  show "stage_lease first_run = demo_lease (Some ''pr-1'') ''grow''"
    using f(7) x by (simp add: f(1) stage_lease_def skip_cluster [OF f(2)])
  have "gh_after server_host (s @ [FindOpenPR ''team'' ''compute'' (Inr (0, ''''))]) = searched_once"
    using gh_after_cluster [OF f(2), of server_host "[]"] server_searched by simp
  moreover obtain u where u: "server_create ?ls = (Inr 1, searched_once @ u)" "pulls_made u = [(1, branchName ''grow'' ''team'' ''compute'' 0)]"
    "\<not> list_ex (shuts 1) u" using server_create_run by blast
  ultimately have gh: "first_gh = searched_once @ u"
    using gh_after_cluster [of s server_host "[]"] f(2)
    by (simp add: f(1) gh_after_def gh_step_cluster [OF f(3)] gh_step_cluster [OF f(4)] gh_step_cluster [OF f(5)] gh_step_cluster [OF f(6)])
  show "\<not> list_ex (shuts 1) first_gh" using u(3) by (simp add: gh)
  show "pull_head first_gh 1 = Some (branchName ''grow'' ''team'' ''compute'' 0)"
    using made_pull_head [of 1 _ u] pull_head_made [of u 1] u(2) by (auto simp: gh)
qed

lemma first_session: "session (staged True hosted_stage) slash_free first_run"
proof -
  let ?C = "staged True hosted_stage"
  obtain r w' where r: "run_state (Reconcile ?C ''team'' ''compute'') cold = (r, w')" by force
  have "session ?C slash_free (calls w')"
    by (rule session.reconcile [OF _ _ _ r]) (simp_all add: cold_def session.start)
  then show ?thesis by (simp add: first_run_def r)
qed

text \<open>The second one, after a restart, merges it.\<close>

definition second_run :: "nano call list" where
  "second_run = calls (snd (run_state (Reconcile (staged True hosted_stage) ''team'' ''compute'') (cold\<lparr>calls := first_run\<rparr>)))"

lemma second_session: "session (staged True hosted_stage) slash_free second_run"
proof -
  let ?C = "staged True hosted_stage" and ?w = "cold\<lparr>calls := first_run\<rparr>"
  obtain r w' where r: "run_state (Reconcile ?C ''team'' ''compute'') ?w = (r, w')" by force
  have p: "prefix first_run (calls w')" using ensuresD [OF ensures_Reconcile r] by (auto simp: attempts_retry)
  have "session ?C slash_free (calls w')"
    by (rule session.reconcile [OF _ _ _ r]) (simp_all add: first_session p)
  then show ?thesis by (simp add: second_run_def r)
qed

lemma list_ex_dropWhile: "list_ex p (dropWhile q t) \<Longrightarrow> list_ex p (dropWhile q (t @ s))"
  by (induction t) auto

lemma second_run_merges: "merges 1 (gh_after server_host second_run)"
proof -
  let ?P = "\<lambda>t. stage_lease t = demo_lease (Some ''pr-1'') ''grow'' \<and> gh_after server_host t = first_gh"
  have free: "demo_lease None '''' \<noteq> demo_lease (Some ''pr-1'') ''grow''" by (simp add: demo_lease_def newLease_def)
  have "stays (\<lambda>e. \<not> provider_call e) ?P"
    using free unfolding stays_def by (auto simp: stage_lease_def gh_step_cluster list_ex_dropWhile split: if_splits)
  then have "answers hosted_stage (demo_lease (Some ''pr-1'') ''grow'') ?P" by (rule stage_answers) simp
  from answers_reconcile [OF this, of first_run True] first_run_state(1) obtain s w where
    r: "run_state (Reconcile (staged True hosted_stage) ''team'' ''compute'') (cold\<lparr>calls := first_run\<rparr>)
      = run_state (act_on_decision (staged True hosted_stage) ''team'' demo_quota [] demo_policy (stateFromLease (demo_lease (Some ''pr-1'') ''grow'')) False
          (Decide nano_api demo_input)) (cold\<lparr>calls := first_run @ s, cached := w\<rparr>)" and s: "list_all (\<lambda>e. \<not> provider_call e) s" by auto
  from server_status [OF first_run_state(2,3)] obtain status h' where
    st: "gh_run (GitHub_GetPRStatus (Provider server_host) 1) first_gh = (Inr status, h')" "IsOpen status" "MergeableState status = ''clean''" "Mergeable status"
    and h': "pull_head h' 1 = Some (branchName ''grow'' ''team'' ''compute'' 0)" "\<not> list_ex (shuts 1) h'" by blast
  have gh: "gh_after server_host (first_run @ s) = first_gh" by (rule gh_after_cluster [OF s])
  have gh1: "gh_after server_host (first_run @ s @ [GetPRStatus 1 c]) = h'" for c
    using gh gh_after_snoc [of server_host "first_run @ s" "GetPRStatus 1 c"] st(1) by simp
  have scan: "Sscanf_pr ''pr-1'' = Some 1" using Sscanf_pr_itoa [of 1] by (simp add: go_eval)
  have "MergePR 1 ''squash'' (Inr ()) \<in> set second_run"
    unfolding second_run_def r using st(2-4)
    by (simp add: gh gh1 st(1) demo_eval scan go_eval server_merge [OF h'])
  then show ?thesis by (rule asked_merges)
qed

section \<open>What sessions never do\<close>





text \<open>
  (C32) Whatever the controller did with the dry-run provider, in reconciliations that
  ended or were cut short after any call and whatever random numbers were drawn: no operation
  dereferences a nil pointer, and no two open pull requests in memory are for the same quota.
\<close>

theorem dry_session_one_open:
  assumes "session C (\<lambda>_. True) t" and "retries_on_conflict (Retry C)" and "Client C = dry_client rand E"
  shows "(\<exists>st. Stateful_GetPRStatus (dry_after t) i = Some st) \<and> (\<exists>s'. Stateful_MergePR i (dry_after t) = Inr s')
    \<and> (\<exists>s'. Stateful_ClosePR i (dry_after t) = Inr s')
    \<and> (\<forall>d st j d' st'. map_of (dry_after t) i = Some d \<longrightarrow> Det_Status d = Some st \<longrightarrow> IsOpen st \<longrightarrow>
        map_of (dry_after t) j = Some d' \<longrightarrow> Det_Status d' = Some st' \<longrightarrow> IsOpen st' \<longrightarrow>
        Det_Namespace d = Det_Namespace d' \<longrightarrow> Det_QuotaName d = Det_QuotaName d' \<longrightarrow> i = j)"
proof -
  let ?s = "dry_after t"
  have "\<exists>st. Stateful_GetPRStatus ?s i = Some st"
    using prs_ok_lookup [OF dry_ok, of t i] by (auto simp: Stateful_GetPRStatus_def split: option.split)
  moreover have "i = j" if "map_of ?s i = Some d" "Det_Status d = Some st" "IsOpen st" "map_of ?s j = Some d'" "Det_Status d' = Some st'" "IsOpen st'"
    "Det_Namespace d = Det_Namespace d'" "Det_QuotaName d = Det_QuotaName d'" for d st j d' st'
  proof -
    from that have "i \<in> dry_open t (Det_Namespace d) (Det_QuotaName d)" "j \<in> dry_open t (Det_Namespace d) (Det_QuotaName d)"
      by (simp_all add: dry_open_def prs_view_def)
    with dry.session_at_most_one [OF assms] show "i = j" unfolding dry.at_most_one_def by blast
  qed
  ultimately show ?thesis using stateful.merge_view [OF dry_ok, of i t] stateful.close_view [OF dry_ok, of i t] by blast
qed

text \<open>A reconciliation with the dry-run provider, whose random number is five.\<close>

abbreviation dry_stage :: "nano client" where "dry_stage \<equiv> dry_client (\<lambda>_. 5) (demo_client (demo_lease None ''''))"

definition dry_demo :: "nano call list" where
  "dry_demo = calls (snd (run_state (Reconcile (staged False dry_stage) ''team'' ''compute'') cold))"

lemma dry_step_cluster: "\<not> provider_call e \<Longrightarrow> dry_step e s = s"
  by (cases e) simp_all

lemma dry_after_cluster: "list_all (\<lambda>e. \<not> provider_call e) s \<Longrightarrow> dry_after s = []"
  by (induction s rule: rev_induct) (simp_all add: dry_step_cluster)

lemma dry_demo_calls: "\<exists>s x t. dry_demo = s @ [FindOpenPR ''team'' ''compute'' (Inr (0, '''')), x,
    CreatePR ''compute'' ''team'' ''grow'' [] [(''pods'', (5 * 10 ^ 9, DecimalSI))] (Inr 1005)] @ t
    \<and> list_all (\<lambda>e. \<not> provider_call e) s \<and> \<not> provider_call x \<and> list_all (\<lambda>e. \<not> provider_call e) t"
proof -
  have "answers dry_stage (demo_lease None '''') (\<lambda>_. True)" by (simp add: answers_def stays_def dry_client_def)
  from answers_reconcile [OF this TrueI, where t = "[]" and merge = False] obtain s w where
    r: "run_state (Reconcile (staged False dry_stage) ''team'' ''compute'') (cold\<lparr>calls := []\<rparr>)
      = run_state (act_on_decision (staged False dry_stage) ''team'' demo_quota [] demo_policy (stateFromLease (demo_lease None '''')) False
          (Decide nano_api demo_input)) (cold\<lparr>calls := s, cached := w\<rparr>)" and s: "list_all (\<lambda>e. \<not> provider_call e) s" by auto
  have cold: "cold\<lparr>calls := []\<rparr> = cold" by (simp add: cold_def)
  show ?thesis
    unfolding dry_demo_def r [unfolded cold]
    by (rule exI [of _ s])
      (simp add: s demo_eval IsZero_def dry_after_cluster dry_client_def Stateful_FindOpenPR_def Stateful_CreatePR_def)
qed

lemma dry_demo_pull: "\<exists>d st. map_of (dry_after dry_demo) 1005 = Some d \<and> Det_Status d = Some st \<and> IsOpen st
    \<and> Det_Namespace d = ''team'' \<and> Det_QuotaName d = ''compute''"
proof -
  obtain s x t where d: "dry_demo = s @ [FindOpenPR ''team'' ''compute'' (Inr (0, '''')), x,
    CreatePR ''compute'' ''team'' ''grow'' [] [(''pods'', (5 * 10 ^ 9, DecimalSI))] (Inr 1005)] @ t"
    "list_all (\<lambda>e. \<not> provider_call e) s" "\<not> provider_call x" "list_all (\<lambda>e. \<not> provider_call e) t" using dry_demo_calls by blast
  have same: "fold dry_step t p = p" for p using d(4) by (induction t) (simp_all add: dry_step_cluster)
  have "dry_after dry_demo = dry_step (CreatePR ''compute'' ''team'' ''grow'' [] [(''pods'', (5 * 10 ^ 9, DecimalSI))] (Inr 1005)) []"
    using dry_after_cluster [OF d(2)] unfolding d(1) by (simp add: dry_after_def same dry_step_cluster [OF d(3)])
  then show ?thesis by (simp add: Stateful_CreatePR_def clean_status_def)
qed

theorem dry_session_one_open_witness:
  "{j. \<exists>d st. map_of (dry_after dry_demo) j = Some d \<and> Det_Status d = Some st \<and> IsOpen st
     \<and> Det_Namespace d = ''team'' \<and> Det_QuotaName d = ''compute''} = {1005}"
proof -
  let ?C = "staged False dry_stage"
  obtain r w' where r: "run_state (Reconcile ?C ''team'' ''compute'') cold = (r, w')" by force
  have "session ?C (\<lambda>_. True) (calls w')" by (rule session.reconcile [OF _ _ _ r]) (simp_all add: cold_def session.start)
  then have "session ?C (\<lambda>_. True) dry_demo" by (simp add: dry_demo_def r)
  from dry_session_one_open [OF this _ staged_simps(1), of 1005] attempts_retry
  have one: "map_of (dry_after dry_demo) 1005 = Some d \<Longrightarrow> Det_Status d = Some st \<Longrightarrow> IsOpen st \<Longrightarrow>
      map_of (dry_after dry_demo) j = Some d' \<Longrightarrow> Det_Status d' = Some st' \<Longrightarrow> IsOpen st' \<Longrightarrow>
      Det_Namespace d = Det_Namespace d' \<Longrightarrow> Det_QuotaName d = Det_QuotaName d' \<Longrightarrow> 1005 = j" for d st j d' st'
    unfolding staged_simps(2) by blast
  obtain d st where d: "map_of (dry_after dry_demo) 1005 = Some d" "Det_Status d = Some st" "IsOpen st"
    "Det_Namespace d = ''team''" "Det_QuotaName d = ''compute''" using dry_demo_pull by blast
  show ?thesis
  proof (rule set_eqI, rule iffI)
    fix j assume "j \<in> {j. \<exists>d st. map_of (dry_after dry_demo) j = Some d \<and> Det_Status d = Some st \<and> IsOpen st
     \<and> Det_Namespace d = ''team'' \<and> Det_QuotaName d = ''compute''}"
    then obtain d' st' where "map_of (dry_after dry_demo) j = Some d'" "Det_Status d' = Some st'" "IsOpen st'"
      "Det_Namespace d' = ''team''" "Det_QuotaName d' = ''compute''" by blast
    from one [OF d(1-3) this(1-3)] d(4,5) this(4,5) show "j \<in> {1005}" by simp
  qed (use d in blast)
qed

end
