(* ===== verification/Setup.thy ===== *)
theory Setup
  imports GitHub_Correct Lease
begin

text \<open>
  Start-up: \<^verbatim>\<open>cmd/main.go\<close>, \<^verbatim>\<open>SetupWithManager\<close> of \<^verbatim>\<open>resourcequota_controller.go\<close> and the constructors
  of \<^verbatim>\<open>github.go\<close>. A message followed by \<^verbatim>\<open>os.Exit(1)\<close> is an error; so is a panic. The logger and the
  scheme are not modelled.
\<close>

section \<open>Flags and environment\<close>

text \<open>The environment variables, and the flags that were given; others take their default.\<close>

record setup_env =
  Getenv :: "string \<Rightarrow> string"
  Given_String :: "string \<Rightarrow> string option"
  Given_Bool :: "string \<Rightarrow> bool option"

definition StringVar :: "setup_env \<Rightarrow> string \<Rightarrow> string \<Rightarrow> string" where
  "StringVar E name dflt = (case Given_String E name of Some v \<Rightarrow> v | None \<Rightarrow> dflt)"

definition BoolVar :: "setup_env \<Rightarrow> string \<Rightarrow> bool \<Rightarrow> bool" where
  "BoolVar E name dflt = (case Given_Bool E name of Some b \<Rightarrow> b | None \<Rightarrow> dflt)"

definition trueStr :: string where "trueStr = ''true''"

definition metricsAddr :: "setup_env \<Rightarrow> string" where "metricsAddr E = StringVar E ''metrics-bind-address'' ''0''"
definition probeAddr :: "setup_env \<Rightarrow> string" where "probeAddr E = StringVar E ''health-probe-bind-address'' '':8081''"
definition enableLeaderElection :: "setup_env \<Rightarrow> bool" where "enableLeaderElection E = BoolVar E ''leader-elect'' False"
definition secureMetrics :: "setup_env \<Rightarrow> bool" where "secureMetrics E = BoolVar E ''metrics-secure'' True"
definition webhookCertPath :: "setup_env \<Rightarrow> string" where "webhookCertPath E = StringVar E ''webhook-cert-path'' ''''"
definition webhookCertName :: "setup_env \<Rightarrow> string" where "webhookCertName E = StringVar E ''webhook-cert-name'' ''tls.crt''"
definition webhookCertKey :: "setup_env \<Rightarrow> string" where "webhookCertKey E = StringVar E ''webhook-cert-key'' ''tls.key''"
definition metricsCertPath :: "setup_env \<Rightarrow> string" where "metricsCertPath E = StringVar E ''metrics-cert-path'' ''''"
definition metricsCertName :: "setup_env \<Rightarrow> string" where "metricsCertName E = StringVar E ''metrics-cert-name'' ''tls.crt''"
definition metricsCertKey :: "setup_env \<Rightarrow> string" where "metricsCertKey E = StringVar E ''metrics-cert-key'' ''tls.key''"
definition enableHTTP2 :: "setup_env \<Rightarrow> bool" where "enableHTTP2 E = BoolVar E ''enable-http2'' False"

definition enableAutoMerge :: "setup_env \<Rightarrow> bool" where
  "enableAutoMerge E = BoolVar E ''enable-auto-merge'' (Getenv E ''ENABLE_AUTO_MERGE'' = trueStr)"

definition enableShrink :: "setup_env \<Rightarrow> bool" where
  "enableShrink E = BoolVar E ''enable-shrink'' (Getenv E ''ENABLE_SHRINK'' = trueStr)"

section \<open>The servers\<close>

text \<open>A TLS option changes the configuration of a server.\<close>

record tls_config =
  NextProtos :: "string list"

definition disableHTTP2 :: "tls_config \<Rightarrow> tls_config" where
  "disableHTTP2 c = c\<lparr>NextProtos := [''http/1.1'']\<rparr>"

definition tlsOpts :: "setup_env \<Rightarrow> (tls_config \<Rightarrow> tls_config) list" where
  "tlsOpts E = (if \<not> enableHTTP2 E then [disableHTTP2] else [])"

text \<open>The part of the options that both servers have.\<close>

record server_options =
  CertDir :: string
  CertName :: string
  KeyName :: string
  TLSOpts :: "(tls_config \<Rightarrow> tls_config) list"

definition webhookServerOptions :: "setup_env \<Rightarrow> server_options" where
  "webhookServerOptions E = (let opts = \<lparr>CertDir = '''', CertName = '''', KeyName = '''', TLSOpts = tlsOpts E\<rparr> in
     if webhookCertPath E \<noteq> '''' then opts\<lparr>CertDir := webhookCertPath E, CertName := webhookCertName E, KeyName := webhookCertKey E\<rparr>
     else opts)"

datatype filter_provider = WithAuthenticationAndAuthorization

record metrics_options = server_options +
  BindAddress :: string
  SecureServing :: bool
  FilterProvider :: "filter_provider option"

definition metricsServerOptions :: "setup_env \<Rightarrow> metrics_options" where
  "metricsServerOptions E = (let
      opts = \<lparr>CertDir = '''', CertName = '''', KeyName = '''', TLSOpts = tlsOpts E,
        BindAddress = metricsAddr E, SecureServing = secureMetrics E, FilterProvider = None\<rparr>;
      opts = (if secureMetrics E then opts\<lparr>FilterProvider := Some WithAuthenticationAndAuthorization\<rparr> else opts)
    in if metricsCertPath E \<noteq> '''' then opts\<lparr>CertDir := metricsCertPath E, CertName := metricsCertName E, KeyName := metricsCertKey E\<rparr>
       else opts)"

text \<open>\<open>Lease_Namespaces\<close> are the namespaces whose Leases the cache of the manager holds.\<close>

record manager_options =
  Metrics :: metrics_options
  WebhookServer :: server_options
  HealthProbeBindAddress :: string
  LeaderElection :: bool
  LeaderElectionID :: string
  Lease_Namespaces :: "string list"

definition managerOptions :: "setup_env \<Rightarrow> manager_options" where
  "managerOptions E = \<lparr>Metrics = metricsServerOptions E, WebhookServer = webhookServerOptions E,
     HealthProbeBindAddress = probeAddr E, LeaderElection = enableLeaderElection E,
     LeaderElectionID = ''be3fb48b.resizer.io'', Lease_Namespaces = [ControllerNamespace]\<rparr>"

section \<open>The provider\<close>

text \<open>
  What the constructors call: the transport of a GitHub App (which rejects a bad key), the parser of
  \<^verbatim>\<open>text/template\<close>, and the client for an owner and a repository.
\<close>

datatype credentials = Token string | App int int string

record git_libs =
  ghinstallation_New :: "int \<Rightarrow> int \<Rightarrow> string \<Rightarrow> error option"
  template_Parse :: "string \<Rightarrow> (string \<Rightarrow> string \<Rightarrow> string result) result"
  NewClient :: "credentials \<Rightarrow> string \<Rightarrow> string \<Rightarrow> github"

text \<open>\<^verbatim>\<open>template.Must\<close> panics.\<close>

definition NewGitHubProvider :: "git_libs \<Rightarrow> string \<Rightarrow> string \<Rightarrow> string \<Rightarrow> string \<Rightarrow> string \<Rightarrow> GitHubProvider result" where
  "NewGitHubProvider L token owner repo cluster pathTmpl = (case template_Parse L pathTmpl of
     Inl err \<Rightarrow> Inl (Errorf ''panic'' [err])
   | Inr tmpl \<Rightarrow> Inr \<lparr>gh = NewClient L (Token token) owner repo, clusterName = cluster, pathTemplate = tmpl\<rparr>)"

definition NewGitHubAppProvider :: "git_libs \<Rightarrow> int \<Rightarrow> int \<Rightarrow> string \<Rightarrow> string \<Rightarrow> string \<Rightarrow> string \<Rightarrow> string \<Rightarrow> GitHubProvider result" where
  "NewGitHubAppProvider L appID installationID privateKey owner repo cluster pathTmpl =
     (case ghinstallation_New L appID installationID privateKey of
       Some err \<Rightarrow> Inl err
     | None \<Rightarrow> (case template_Parse L pathTmpl of
         Inl err \<Rightarrow> Inl err
       | Inr tmpl \<Rightarrow> Inr \<lparr>gh = NewClient L (App appID installationID privateKey) owner repo, clusterName = cluster, pathTemplate = tmpl\<rparr>))"

datatype provider = StatefulLogProvider | GitHub_Provider GitHubProvider

definition gitPathTemplate :: "setup_env \<Rightarrow> string" where
  "gitPathTemplate E = (let t = Getenv E ''GIT_PATH_TEMPLATE'' in
     if t = '''' then ''managed-resources/{{ .Cluster }}/{{ .Namespace }}'' else t)"

text \<open>An unset identifier is 0, one that is not a number ends the program.\<close>

definition parse_id :: "string \<Rightarrow> string \<Rightarrow> int result" where
  "parse_id name raw = (if raw = '''' then Inr 0 else case Atoi raw of
     None \<Rightarrow> Inl (OtherError (''invalid '' @ name)) | Some i \<Rightarrow> Inr i)"

definition missing_config :: "'a result" where "missing_config = Inl (OtherError ''GitHub configuration missing'')"

definition choose_provider :: "git_libs \<Rightarrow> setup_env \<Rightarrow> int \<Rightarrow> int \<Rightarrow> provider result" where
  "choose_provider L E appID installID = (let
      owner = Getenv E ''GITHUB_OWNER''; repo = Getenv E ''GITHUB_REPO''; cluster = Getenv E ''CLUSTER_NAME'';
      key = Getenv E ''GITHUB_PRIVATE_KEY''; token = Getenv E ''GITHUB_TOKEN''; path = gitPathTemplate E in
    if Getenv E ''DRY_RUN'' = trueStr then Inr StatefulLogProvider
    else if appID \<noteq> 0 \<and> installID \<noteq> 0 \<and> key \<noteq> '''' then
      (case NewGitHubAppProvider L appID installID key owner repo cluster path of
        Inl err \<Rightarrow> Inl (Errorf ''failed to create GitHub App provider'' [err])
      | Inr g \<Rightarrow> Inr (GitHub_Provider g))
    else if token \<noteq> '''' then
      (case NewGitHubProvider L token owner repo cluster path of Inl panic \<Rightarrow> Inl panic | Inr g \<Rightarrow> Inr (GitHub_Provider g))
    else missing_config)"

definition selectProvider :: "git_libs \<Rightarrow> setup_env \<Rightarrow> provider result" where
  "selectProvider L E =
     (case parse_id ''GITHUB_APP_ID'' (Getenv E ''GITHUB_APP_ID'') of Inl err \<Rightarrow> Inl err
      | Inr appID \<Rightarrow>
     case parse_id ''GITHUB_INSTALLATION_ID'' (Getenv E ''GITHUB_INSTALLATION_ID'') of Inl err \<Rightarrow> Inl err
      | Inr installID \<Rightarrow>
     case choose_provider L E appID installID of Inl err \<Rightarrow> Inl err
      | Inr p \<Rightarrow>
     if (Getenv E ''GITHUB_OWNER'' = '''' \<or> Getenv E ''GITHUB_REPO'' = '''' \<or> Getenv E ''CLUSTER_NAME'' = '''')
        \<and> Getenv E ''DRY_RUN'' \<noteq> trueStr then missing_config else Inr p)"

definition basePolicy :: "setup_env \<Rightarrow> 'q policy" where
  "basePolicy E = DefaultPolicy\<lparr>ShrinkEnabled := enableShrink E\<rparr>"

section \<open>\<^verbatim>\<open>main\<close>\<close>

text \<open>What the reconciler is made of that depends on the start-up.\<close>

record 'q reconciler_config =
  Config_Provider :: provider
  Config_BasePolicy :: "'q policy"
  Config_AutoMerge :: bool

record 'q controller_spec =
  For_Kind :: string
  Controller_Name :: string
  Watches_Kind :: string
  Reconciles :: "'q reconciler_config"

datatype 'q setup_call =
    NewManager manager_options "unit result"
  | AddCollector duration "unit result"
  | BuildController "'q controller_spec" "unit result"
  | AddHealthzCheck string "unit result"
  | AddReadyzCheck string "unit result"
  | StartManager "unit result"

text \<open>The manager of controller-runtime; \<open>new_manager\<close> includes the lookup of the cluster configuration.\<close>

record 'q manager =
  new_manager :: "'q setup_call list \<Rightarrow> manager_options \<Rightarrow> unit result"
  collector_added :: "'q setup_call list \<Rightarrow> duration \<Rightarrow> unit result"
  controller_built :: "'q setup_call list \<Rightarrow> 'q controller_spec \<Rightarrow> unit result"
  healthz_added :: "'q setup_call list \<Rightarrow> string \<Rightarrow> unit result"
  readyz_added :: "'q setup_call list \<Rightarrow> string \<Rightarrow> unit result"
  manager_started :: "'q setup_call list \<Rightarrow> unit result"

definition SetupWithManager :: "'q manager \<Rightarrow> 'q reconciler_config \<Rightarrow> ('q setup_call, 'm, unit result) io" where
  "SetupWithManager mgr r = (let spec = \<lparr>For_Kind = ''ResourceQuota'', Controller_Name = ''resourcequota'', Watches_Kind = ''Event'', Reconciles = r\<rparr>
     in ask (\<lambda>t. controller_built mgr t spec) (BuildController spec))"

definition gc_interval :: duration where "gc_interval = 12 * hour"

text \<open>From the garbage collector on.\<close>

definition register_and_start :: "'q manager \<Rightarrow> 'q reconciler_config \<Rightarrow> ('q setup_call, 'm, unit result) io" where
  "register_and_start mgr r =
     or_wrap ''unable to add lease garbage collector to manager''
       (ask (\<lambda>t. collector_added mgr t gc_interval) (AddCollector gc_interval)) (\<lambda>_.
     or_wrap ''unable to create controller'' (SetupWithManager mgr r) (\<lambda>_.
     or_wrap ''unable to set up health check'' (ask (\<lambda>t. healthz_added mgr t ''healthz'') (AddHealthzCheck ''healthz'')) (\<lambda>_.
     or_wrap ''unable to set up ready check'' (ask (\<lambda>t. readyz_added mgr t ''readyz'') (AddReadyzCheck ''readyz'')) (\<lambda>_.
     or_wrap ''problem running manager'' (ask (manager_started mgr) StartManager) (\<lambda>_. return (Inr ()))))))"

definition main :: "'q manager \<Rightarrow> git_libs \<Rightarrow> setup_env \<Rightarrow> ('q setup_call, 'm, unit result) io" where
  "main mgr L E =
     or_wrap ''unable to start manager'' (ask (\<lambda>t. new_manager mgr t (managerOptions E)) (NewManager (managerOptions E))) (\<lambda>_.
     case selectProvider L E of
       Inl err \<Rightarrow> return (Inl err)
     | Inr gitProvider \<Rightarrow>
         register_and_start mgr \<lparr>Config_Provider = gitProvider, Config_BasePolicy = basePolicy E, Config_AutoMerge = enableAutoMerge E\<rparr>)"

section \<open>Properties\<close>

text \<open>
  GitHub is used only outside the dry run, with a token or a complete application
  identity, with owner, repository and cluster named and a path template that parses. In the dry run no
  GitHub client is made.
\<close>

theorem selectProvider_dry:
  assumes "selectProvider L E = Inr p"
  shows "if Getenv E ''DRY_RUN'' = ''true'' then p = StatefulLogProvider
     else Getenv E ''GITHUB_OWNER'' \<noteq> '''' \<and> Getenv E ''GITHUB_REPO'' \<noteq> '''' \<and> Getenv E ''CLUSTER_NAME'' \<noteq> ''''
       \<and> (\<exists>g cred. p = GitHub_Provider g \<and> clusterName g = Getenv E ''CLUSTER_NAME''
            \<and> template_Parse L (gitPathTemplate E) = Inr (pathTemplate g)
            \<and> gh g = NewClient L cred (Getenv E ''GITHUB_OWNER'') (Getenv E ''GITHUB_REPO'')
            \<and> ((\<exists>a i. a \<noteq> 0 \<and> i \<noteq> 0 \<and> Atoi (Getenv E ''GITHUB_APP_ID'') = Some a \<and> Atoi (Getenv E ''GITHUB_INSTALLATION_ID'') = Some i
                  \<and> Getenv E ''GITHUB_PRIVATE_KEY'' \<noteq> '''' \<and> cred = App a i (Getenv E ''GITHUB_PRIVATE_KEY'')
                  \<and> ghinstallation_New L a i (Getenv E ''GITHUB_PRIVATE_KEY'') = None)
               \<or> Getenv E ''GITHUB_TOKEN'' \<noteq> '''' \<and> cred = Token (Getenv E ''GITHUB_TOKEN'')))"
proof -
  from assms obtain a i where a: "parse_id ''GITHUB_APP_ID'' (Getenv E ''GITHUB_APP_ID'') = Inr a"
    and i: "parse_id ''GITHUB_INSTALLATION_ID'' (Getenv E ''GITHUB_INSTALLATION_ID'') = Inr i"
    and p: "choose_provider L E a i = Inr p"
    and g: "(Getenv E ''GITHUB_OWNER'' = '''' \<or> Getenv E ''GITHUB_REPO'' = '''' \<or> Getenv E ''CLUSTER_NAME'' = '''') \<longrightarrow> Getenv E ''DRY_RUN'' = ''true''"
    unfolding selectProvider_def missing_config_def trueStr_def by (auto split: sum.splits if_splits)
  have num: "parse_id n raw = Inr x \<Longrightarrow> x \<noteq> 0 \<Longrightarrow> Atoi raw = Some x" for n raw x
    by (auto simp: parse_id_def split: if_splits option.splits)
  show ?thesis
    using p g num [OF a] num [OF i] unfolding choose_provider_def NewGitHubProvider_def NewGitHubAppProvider_def Let_def trueStr_def missing_config_def
    by (auto split: if_splits option.splits sum.splits)
qed

text \<open>A namespace cannot switch shrinking on: without the global switch it stays off.\<close>

lemma ParsePolicy_shrink_off: "\<not> ShrinkEnabled base \<Longrightarrow> \<not> ShrinkEnabled (fst (ParsePolicy Q as base))"
proof -
  assume off: "\<not> ShrinkEnabled base"
  have "\<not> ShrinkEnabled (ps_out (parse_annotation Q kv st))" if "\<not> ShrinkEnabled (ps_out st)" for kv st
    using that by (cases kv) (auto simp: ps_out_step parseScalar_fields)
  then have "\<not> ShrinkEnabled (ps_out st) \<Longrightarrow> \<not> ShrinkEnabled (ps_out (fold (parse_annotation Q) as st))" for st
    by (induction as arbitrary: st) auto
  with off show ?thesis unfolding ParsePolicy_ps_out by simp
qed

text \<open>
  Without \<^verbatim>\<open>--enable-http2\<close> both servers offer HTTP/1.1 only, whatever the configuration they start from; a
  metrics server that is secure authenticates and authorises its clients.
\<close>

theorem servers_locked_down:
  "(\<not> enableHTTP2 E \<longrightarrow> NextProtos (fold id (TLSOpts (webhookServerOptions E)) c) = [''http/1.1'']
      \<and> NextProtos (fold id (TLSOpts (metricsServerOptions E)) c) = [''http/1.1''])
   \<and> (SecureServing (metricsServerOptions E) \<longrightarrow> FilterProvider (metricsServerOptions E) \<noteq> None)"
  by (auto simp: webhookServerOptions_def metricsServerOptions_def tlsOpts_def disableHTTP2_def Let_def)

text \<open>The calls of \<^verbatim>\<open>main\<close>: each step follows only on the success of the one before.\<close>

definition started_spec :: "setup_env \<Rightarrow> provider \<Rightarrow> 'q controller_spec" where
  "started_spec E p = \<lparr>For_Kind = ''ResourceQuota'', Controller_Name = ''resourcequota'', Watches_Kind = ''Event'',
     Reconciles = \<lparr>Config_Provider = p, Config_BasePolicy = basePolicy E, Config_AutoMerge = enableAutoMerge E\<rparr>\<rparr>"

definition main_sequence :: "setup_env \<Rightarrow> provider \<Rightarrow> (unit result \<Rightarrow> 'q setup_call) list" where
  "main_sequence E p = [NewManager (managerOptions E), AddCollector (12 * hour), BuildController (started_spec E p),
     AddHealthzCheck ''healthz'', AddReadyzCheck ''readyz'', StartManager]"

definition succeeded :: "(unit result \<Rightarrow> 'q setup_call) list \<Rightarrow> 'q setup_call list" where
  "succeeded fs = map (\<lambda>f. f (Inr ())) fs"

text \<open>
  (C33) The calls of \<^verbatim>\<open>main\<close> are a beginning of one fixed sequence: the manager, whose cache
  holds the Leases of the controller's namespace, the garbage collector, the controller, the two checks, and the
  start. All but the last of them succeeded; the first failure ends the program with an error and nothing is
  called after it. The manager is started only with everything registered and a provider chosen.
\<close>

theorem main_ordered:
  "ensures (main mgr L E) (\<lambda>r s.
     (isl r \<and> s = [NewManager (managerOptions E) (Inr ())] \<and> isl (selectProvider L E))
   \<or> (\<exists>p n f e. (n = 0 \<or> selectProvider L E = Inr p) \<and> n < 6 \<and> f = main_sequence E p ! n
        \<and> s = succeeded (take n (main_sequence E p)) @ [f (Inl e)] \<and> isl r)
   \<or> (\<exists>p. selectProvider L E = Inr p \<and> s = succeeded (main_sequence E p) \<and> r = Inr ()))"
proof -
  let ?Q = "\<lambda>r s. (isl r \<and> s = [NewManager (managerOptions E) (Inr ())] \<and> isl (selectProvider L E))
   \<or> (\<exists>p n f e. (n = 0 \<or> selectProvider L E = Inr p) \<and> n < 6 \<and> f = main_sequence E p ! n
        \<and> s = succeeded (take n (main_sequence E p)) @ [f (Inl e)] \<and> isl r)
   \<or> (\<exists>p. selectProvider L E = Inr p \<and> s = succeeded (main_sequence E p) \<and> r = Inr ())"
  have failed: "?Q (Inl x) (succeeded (take n (main_sequence E p)) @ [(main_sequence E p ! n) (Inl e)])"
    if "n = 0 \<or> selectProvider L E = Inr p" "n < 6" for x n p e
    using that by auto
  note eval = main_sequence_def succeeded_def started_spec_def gc_interval_def
  show ?thesis
    unfolding main_def register_and_start_def SetupWithManager_def Let_def
  proof (intro ensures_intro, goal_cases)
    case (1 e)
    show ?case using failed [of 0 _ _ e] by (simp add: eval)
  next
    case (3 u p e)
    then show ?case using failed [of 1 p _ e] by (simp add: eval)
  next
    case (4 u p u' e)
    then show ?case using failed [of 2 p _ e] by (simp add: eval numeral_eq_Suc)
  next
    case (5 u p u' u'' e)
    then show ?case using failed [of 3 p _ e] by (simp add: eval numeral_eq_Suc)
  next
    case (6 u p u' u'' u3 e)
    then show ?case using failed [of 4 p _ e] by (simp add: eval numeral_eq_Suc)
  next
    case (7 u p u' u'' u3 u4 e)
    then show ?case using failed [of 5 p _ e] by (simp add: eval numeral_eq_Suc)
  qed (auto simp: eval)
qed

definition dry_env :: setup_env where
  "dry_env = \<lparr>Getenv = (\<lambda>n. if n = ''DRY_RUN'' then ''true'' else ''''), Given_String = (\<lambda>_. None), Given_Bool = (\<lambda>_. None)\<rparr>"

definition token_env :: setup_env where
  "token_env = \<lparr>Getenv = (\<lambda>n. if n = ''GITHUB_APP_ID'' \<or> n = ''GITHUB_INSTALLATION_ID'' \<or> n = ''DRY_RUN'' then '''' else ''x''),
     Given_String = (\<lambda>_. None), Given_Bool = (\<lambda>_. None)\<rparr>"

definition sample_libs :: git_libs where
  "sample_libs = \<lparr>ghinstallation_New = (\<lambda>_ _ _. None), template_Parse = (\<lambda>t. Inr (\<lambda>_ _. Inr t)),
     NewClient = (\<lambda>_ _ _. sample_github (Inr (Dir [])) '''')\<rparr>"

theorem selectProvider_dry_witness:
  "selectProvider sample_libs dry_env = Inr StatefulLogProvider \<and> Getenv token_env ''GITHUB_OWNER'' \<noteq> ''''
   \<and> (\<exists>g. selectProvider sample_libs token_env = Inr (GitHub_Provider g) \<and> clusterName g = ''x'')"
proof -
  have d: "selectProvider sample_libs dry_env = Inr StatefulLogProvider"
    by (simp add: selectProvider_def parse_id_def choose_provider_def dry_env_def trueStr_def Let_def)
  obtain g where t: "selectProvider sample_libs token_env = Inr (GitHub_Provider g)"
    by (simp add: selectProvider_def parse_id_def choose_provider_def token_env_def trueStr_def gitPathTemplate_def Let_def
        NewGitHubProvider_def sample_libs_def)
  from selectProvider_dry [OF t] have "Getenv token_env ''GITHUB_OWNER'' \<noteq> ''''" "clusterName g = ''x''" by (simp_all add: token_env_def)
  with d t show ?thesis by blast
qed

end
