(* ===== verification/Accepted.thy ===== *)
theory Accepted
  imports Decide_Safety
begin

text \<open>
  The type of a proposed limit. The API server accepts a quota only when a key that counts objects has
  a whole number; memory and storage are proposed in whole \<^verbatim>\<open>Mi\<close>, everything else in milli-units. All are
  in the range of \<^verbatim>\<open>int64\<close>.
\<close>

definition accepted_for :: "('q \<Rightarrow> real) \<Rightarrow> resource_name \<Rightarrow> 'q \<Rightarrow> bool" where
  "accepted_for val res t \<longleftrightarrow> (\<exists>k. in64 k \<and>
     (if IsCountable res then val t = of_int k
      else if Contains (measureOf res) ''memory'' \<or> Contains (measureOf res) ''storage'' then val t = of_int k \<and> bytesPerMi dvd k
      else val t = of_int k / 1000))"

lemma wrap64_dvd: "bytesPerMi dvd wrap64 (x * bytesPerMi)"
proof -
  have "(2 :: int) ^ 20 dvd 2 ^ 64" by (rule le_imp_power_dvd) simp
  then have "bytesPerMi dvd 2 ^ 64" "bytesPerMi dvd 2 ^ 63" by (auto simp: bytesPerMi_def)
  then show ?thesis     by (auto simp: wrap64_def signed_take_bit_int_eq_self_iff signed_take_bit_eq_take_bit_shift take_bit_eq_mod dvd_mod_iff)
qed

lemma Quantize_accepted:
  assumes "quantity_laws Q val" and "in64 m"
  shows "accepted_for val res (Quantize Q res m f)"
  unfolding accepted_for_def Quantize_def Let_def
  using quantity_laws.val_new [OF assms(1)] quantity_laws.val_new_milli [OF assms] quantity_laws.in64_to_int64 [OF assms(1)] assms(2)
    in64_wrap64 wrap64_dvd
  by auto

lemma Decide_target_accepted:
  assumes "quantity_laws Q val" and "distinct (map fst (Hard inp))" and "(res, t) \<in> set (Targets (Decide Q inp))"
  shows "map_of (Hard inp) res \<noteq> None \<and> accepted_for val res t"
proof -
  obtain hard target driver m where k: "map_of (Hard inp) res = Some hard" "key_target Q inp res hard = Some (target, driver)"
    "m = target \<or> m = capped_milli Q inp (MilliValue Q hard)" "t = Quantize Q res m (Format Q hard)"
    using Decide_target [OF assms(2,3)] by metis
  have "in64 m" using k(3) key_target_facts(1) [OF assms(1) k(2)] quantity_laws.in64_to_int64 [OF assms(1)] by (auto simp: capped_milli_def)
  then show ?thesis using k(1) Quantize_accepted [OF assms(1)] unfolding k(4) by simp
qed

end
