(* ===== verification/Reconcile_Correct.thy ===== *)
theory Reconcile_Correct
  imports Reconcile_Example Accepted
begin

text \<open>
  The properties of one reconciliation, each read off the description of its calls in \<open>Reconcile_Safety\<close>. They
  hold whatever the environment answers. The witnesses are runs of \<open>Reconcile_Example\<close>.
\<close>

text \<open>Where a call to the provider comes from.\<close>

lemma decided_mono: "decided C ns quota pol window s state scan d \<Longrightarrow> set s \<subseteq> set t \<Longrightarrow> decided C ns quota pol window t state scan d"
  unfolding decided_def by blast

lemma reconcile_provider_call:
  assumes "reconcile_calls C ns name r s" and "e \<in> set s" and "provider_call e"
  obtains quota annotations window s1 s2 state scan decision where
    "s = GetQuota ns name (Inr quota) # GetNamespace ns (Inr annotations) # s1 @ s2"
    "Enabled (fst (ParsePolicy (Quantities C) annotations (BasePolicy C)))"
    "decided C ns quota (fst (ParsePolicy (Quantities C) annotations (BasePolicy C))) window s1 state scan decision"
    "action_calls C ns quota annotations (fst (ParsePolicy (Quantities C) annotations (BasePolicy C))) state scan decision r s2"
    "list_all quiet s1" "e \<in> set s2"
proof -
  let ?pol = "\<lambda>annotations. fst (ParsePolicy (Quantities C) annotations (BasePolicy C))"
  obtain quota annotations t where s: "s = GetQuota ns name (Inr quota) # GetNamespace ns (Inr annotations) # t" and e: "e \<in> set t"
    and t: "if \<not> Enabled (?pol annotations) then list_all is_event t \<and> r = Inr finished
         else \<exists>s0 s1 window. t = s0 @ s1 \<and> list_all quiet s0 \<and> decide_calls C ns quota annotations (?pol annotations) window r s1"
    using assms unfolding reconcile_calls_def Let_def by auto
  have en: "Enabled (?pol annotations)"
    using t e assms(3) by (auto simp: list_all_iff elim!: is_event.elims(2) split: if_splits)
  then obtain s0 s1 window where t': "t = s0 @ s1" "list_all quiet s0" "decide_calls C ns quota annotations (?pol annotations) window r s1"
    using t by auto
  have "e \<in> set s1" using e t'(1,2) assms(3) by (auto simp: list_all_iff)
  then have "\<not> list_all quiet s1" using assms(3) by (auto simp: list_all_iff)
  with t'(3) obtain a b state scan decision where d: "s1 = a @ b" "list_all quiet a"
      "decided C ns quota (?pol annotations) window a state scan decision"
      "action_calls C ns quota annotations (?pol annotations) state scan decision r b"
    unfolding decide_calls_def by blast
  show thesis
  proof (rule that)
    show "s = GetQuota ns name (Inr quota) # GetNamespace ns (Inr annotations) # (s0 @ a) @ b" using s t'(1) d(1) by simp
    show "decided C ns quota (?pol annotations) window (s0 @ a) state scan decision" by (rule decided_mono [OF d(3)]) simp
    show "e \<in> set b" using \<open>e \<in> set s1\<close> d(1,2) assms(3) by (auto simp: list_all_iff)
  qed (use en d t'(2) in simp_all)
qed

lemma clock_quiet: "is_clock e \<Longrightarrow> quiet e"
  by (auto elim: is_clock.elims(2))

lemma proposal_calls_provider:
  assumes "proposal_calls C ns quota annotations pol state d r s" and "e \<in> set s" and "provider_call e"
  shows "(\<exists>x. e = FindOpenPR ns (Quota_Name quota) x)
    \<or> (\<exists>c. e = CreatePR (Quota_Name quota) ns (Direction_String (Direction_of d)) annotations (Targets d) c)"
proof -
  obtain answer t where s: "s = FindOpenPR ns (Quota_Name quota) answer # t" and
    t: "list_all quiet t \<or> (\<exists>p t'. t = p @ t' \<and> list_all is_clock p \<and> create_calls ns quota annotations d r t')"
    using assms(1) unfolding proposal_calls_def by blast
  have q: "list_all is_clock p \<Longrightarrow> e \<notin> set p" for p using clock_quiet assms(3) unfolding list_all_iff by blast
  show ?thesis using assms(2,3) s t q unfolding create_calls_def by (auto simp: list_all_iff)
qed

text \<open>Calls that manage an open pull request.\<close>

fun manages :: "'q call \<Rightarrow> bool" where
  "manages (MergePR _ _ _) = True"
| "manages (UpdatePR _ _ _ _ _ _) = True"
| "manages (ClosePR _ _ _) = True"
| "manages _ = False"

lemma action_active:
  assumes "action_calls C ns quota annotations pol state scan d r s" and "e \<in> set s" and "manages e"
  obtains st t where "s = GetPRStatus (PRID state) (Inr st) # t" "PRID state \<noteq> 0" "IsOpen st" "active_call C ns quota annotations pol state d st t e"
proof -
  have p: "provider_call e" using assms(3) by (cases e) simp_all
  have "\<not> proposal_calls C ns quota annotations pol state d r s"
    using proposal_calls_provider [OF _ assms(2) p, of C ns quota annotations pol state d r] assms(3) by auto
  with assms p show thesis
    unfolding action_calls_def active_calls_def using that by (auto simp: list_all_iff)
qed

lemma reconcile_managed:
  assumes "reconcile_calls C ns name r s" and "e \<in> set s" and "manages e"
  obtains quota annotations window s1 t answer scan decision st where
    "s = GetQuota ns name (Inr quota) # GetNamespace ns (Inr annotations) # s1 @ GetPRStatus (PRID (read_state answer)) (Inr st) # t"
    "GetLease ControllerNamespace (getLeaseName ns (Quota_Name quota)) answer \<in> set s1"
    "decided C ns quota (fst (ParsePolicy (Quantities C) annotations (BasePolicy C))) window s1 (read_state answer) scan decision"
    "PRID (read_state answer) \<noteq> 0" "IsOpen st"
    "active_call C ns quota annotations (fst (ParsePolicy (Quantities C) annotations (BasePolicy C))) (read_state answer) decision st t e"
proof -
  have p: "provider_call e" using assms(3) by (cases e) simp_all
  from reconcile_provider_call [OF assms(1,2) p] obtain quota annotations window s1 s2 state scan decision where
    s: "s = GetQuota ns name (Inr quota) # GetNamespace ns (Inr annotations) # s1 @ s2"
    and dec: "decided C ns quota (fst (ParsePolicy (Quantities C) annotations (BasePolicy C))) window s1 state scan decision"
    and act: "action_calls C ns quota annotations (fst (ParsePolicy (Quantities C) annotations (BasePolicy C))) state scan decision r s2"
    and e: "e \<in> set s2" by metis
  from action_active [OF act e assms(3)] obtain st t where a: "s2 = GetPRStatus (PRID state) (Inr st) # t" "PRID state \<noteq> 0" "IsOpen st"
    "active_call C ns quota annotations (fst (ParsePolicy (Quantities C) annotations (BasePolicy C))) state decision st t e" .
  from dec obtain answer where l: "GetLease ControllerNamespace (getLeaseName ns (Quota_Name quota)) answer \<in> set s1" "state = read_state answer"
    unfolding decided_def by blast
  show thesis by (rule that) (use s dec a l in auto)
qed

text \<open>
  (C2) A pull request is merged only when auto-merge is switched on globally and not
  switched off for the namespace, when the Lease names this pull request and does not call it a
  shrink, and when the provider just reported it open and mergeable, either clean or blocked with
  no failing check. The controller never merges a shrink it knows of.
\<close>

theorem Reconcile_merge_safe:
  assumes "retries_on_conflict (Retry C)"
  shows "ensures (Reconcile C ns name) (\<lambda>r s. \<forall>prID how c. MergePR prID how c \<in> set s \<longrightarrow>
     how = ''squash'' \<and> EnableAutoMerge C \<and> (\<exists>quota annotations answer st.
       GetQuota ns name (Inr quota) \<in> set s
       \<and> GetNamespace ns (Inr annotations) \<in> set s \<and> map_of annotations ''resizer.io/auto-merge'' \<noteq> Some ''false''
       \<and> GetLease ControllerNamespace (getLeaseName ns (Quota_Name quota)) answer \<in> set s
       \<and> PRID (read_state answer) = prID \<and> PRDirection (read_state answer) \<noteq> ''shrink''
       \<and> GetPRStatus prID (Inr st) \<in> set s \<and> IsOpen st \<and> Mergeable st
       \<and> (MergeableState st = ''clean''
          \<or> MergeableState st = ''blocked'' \<and> (ChecksState st = ''success'' \<or> ChecksTotalCount st = 0))))"
proof (rule ensures_weaken [OF ensures_Reconcile [OF assms]], intro allI impI)
  fix r s prID how c
  assume rc: "reconcile_calls C ns name r s" and m: "MergePR prID how c \<in> set s"
  obtain quota annotations window s1 t answer scan d st where
    s: "s = GetQuota ns name (Inr quota) # GetNamespace ns (Inr annotations) # s1 @ GetPRStatus (PRID (read_state answer)) (Inr st) # t"
    and l: "GetLease ControllerNamespace (getLeaseName ns (Quota_Name quota)) answer \<in> set s1" and o: "IsOpen st"
    and a: "active_call C ns quota annotations (fst (ParsePolicy (Quantities C) annotations (BasePolicy C))) (read_state answer) d st t (MergePR prID how c)"
    by (rule reconcile_managed [OF rc m]) auto
  note AnnotationAutoMerge_def [simp]
  from a show "how = ''squash'' \<and> EnableAutoMerge C \<and> (\<exists>quota annotations answer st.
       GetQuota ns name (Inr quota) \<in> set s
       \<and> GetNamespace ns (Inr annotations) \<in> set s \<and> map_of annotations ''resizer.io/auto-merge'' \<noteq> Some ''false''
       \<and> GetLease ControllerNamespace (getLeaseName ns (Quota_Name quota)) answer \<in> set s
       \<and> PRID (read_state answer) = prID \<and> PRDirection (read_state answer) \<noteq> ''shrink''
       \<and> GetPRStatus prID (Inr st) \<in> set s \<and> IsOpen st \<and> Mergeable st
       \<and> (MergeableState st = ''clean''
          \<or> MergeableState st = ''blocked'' \<and> (ChecksState st = ''success'' \<or> ChecksTotalCount st = 0)))"
    using s l o unfolding active_call_def canAttemptMerge_def
    by (intro conjI exI [of _ quota] exI [of _ annotations] exI [of _ answer] exI [of _ st]) auto
qed


text \<open>
  (C29) Only a decision to grow rewrites an open pull request: the limits it gets are
  the targets of that decision, and the Lease names the pull request.
\<close>

theorem Reconcile_update_safe:
  assumes "retries_on_conflict (Retry C)"
  shows "ensures (Reconcile C ns name) (\<lambda>r s. \<forall>prID q n annotations limits c. UpdatePR prID q n annotations limits c \<in> set s \<longrightarrow>
     (\<exists>quota window answer scan d st.
       GetQuota ns name (Inr quota) \<in> set s \<and> GetNamespace ns (Inr annotations) \<in> set s \<and> q = Quota_Name quota \<and> n = ns
       \<and> GetLease ControllerNamespace (getLeaseName ns q) answer \<in> set s \<and> PRID (read_state answer) = prID
       \<and> GetPRStatus prID (Inr st) \<in> set s \<and> IsOpen st
       \<and> decided C ns quota (fst (ParsePolicy (Quantities C) annotations (BasePolicy C))) window s (read_state answer) scan d
       \<and> Direction_of d = DirectionGrow \<and> limits = Targets d))"
proof (rule ensures_weaken [OF ensures_Reconcile [OF assms]], intro allI impI)
  fix r s prID q n annotations limits c
  assume rc: "reconcile_calls C ns name r s" and m: "UpdatePR prID q n annotations limits c \<in> set s"
  obtain quota annotations' window s1 t answer scan d st where
    s: "s = GetQuota ns name (Inr quota) # GetNamespace ns (Inr annotations') # s1 @ GetPRStatus (PRID (read_state answer)) (Inr st) # t"
    and l: "GetLease ControllerNamespace (getLeaseName ns (Quota_Name quota)) answer \<in> set s1" and o: "IsOpen st"
    and dec: "decided C ns quota (fst (ParsePolicy (Quantities C) annotations' (BasePolicy C))) window s1 (read_state answer) scan d"
    and a: "active_call C ns quota annotations' (fst (ParsePolicy (Quantities C) annotations' (BasePolicy C))) (read_state answer) d st t (UpdatePR prID q n annotations limits c)"
    by (rule reconcile_managed [OF rc m]) auto
  have "decided C ns quota (fst (ParsePolicy (Quantities C) annotations' (BasePolicy C))) window s (read_state answer) scan d"
    by (rule decided_mono [OF dec]) (use s in auto)
  with a s l o show "\<exists>quota window answer scan d st.
       GetQuota ns name (Inr quota) \<in> set s \<and> GetNamespace ns (Inr annotations) \<in> set s \<and> q = Quota_Name quota \<and> n = ns
       \<and> GetLease ControllerNamespace (getLeaseName ns q) answer \<in> set s \<and> PRID (read_state answer) = prID
       \<and> GetPRStatus prID (Inr st) \<in> set s \<and> IsOpen st
       \<and> decided C ns quota (fst (ParsePolicy (Quantities C) annotations (BasePolicy C))) window s (read_state answer) scan d
       \<and> Direction_of d = DirectionGrow \<and> limits = Targets d"
    unfolding active_call_def
    by (intro exI [of _ quota] exI [of _ window] exI [of _ answer] exI [of _ scan] exI [of _ d] exI [of _ st]) auto
qed

text \<open>Calls that look for or create a pull request.\<close>

fun proposes :: "'q call \<Rightarrow> bool" where
  "proposes (CreatePR _ _ _ _ _ _) = True"
| "proposes (FindOpenPR _ _ _) = True"
| "proposes _ = False"

lemma reconcile_proposed:
  assumes "reconcile_calls C ns name r s" and "e \<in> set s" and "proposes e"
  obtains quota annotations window s1 s2 answer scan decision where
    "s = GetQuota ns name (Inr quota) # GetNamespace ns (Inr annotations) # s1 @ s2"
    "GetLease ControllerNamespace (getLeaseName ns (Quota_Name quota)) answer \<in> set s1"
    "decided C ns quota (fst (ParsePolicy (Quantities C) annotations (BasePolicy C))) window s (read_state answer) scan decision"
    "PRID (read_state answer) = 0" "Direction_of decision \<noteq> DirectionNone" "Direction_of decision = DirectionShrink \<Longrightarrow> \<not> isl scan"
    "proposal_calls C ns quota annotations (fst (ParsePolicy (Quantities C) annotations (BasePolicy C))) (read_state answer) decision r s2"
    "list_all quiet s1"
proof -
  have p: "provider_call e" using assms(3) by (cases e) simp_all
  from reconcile_provider_call [OF assms(1,2) p] obtain quota annotations window s1 s2 state scan decision where
    s: "s = GetQuota ns name (Inr quota) # GetNamespace ns (Inr annotations) # s1 @ s2"
    and dec: "decided C ns quota (fst (ParsePolicy (Quantities C) annotations (BasePolicy C))) window s1 state scan decision"
    and act: "action_calls C ns quota annotations (fst (ParsePolicy (Quantities C) annotations (BasePolicy C))) state scan decision r s2"
    and q: "list_all quiet s1" and e: "e \<in> set s2" by metis
  from dec obtain answer where l: "GetLease ControllerNamespace (getLeaseName ns (Quota_Name quota)) answer \<in> set s1" "state = read_state answer"
    unfolding decided_def by blast
  have "\<not> active_call C ns quota annotations pol state decision st t e" for pol st t
    using assms(3) by (auto simp: active_call_def)
  moreover have "e \<noteq> GetPRStatus i x" for i x using assms(3) by auto
  ultimately have pr: "PRID state = 0" "Direction_of decision \<noteq> DirectionNone" "Direction_of decision = DirectionShrink \<longrightarrow> \<not> isl scan"
    "proposal_calls C ns quota annotations (fst (ParsePolicy (Quantities C) annotations (BasePolicy C))) state decision r s2"
    using act e p unfolding action_calls_def active_calls_def by (auto simp: list_all_iff)
  have d': "decided C ns quota (fst (ParsePolicy (Quantities C) annotations (BasePolicy C))) window s state scan decision"
    by (rule decided_mono [OF dec]) (use s in auto)
  show thesis by (rule that) (use s d' pr l q in auto)
qed

text \<open>The part of a proposal that creates a pull request.\<close>

lemma proposal_created:
  assumes "proposal_calls C ns quota annotations pol state d r s" and "CreatePR q n dir a limits c \<in> set s"
  obtains e p t where "s = FindOpenPR ns (Quota_Name quota) (Inr (0, e)) # p @ CreatePR q n dir a limits c # t"
    "list_all quiet p" "list_all quiet t" "q = Quota_Name quota" "n = ns" "dir = Direction_String (Direction_of d)"
    "a = annotations" "limits = Targets d" "\<not> isNoop (Quantities C) quota (Targets d)"
    "Direction_of d = DirectionGrow \<Longrightarrow> \<not> IsZero (LastModified state) \<Longrightarrow>
       \<exists>now. Clock now \<in> set p \<and> Sub now (LastModified state) \<ge> GrowCooldown pol"
    "\<And>i res. c = Inr i \<Longrightarrow> r = Inr res \<Longrightarrow> recorded (\<lambda>st. PRID st = i \<and> PRDirection st = dir) s"
proof -
  obtain answer t where s: "s = FindOpenPR ns (Quota_Name quota) answer # t" and
    t: "list_all quiet t \<or> (\<exists>e p t'. answer = Inr (0, e) \<and> t = p @ t' \<and> list_all is_clock p \<and> \<not> isNoop (Quantities C) quota (Targets d)
             \<and> create_calls ns quota annotations d r t'
             \<and> (Direction_of d = DirectionGrow \<and> \<not> IsZero (LastModified state) \<longrightarrow>
                  (\<exists>now. p = [Clock now] \<and> Sub now (LastModified state) \<ge> GrowCooldown pol)))"
    using assms(1) unfolding proposal_calls_def by blast
  have "CreatePR q n dir a limits c \<in> set t" using assms(2) s by simp
  then have "\<not> list_all quiet t" unfolding list_all_iff by force
  with t obtain e p t' where p: "answer = Inr (0, e)" "t = p @ t'" "list_all is_clock p" "\<not> isNoop (Quantities C) quota (Targets d)"
      "create_calls ns quota annotations d r t'"
      "Direction_of d = DirectionGrow \<and> \<not> IsZero (LastModified state) \<longrightarrow> (\<exists>now. p = [Clock now] \<and> Sub now (LastModified state) \<ge> GrowCooldown pol)"
    by blast
  have pq: "list_all quiet p" using p(3) clock_quiet unfolding list_all_iff by blast
  let ?cr = "CreatePR (Quota_Name quota) ns (Direction_String (Direction_of d)) annotations (Targets d)"
  from p(5) obtain p' c' u where u: "t' = p' @ ?cr c' # u" "list_all quiet p'" "list_all quiet u"
      "\<forall>i res. c' = Inr i \<longrightarrow> r = Inr res \<longrightarrow> recorded (\<lambda>st. PRID st = i \<and> PRDirection st = Direction_String (Direction_of d)) u"
    unfolding create_calls_def by (auto simp: list_all_iff)
  have "CreatePR q n dir a limits c \<in> set (p @ p' @ ?cr c' # u)" using assms(2) s p(1,2) u(1) by auto
  then have eq: "CreatePR q n dir a limits c = ?cr c'" using pq u(2,3) by (auto simp: list_all_iff)
  have s': "s = (FindOpenPR ns (Quota_Name quota) (Inr (0, e)) # p @ p' @ [?cr c']) @ u" using s p(1,2) u(1) by simp
  show thesis
  proof (rule that [of e "p @ p'" u])
    show "s = FindOpenPR ns (Quota_Name quota) (Inr (0, e)) # (p @ p') @ CreatePR q n dir a limits c # u" using s' eq by simp
    show "list_all quiet (p @ p')" "list_all quiet u" using pq u by simp_all
    fix i res assume "c = Inr i" "r = Inr res"
    then have "recorded (\<lambda>st. PRID st = i \<and> PRDirection st = dir) u" using u(4) eq by auto
    then show "recorded (\<lambda>st. PRID st = i \<and> PRDirection st = dir) s" unfolding s' by (rule recorded_prefix)
  qed (use eq p(4,6) in auto)
qed

text \<open>
  (C3) At most one pull request is created per reconciliation. It is created only
  when the Lease holds no lock, the provider knows no open pull request of the quota and the limits
  differ from the specification. Its limits and direction are those of the decision. A shrink is
  proposed only when the events could be read, a grow only after the cooldown since the last change.
\<close>

theorem Reconcile_create_safe:
  assumes "retries_on_conflict (Retry C)"
  shows "ensures (Reconcile C ns name) (\<lambda>r s. \<forall>q n dir annotations limits c. CreatePR q n dir annotations limits c \<in> set s \<longrightarrow>
     length (filter proposes s) = 2 \<and>
     (\<exists>quota window answer scan d e.
       GetQuota ns name (Inr quota) \<in> set s \<and> GetNamespace ns (Inr annotations) \<in> set s \<and> q = Quota_Name quota \<and> n = ns
       \<and> GetLease ControllerNamespace (getLeaseName ns q) answer \<in> set s \<and> PRID (read_state answer) = 0
       \<and> FindOpenPR ns q (Inr (0, e)) \<in> set s
       \<and> decided C ns quota (fst (ParsePolicy (Quantities C) annotations (BasePolicy C))) window s (read_state answer) scan d
       \<and> dir = Direction_String (Direction_of d) \<and> limits = Targets d \<and> \<not> isNoop (Quantities C) quota limits
       \<and> (Direction_of d = DirectionShrink \<and> (\<exists>items. ListEvents (Quota_Namespace quota) (Inr items) \<in> set s)
          \<or> Direction_of d = DirectionGrow \<and> (IsZero (LastModified (read_state answer))
              \<or> (\<exists>now. Clock now \<in> set s \<and> Sub now (LastModified (read_state answer))
                   \<ge> GrowCooldown (fst (ParsePolicy (Quantities C) annotations (BasePolicy C))))))))"
proof (rule ensures_weaken [OF ensures_Reconcile [OF assms]], intro allI impI)
  fix r s q n dir annotations limits c
  assume rc: "reconcile_calls C ns name r s" and m: "CreatePR q n dir annotations limits c \<in> set s"
  obtain quota annotations' window s1 s2 answer scan d where
    s: "s = GetQuota ns name (Inr quota) # GetNamespace ns (Inr annotations') # s1 @ s2"
    and l: "GetLease ControllerNamespace (getLeaseName ns (Quota_Name quota)) answer \<in> set s1"
    and dec: "decided C ns quota (fst (ParsePolicy (Quantities C) annotations' (BasePolicy C))) window s (read_state answer) scan d"
    and pr: "PRID (read_state answer) = 0" "Direction_of d \<noteq> DirectionNone" "Direction_of d = DirectionShrink \<longrightarrow> \<not> isl scan"
    "proposal_calls C ns quota annotations' (fst (ParsePolicy (Quantities C) annotations' (BasePolicy C))) (read_state answer) d r s2"
    and q1: "list_all quiet s1"
    by (rule reconcile_proposed [OF rc m]) auto
  have "CreatePR q n dir annotations limits c \<in> set s2" using m s q1 by (auto simp: list_all_iff)
  from proposal_created [OF pr(4) this] obtain e p t where
    c: "s2 = FindOpenPR ns (Quota_Name quota) (Inr (0, e)) # p @ CreatePR q n dir annotations limits c # t"
    "list_all quiet p" "list_all quiet t" "q = Quota_Name quota" "n = ns" "dir = Direction_String (Direction_of d)"
    "annotations = annotations'" "limits = Targets d" "\<not> isNoop (Quantities C) quota (Targets d)"
    "Direction_of d = DirectionGrow \<longrightarrow> \<not> IsZero (LastModified (read_state answer)) \<longrightarrow>
       (\<exists>now. Clock now \<in> set p \<and> Sub now (LastModified (read_state answer)) \<ge> GrowCooldown (fst (ParsePolicy (Quantities C) annotations' (BasePolicy C))))"
    by (metis (no_types, lifting))
  have np: "\<not> proposes x" if "quiet x" for x :: "'a call" using that by (cases x) simp_all
  have none: "filter proposes u = []" if "list_all quiet u" for u :: "'a call list"
    using that np by (induction u) auto
  have "length (filter proposes s) = 2" unfolding s c(1) by (simp add: none q1 c(2,3))
  moreover have "\<exists>items. ListEvents (Quota_Namespace quota) (Inr items) \<in> set s" if "\<not> isl scan"
  proof -
    obtain x where "ListEvents (Quota_Namespace quota) x \<in> set s" "isl x = isl scan" using dec unfolding decided_def by blast
    with that show ?thesis by (cases x) auto
  qed
  then have "Direction_of d = DirectionShrink \<and> (\<exists>items. ListEvents (Quota_Namespace quota) (Inr items) \<in> set s)
          \<or> Direction_of d = DirectionGrow \<and> (IsZero (LastModified (read_state answer))
              \<or> (\<exists>now. Clock now \<in> set s \<and> Sub now (LastModified (read_state answer))
                   \<ge> GrowCooldown (fst (ParsePolicy (Quantities C) annotations (BasePolicy C)))))"
    using pr(2,3) c(1,7,10) s by (cases "Direction_of d") auto
  ultimately show "length (filter proposes s) = 2 \<and>
     (\<exists>quota window answer scan d e.
       GetQuota ns name (Inr quota) \<in> set s \<and> GetNamespace ns (Inr annotations) \<in> set s \<and> q = Quota_Name quota \<and> n = ns
       \<and> GetLease ControllerNamespace (getLeaseName ns q) answer \<in> set s \<and> PRID (read_state answer) = 0
       \<and> FindOpenPR ns q (Inr (0, e)) \<in> set s
       \<and> decided C ns quota (fst (ParsePolicy (Quantities C) annotations (BasePolicy C))) window s (read_state answer) scan d
       \<and> dir = Direction_String (Direction_of d) \<and> limits = Targets d \<and> \<not> isNoop (Quantities C) quota limits
       \<and> (Direction_of d = DirectionShrink \<and> (\<exists>items. ListEvents (Quota_Namespace quota) (Inr items) \<in> set s)
          \<or> Direction_of d = DirectionGrow \<and> (IsZero (LastModified (read_state answer))
              \<or> (\<exists>now. Clock now \<in> set s \<and> Sub now (LastModified (read_state answer))
                   \<ge> GrowCooldown (fst (ParsePolicy (Quantities C) annotations (BasePolicy C)))))))"
    using s l dec pr(1) c(1,4-9)
    by (intro conjI exI [of _ quota] exI [of _ window] exI [of _ answer] exI [of _ scan] exI [of _ d] exI [of _ e]) simp_all
qed


text \<open>
  How the proposal of a decision ends: the limits are those of the specification already; or the last
  growth is too recent; or an open pull request of the quota was found and recorded; or a pull
  request was created with the targets and recorded, or has no file to be made on.
\<close>

definition carried_out ::
  "('q, 'm) Reconciler \<Rightarrow> string \<Rightarrow> 'q ResourceQuota \<Rightarrow> string smap \<Rightarrow> 'q policy \<Rightarrow> LockState \<Rightarrow> 'q Decision \<Rightarrow> 'q call list \<Rightarrow> bool" where
  "carried_out C ns quota annotations pol state d s \<longleftrightarrow>
     isNoop (Quantities C) quota (Targets d)
   \<or> (Direction_of d = DirectionGrow \<and> (\<exists>now. Clock now \<in> set s \<and> Sub now (LastModified state) < GrowCooldown pol))
   \<or> (\<exists>i dir. i \<noteq> 0 \<and> FindOpenPR ns (Quota_Name quota) (Inr (i, dir)) \<in> set s \<and> recorded (\<lambda>st. PRID st = i \<and> PRDirection st = dir) s)
   \<or> (\<exists>i. CreatePR (Quota_Name quota) ns (Direction_String (Direction_of d)) annotations (Targets d) (Inr i) \<in> set s
        \<and> recorded (\<lambda>st. PRID st = i \<and> PRDirection st = Direction_String (Direction_of d)) s)
   \<or> (\<exists>e. CreatePR (Quota_Name quota) ns (Direction_String (Direction_of d)) annotations (Targets d) (Inl e) \<in> set s
        \<and> err_is ((=) ErrFileNotFound) e)"

lemma carried_out_prefix: "carried_out C ns quota annotations pol state d s \<Longrightarrow> carried_out C ns quota annotations pol state d (t @ s)"
  unfolding carried_out_def set_append Un_iff using recorded_prefix [of _ s t] by blast

lemma create_carried_out:
  assumes "create_calls ns quota annotations d (Inr res) t"
  shows "carried_out C ns quota annotations pol state d t"
proof -
  let ?dir = "Direction_String (Direction_of d)"
  from assms obtain p c u where t: "t = p @ CreatePR (Quota_Name quota) ns ?dir annotations (Targets d) c # u"
    and s: "\<And>i. c = Inr i \<Longrightarrow> recorded (\<lambda>st. PRID st = i \<and> PRDirection st = ?dir) u"
    and f: "\<And>e. c = Inl e \<Longrightarrow> err_is ((=) ErrFileNotFound) e"
    unfolding create_calls_def by auto
  have "recorded (\<lambda>st. PRID st = i \<and> PRDirection st = ?dir) t" if "c = Inr i" for i
    using recorded_prefix [OF s [OF that], of "p @ [CreatePR (Quota_Name quota) ns ?dir annotations (Targets d) c]"] by (simp add: t)
  then show ?thesis using f unfolding carried_out_def by (cases c) (auto simp: t)
qed

lemma proposal_carried_out:
  assumes "proposal_calls C ns quota annotations pol state d (Inr res) s"
  shows "carried_out C ns quota annotations pol state d s"
proof -
  obtain answer t where s: "s = [FindOpenPR ns (Quota_Name quota) answer] @ t" and
    t: "(\<forall>i e res'. answer = Inr (i, e) \<longrightarrow> i \<noteq> 0 \<longrightarrow> Inr res = (Inr res' :: Result result) \<longrightarrow>
            recorded (\<lambda>st. PRID st = i \<and> PRDirection st = e) t)
          \<and> (isl answer \<longrightarrow> isl (Inr res :: Result result)) \<and> (\<forall>e. answer = Inr (0, e) \<longrightarrow> isNoop (Quantities C) quota (Targets d)
              \<or> Direction_of d = DirectionGrow \<and> \<not> IsZero (LastModified state)
                \<and> (\<exists>now. Clock now \<in> set t \<and> Sub now (LastModified state) < GrowCooldown pol))
        \<or> (\<exists>p t'. t = p @ t' \<and> create_calls ns quota annotations d (Inr res) t')" (is "?stops \<or> ?creates")
    using assms unfolding proposal_calls_def append_Cons append_Nil by blast
  from t show ?thesis
  proof
    assume ?creates
    then show ?thesis unfolding s by (elim exE conjE) (simp only: carried_out_prefix create_carried_out)
  next
    assume a: ?stops
    then obtain i e where i: "answer = Inr (i, e)" by (metis prod.collapse sum.collapse(2) sum.disc(2))
    show ?thesis
    proof (cases "i = 0")
      case True
      with a i show ?thesis by (auto simp: carried_out_def s)
    next
      case False
      with a i have "recorded (\<lambda>st. PRID st = i \<and> PRDirection st = e) s" unfolding s by (intro recorded_prefix) blast
      with False i show ?thesis by (auto simp: carried_out_def s)
    qed
  qed
qed

text \<open>
  A decision was taken on what was read, and then: with a pull request on the Lease, its status was
  asked for; without one, a decision to change the limits was carried out, unless it is a shrink and the
  events could not be read.
\<close>

definition decided_and_acted ::
  "('q, 'm) Reconciler \<Rightarrow> string \<Rightarrow> 'q ResourceQuota \<Rightarrow> string smap \<Rightarrow> 'q policy \<Rightarrow> 'q call list \<Rightarrow> bool" where
  "decided_and_acted C ns quota annotations pol s \<longleftrightarrow> (\<exists>window state scan d. decided C ns quota pol window s state scan d \<and>
     (if PRID state \<noteq> 0 then \<exists>answer. GetPRStatus (PRID state) answer \<in> set s
      else Direction_of d = DirectionNone \<or> Direction_of d = DirectionShrink \<and> isl scan
        \<or> carried_out C ns quota annotations pol state d s))"

lemma decide_calls_acted:
  assumes "decide_calls C ns quota annotations pol window (Inr res) s"
  shows "decided_and_acted C ns quota annotations pol (s0 @ s)"
proof -
  from assms obtain a b state scan d where s: "s = a @ b" and d: "decided C ns quota pol window a state scan d"
    and act: "action_calls C ns quota annotations pol state scan d (Inr res) b"
    unfolding decide_calls_def by auto
  have "decided C ns quota pol window (s0 @ s) state scan d" by (rule decided_mono [OF d]) (auto simp: s)
  moreover have "carried_out C ns quota annotations pol state d (s0 @ s)"
    if "proposal_calls C ns quota annotations pol state d (Inr res) b"
    unfolding s by (intro carried_out_prefix proposal_carried_out [OF that])
  then have "if PRID state \<noteq> 0 then \<exists>answer. GetPRStatus (PRID state) answer \<in> set (s0 @ s)
      else Direction_of d = DirectionNone \<or> Direction_of d = DirectionShrink \<and> isl scan
        \<or> carried_out C ns quota annotations pol state d (s0 @ s)"
    using act unfolding action_calls_def s by auto
  ultimately show ?thesis unfolding decided_and_acted_def by blast
qed


text \<open>
  A namespace that opted out is only read: no Lease is written, the
  provider is not called and nothing is requeued.
\<close>

theorem Reconcile_disabled_silent:
  assumes "retries_on_conflict (Retry C)"
  shows "ensures (Reconcile C ns name) (\<lambda>r s. \<forall>quota annotations t. s = GetQuota ns name (Inr quota) # GetNamespace ns (Inr annotations) # t \<longrightarrow>
     \<not> Enabled (fst (ParsePolicy (Quantities C) annotations (BasePolicy C))) \<longrightarrow>
       list_all (\<lambda>e. \<not> writes e \<and> \<not> provider_call e) s \<and> r = Inr finished)"
proof (rule ensures_weaken [OF ensures_Reconcile [OF assms]], intro allI impI)
  fix r s quota annotations t
  assume rc: "reconcile_calls C ns name r s" and s: "s = GetQuota ns name (Inr quota) # GetNamespace ns (Inr annotations) # t"
    and off: "\<not> Enabled (fst (ParsePolicy (Quantities C) annotations (BasePolicy C)))"
  from rc off have t: "list_all is_event t" "r = Inr finished" unfolding reconcile_calls_def Let_def s by auto
  from t(1) have "list_all (\<lambda>e. \<not> writes e \<and> \<not> provider_call e) t"
    by (auto simp: list_all_iff elim!: is_event.elims(2))
  with t(2) s show "list_all (\<lambda>e. \<not> writes e \<and> \<not> provider_call e) s \<and> r = Inr finished" by simp
qed

text \<open>The limits a call proposes.\<close>

fun proposed :: "'q call \<Rightarrow> 'q smap option" where
  "proposed (CreatePR _ _ _ _ limits _) = Some limits"
| "proposed (UpdatePR _ _ _ _ limits _) = Some limits"
| "proposed _ = None"

lemma reconcile_proposed_limits:
  assumes rc: "reconcile_calls C ns name r s" and e: "e \<in> set s" "proposed e = Some limits"
  obtains quota annotations p inp where "s = GetQuota ns name (Inr quota) # GetNamespace ns (Inr annotations) # p"
    "limits = Targets (Decide (Quantities C) inp)" "Hard inp = Status_Hard quota" "Used inp = Status_Used quota"
    "Policy_in inp = fst (ParsePolicy (Quantities C) annotations (BasePolicy C))"
proof (cases "manages e")
  case True
  from reconcile_managed [OF rc e(1) this] obtain quota annotations window s1 t answer scan decision st where
    s: "s = GetQuota ns name (Inr quota) # GetNamespace ns (Inr annotations) # s1 @ GetPRStatus (PRID (read_state answer)) (Inr st) # t"
    and d: "decided C ns quota (fst (ParsePolicy (Quantities C) annotations (BasePolicy C))) window s1 (read_state answer) scan decision"
    and a: "active_call C ns quota annotations (fst (ParsePolicy (Quantities C) annotations (BasePolicy C))) (read_state answer) decision st t e"
    by metis
  have "limits = Targets decision" using a e(2) by (auto simp: active_call_def)
  with d that [of quota annotations] s show thesis unfolding decided_def by force
next
  case False
  then have p: "proposes e" using e(2) by (cases e) simp_all
  from reconcile_proposed [OF rc e(1) p] obtain quota annotations window s1 s2 answer scan decision where
    s: "s = GetQuota ns name (Inr quota) # GetNamespace ns (Inr annotations) # s1 @ s2" and q1: "list_all quiet s1"
    and d: "decided C ns quota (fst (ParsePolicy (Quantities C) annotations (BasePolicy C))) window s (read_state answer) scan decision"
    and pr: "proposal_calls C ns quota annotations (fst (ParsePolicy (Quantities C) annotations (BasePolicy C))) (read_state answer) decision r s2"
    by metis
  have pc: "provider_call e" using p by (cases e) simp_all
  then have "e \<in> set s2" using e p s q1 by (auto simp: list_all_iff)
  from proposal_calls_provider [OF pr this pc] p e(2) have "limits = Targets decision" by (cases e) auto
  with d that [of quota annotations] s show thesis unfolding decided_def by force
qed


text \<open>
  (C10) Every limit the controller sends is for a key the quota has, and has the type of
  that key: a whole number for a key that counts objects, a whole number of mebibytes for memory and storage,
  whole milli-units for the rest, within the range of a 64-bit integer.
\<close>

theorem Reconcile_limits_typed:
  assumes "retries_on_conflict (Retry C)" and "quantity_laws (Quantities C) val"
  shows "ensures (Reconcile C ns name) (\<lambda>r s. \<forall>e limits. e \<in> set s \<longrightarrow> proposed e = Some limits \<longrightarrow>
     (\<exists>quota annotations p. s = GetQuota ns name (Inr quota) # GetNamespace ns (Inr annotations) # p \<and>
       (distinct (map fst (Status_Hard quota)) \<longrightarrow> (\<forall>res t. (res, t) \<in> set limits \<longrightarrow>
          map_of (Status_Hard quota) res \<noteq> None \<and> accepted_for val res t))))"
proof (rule ensures_weaken [OF ensures_Reconcile [OF assms(1)]], intro allI impI)
  fix r s e limits
  assume rc: "reconcile_calls C ns name r s" and e: "e \<in> set s" "proposed e = Some limits"
  from reconcile_proposed_limits [OF rc e] obtain quota annotations p inp where
    q: "s = GetQuota ns name (Inr quota) # GetNamespace ns (Inr annotations) # p"
    and l: "limits = Targets (Decide (Quantities C) inp)" "Hard inp = Status_Hard quota" by metis
  have "map_of (Status_Hard quota) res \<noteq> None \<and> accepted_for val res t"
    if "distinct (map fst (Status_Hard quota))" "(res, t) \<in> set limits" for res t
    using Decide_target_accepted [OF assms(2), of inp] that l by simp
  with q show "\<exists>quota annotations p. s = GetQuota ns name (Inr quota) # GetNamespace ns (Inr annotations) # p \<and>
       (distinct (map fst (Status_Hard quota)) \<longrightarrow> (\<forall>res t. (res, t) \<in> set limits \<longrightarrow>
          map_of (Status_Hard quota) res \<noteq> None \<and> accepted_for val res t))"
    by blast
qed

lemma Decide_shrink_open:
  assumes "Direction_of (Decide Q inp) = DirectionShrink"
  shows "ShrinkEnabled (Policy_in inp)"
    and "IsZero (LastShrink inp) \<or> ShrinkCooldown (Policy_in inp) \<le> Sub (Now inp) (LastShrink inp)"
proof -
  from assms have "shrinkGates Q inp (shrinkTargets (candidatesOf Q inp)) = []"
    by (auto simp: Decide_def noDecision_def Let_def split: if_splits)
  then show "ShrinkEnabled (Policy_in inp)" "IsZero (LastShrink inp) \<or> ShrinkCooldown (Policy_in inp) \<le> Sub (Now inp) (LastShrink inp)"
    unfolding shrinkGates_empty by simp_all
qed

section \<open>Witnesses\<close>

theorem Reconcile_merge_safe_witness:
  "MergePR 7 ''squash'' (Inr ()) \<in> set (demo_calls True (demo_lease (Some ''pr-7'') ''grow''))
   \<and> (\<exists>annotations. GetNamespace ''team'' (Inr annotations) \<in> set (demo_calls True (demo_lease (Some ''pr-7'') ''grow''))
        \<and> map_of annotations ''resizer.io/auto-merge'' \<noteq> Some ''false'')"
  using demo_ensures [OF Reconcile_merge_safe [OF demo_retries], of True "demo_lease (Some ''pr-7'') ''grow''"] demo_merges by blast


theorem Reconcile_update_safe_witness:
  "\<exists>answer. GetLease ControllerNamespace (getLeaseName ''team'' ''compute'') answer \<in> set (demo_calls False (demo_lease (Some ''pr-7'') ''grow''))
     \<and> PRID (read_state answer) = 7"
  using demo_ensures [OF Reconcile_update_safe [OF demo_retries], of False "demo_lease (Some ''pr-7'') ''grow''"] demo_updates by blast

theorem Reconcile_create_safe_witness: "length (filter proposes (demo_calls False (demo_lease None ''''))) = 2"
  using demo_ensures [OF Reconcile_create_safe [OF demo_retries], of False "demo_lease None ''''"] demo_creates by blast




theorem Reconcile_disabled_silent_witness:
  "list_all (\<lambda>e. \<not> writes e \<and> \<not> provider_call e) (calls (snd (run_state (Reconcile demo_off ''team'' ''compute'') cold)))
   \<and> fst (run_state (Reconcile demo_off ''team'' ''compute'') cold) = Inr finished"
proof -
  have "\<not> Enabled (fst (ParsePolicy (Quantities demo_off) [] (BasePolicy demo_off)))"
    by (simp add: ParsePolicy_none demo_off_def)
  with ensuresD [OF Reconcile_disabled_silent [OF demo_off_retries] demo_off_run] show ?thesis
    unfolding demo_off_run by (simp add: cold_def)
qed



theorem Reconcile_limits_typed_witness:
  "accepted_for nano_val ''pods'' (5 * 10 ^ 9, DecimalSI)
   \<and> CreatePR ''compute'' ''team'' ''grow'' [] [(''pods'', (5 * 10 ^ 9, DecimalSI))] (Inr 9) \<in> set (demo_calls False (demo_lease None ''''))"
proof -
  obtain t where t: "demo_calls False (demo_lease None '''') = GetQuota ''team'' ''compute'' (Inr demo_quota) # GetNamespace ''team'' (Inr []) # t"
    using demo_starts [of False None "''''"] by (auto simp: demo_reads_def)
  have laws: "quantity_laws (Quantities (demo False (demo_lease None ''''))) nano_val" by (simp add: nq.quantity_laws_axioms)
  from demo_ensures [OF Reconcile_limits_typed [OF demo_retries laws], rule_format, OF demo_creates, of "[(''pods'', (5 * 10 ^ 9, DecimalSI))]"]
  have "accepted_for nano_val ''pods'' (5 * 10 ^ 9, DecimalSI)" by (auto simp: t demo_quota_def)
  with demo_creates show ?thesis by simp
qed

end
