(* ===== verification/E2E_Utils.thy ===== *)
theory E2E_Utils
  imports GitHub_Correct Deficit
begin

text \<open>
  The helpers of the end-to-end tests: \<^verbatim>\<open>test/utils/utils.go\<close>. The operating system answers as the
  parameter \<open>shell\<close>: working directory, processes, environment and files. What is printed for the reader of the
  test is left out, but for the warnings; so is the quoting in error messages.
\<close>

section \<open>The operating system\<close>

text \<open>A process is run in a directory with additions to the environment; its answer is the output and, when it failed, the error.\<close>

datatype shell_call =
    Getwd "string \<times> error option"
  | Chdir string "unit result"
  | CombinedOutput string "string list" "string list" "string \<times> error option"
  | LookupEnv string "string option"
  | ReadFile string "string result"
  | WriteFile string string "unit result"
  | Warning error

record shell =
  getwd :: "shell_call list \<Rightarrow> string \<times> error option"
  chdir :: "shell_call list \<Rightarrow> string \<Rightarrow> unit result"
  combined_output :: "shell_call list \<Rightarrow> string \<Rightarrow> string list \<Rightarrow> string list \<Rightarrow> string \<times> error option"
  lookup_env :: "shell_call list \<Rightarrow> string \<Rightarrow> string option"
  read_file :: "shell_call list \<Rightarrow> string \<Rightarrow> string result"
  write_file :: "shell_call list \<Rightarrow> string \<Rightarrow> string \<Rightarrow> unit result"

type_synonym ('m, 'a) shprog = "(shell_call, 'm, 'a) io"

text \<open>\<^verbatim>\<open>strings.ReplaceAll\<close> for a text that is not empty.\<close>

definition ReplaceAll :: "string \<Rightarrow> string \<Rightarrow> string \<Rightarrow> string" where
  "ReplaceAll s old new = Join (Split s old) new"

text \<open>
  \<^verbatim>\<open>bufio.Scanner\<close> with its default split function: lines without their line break, a carriage return
  before it dropped, nothing after a last line break, and no line from the first one on that does not fit into the
  buffer of 65536 bytes.
\<close>

definition drop_cr :: "string \<Rightarrow> string" where
  "drop_cr line = TrimSuffix line [CHR 0x0D]"

definition scan_lines :: "string \<Rightarrow> string list" where
  "scan_lines s = (let raw = Split s nl; raw = (if last raw = '''' then butlast raw else raw) in
     map drop_cr (takeWhile (\<lambda>line. length line < 65536) raw))"

section \<open>Commands\<close>

definition certmanagerVersion :: string where "certmanagerVersion = ''v1.19.1''"

definition certmanagerURL :: string where
  "certmanagerURL = ''https://github.com/cert-manager/cert-manager/releases/download/'' @ certmanagerVersion @ ''/cert-manager.yaml''"

definition defaultKindBinary :: string where "defaultKindBinary = ''kind''"
definition defaultKindCluster :: string where "defaultKindCluster = ''kind''"

definition GetProjectDir :: "shell \<Rightarrow> ('m, string \<times> error option) shprog" where
  "GetProjectDir S = do {
     r \<leftarrow> ask (getwd S) Getwd;
     (case r of
       (wd, Some err) \<Rightarrow> return (wd, Some (Errorf ''failed to get current working directory'' [err]))
     | (wd, None) \<Rightarrow> return (ReplaceAll wd ''/test/e2e'' '''', None)) }"

text \<open>The directory is used also when it could not be determined; a failure to change to it is only printed.\<close>

definition Run :: "shell \<Rightarrow> string list \<Rightarrow> ('m, string \<times> error option) shprog" where
  "Run S args = do {
     d \<leftarrow> GetProjectDir S;
     let dir = fst d;
     _ \<leftarrow> ask (\<lambda>t. chdir S t dir) (Chdir dir);
     r \<leftarrow> ask (\<lambda>t. combined_output S t dir [''GO111MODULE=on''] args) (CombinedOutput dir [''GO111MODULE=on''] args);
     return (case r of (out, Some err) \<Rightarrow> (out, Some (Errorf (Join args '' '' @ '' failed with error '' @ out) [err]))
             | (out, None) \<Rightarrow> (out, None)) }"

definition warnError :: "error \<Rightarrow> ('m, unit) shprog" where
  "warnError err = ask (\<lambda>_. ()) (\<lambda>_. Warning err)"

definition run_or_warn :: "shell \<Rightarrow> string list \<Rightarrow> unit \<Rightarrow> ('m, unit) shprog" where
  "run_or_warn S args _ = do {
     r \<leftarrow> Run S args;
     (case snd r of Some err \<Rightarrow> warnError err | None \<Rightarrow> return ()) }"

definition UninstallCertManager :: "shell \<Rightarrow> ('m, unit) shprog" where
  "UninstallCertManager S = do {
     _ \<leftarrow> run_or_warn S [''kubectl'', ''delete'', ''-f'', certmanagerURL] ();
     foldM (\<lambda>lease. run_or_warn S [''kubectl'', ''delete'', ''lease'', lease,
         ''-n'', ''kube-system'', ''--ignore-not-found'', ''--force'', ''--grace-period=0''])
       [''cert-manager-cainjector-leader-election'', ''cert-manager-controller''] () }"

definition InstallCertManager :: "shell \<Rightarrow> ('m, error option) shprog" where
  "InstallCertManager S = do {
     r \<leftarrow> Run S [''kubectl'', ''apply'', ''-f'', certmanagerURL];
     (case snd r of
       Some err \<Rightarrow> return (Some err)
     | None \<Rightarrow> do {
         r \<leftarrow> Run S [''kubectl'', ''wait'', ''deployment.apps/cert-manager-webhook'', ''--for'', ''condition=Available'',
           ''--namespace'', ''cert-manager'', ''--timeout'', ''5m''];
         return (snd r) }) }"

definition GetNonEmptyLines :: "string \<Rightarrow> string list" where
  "GetNonEmptyLines s = filter (\<lambda>element. element \<noteq> '''') (Split s nl)"

definition certManagerCRDs :: "string list" where
  "certManagerCRDs = [''certificates.cert-manager.io'', ''issuers.cert-manager.io'', ''clusterissuers.cert-manager.io'',
     ''certificaterequests.cert-manager.io'', ''orders.acme.cert-manager.io'', ''challenges.acme.cert-manager.io'']"

definition IsCertManagerCRDsInstalled :: "shell \<Rightarrow> ('m, bool) shprog" where
  "IsCertManagerCRDsInstalled S = do {
     r \<leftarrow> Run S [''kubectl'', ''get'', ''crds''];
     return (case r of (out, Some err) \<Rightarrow> False
       | (out, None) \<Rightarrow> list_ex (\<lambda>crd. list_ex (\<lambda>line. Contains line crd) (GetNonEmptyLines out)) certManagerCRDs) }"

definition LoadImageToKindClusterWithName :: "shell \<Rightarrow> string \<Rightarrow> ('m, error option) shprog" where
  "LoadImageToKindClusterWithName S name = do {
     v \<leftarrow> ask (\<lambda>t. lookup_env S t ''KIND_CLUSTER'') (LookupEnv ''KIND_CLUSTER'');
     let cluster = (case v of Some v \<Rightarrow> v | None \<Rightarrow> defaultKindCluster);
     v \<leftarrow> ask (\<lambda>t. lookup_env S t ''KIND'') (LookupEnv ''KIND'');
     let kindBinary = (case v of Some v \<Rightarrow> v | None \<Rightarrow> defaultKindBinary);
     r \<leftarrow> Run S [kindBinary, ''load'', ''docker-image'', name, ''--name'', cluster];
     return (snd r) }"

section \<open>Files\<close>

text \<open>The text between the two parts of the file that stay. A write to a \<^verbatim>\<open>bytes.Buffer\<close> does not fail.\<close>

definition uncommented :: "string list \<Rightarrow> string \<Rightarrow> string" where
  "uncommented found pfx = Join (map (\<lambda>line. TrimPrefix line pfx) found) nl"

definition UncommentCode :: "shell \<Rightarrow> string \<Rightarrow> string \<Rightarrow> string \<Rightarrow> ('m, unit result) shprog" where
  "UncommentCode S filename target pfx =
     or_wrap ''failed to read file'' (ask (\<lambda>t. read_file S t filename) (ReadFile filename)) (\<lambda>content.
     let idx = Index content target in
     if idx < 0 then return (Inl (OtherError ''unable to find the code to be uncomment''))
     else let found = scan_lines target in
     if found = [] then return (Inr ())
     else let out = take (nat idx) content @ uncommented found pfx @ drop (nat idx + length target) content in
     or_wrap ''failed to write file'' (ask (\<lambda>t. write_file S t filename out) (WriteFile filename out)) (\<lambda>_. return (Inr ())))"

section \<open>Correctness\<close>

lemma Split_Join:
  assumes "ls \<noteq> []" and "\<And>l. l \<in> set ls \<Longrightarrow> c \<notin> set l"
  shows "Split (Join ls [c]) [c] = ls"
  using assms
proof (induction ls "[c]" rule: Join.induct)
  case (3 s s' ss)
  then show ?case by (simp add: Split_char_first)
qed (simp_all add: Split_char_None)

lemma Contains_split:
  assumes "c \<notin> set sub" and "sub \<noteq> []"
  shows "Contains (a @ c # b) sub \<longleftrightarrow> Contains a sub \<or> Contains b sub"
proof -
  have e: "xs2 = []" if "sub = xs1 @ xs2" "prefix xs2 (c # b)" for xs1 xs2 using that assms(1) by (cases xs2) auto
  have "sublist sub a \<or> sublist sub b" if "sublist sub (a @ c # b)"
  proof -
    from that consider "sublist sub a" | "sublist sub (c # b)" | xs1 xs2 where "sub = xs1 @ xs2" "suffix xs1 a" "prefix xs2 (c # b)"
      unfolding sublist_append by blast
    then show ?thesis
    proof cases
      case 2
      then show ?thesis using e [of "[]" sub] assms(2) by (auto simp: sublist_Cons_right)
    next
      case (3 xs1 xs2)
      then show ?thesis using e [OF 3(1,3)] by (auto dest: suffix_imp_sublist)
    qed simp
  qed
  then show ?thesis unfolding Contains_iff using sublist_order.order_trans [of sub b "c # b"] by (auto simp: sublist_append sublist_Cons_right)
qed

text \<open>A text without a line break is in the output when it is in one of the lines that are not empty.\<close>

lemma Contains_lines:
  assumes "CHR 0x0A \<notin> set sub" and "sub \<noteq> []"
  shows "list_ex (\<lambda>line. Contains line sub) (GetNonEmptyLines s) \<longleftrightarrow> Contains s sub"
proof (induction "length s" arbitrary: s rule: less_induct)
  case less
  show ?case
  proof (cases "CHR 0x0A \<in> set s")
    case True
    then obtain a b where s: "s = a @ CHR 0x0A # b" and a: "CHR 0x0A \<notin> set a" by (meson split_list_first)
    then have "length b < length s" by simp
    from less [OF this] show ?thesis
      unfolding s Contains_split [OF assms] GetNonEmptyLines_def Split_char_first [OF a]
      using assms(2) by (cases "a = []") simp_all
  next
    case False
    then show ?thesis using assms by (cases s) (simp_all add: GetNonEmptyLines_def Split_char_None)
  qed
qed

text \<open>Cert-manager counts as installed when the list of CRDs was printed and names one of its own.\<close>

theorem IsCertManagerCRDsInstalled_iff:
  "ensures (IsCertManagerCRDsInstalled S) (\<lambda>r s. r \<longleftrightarrow>
     (\<exists>dir out. last s = CombinedOutput dir [''GO111MODULE=on''] [''kubectl'', ''get'', ''crds''] (out, None)
        \<and> (\<exists>crd \<in> set certManagerCRDs. Contains out crd)))"
proof -
  have "list_all (\<lambda>crd. CHR 0x0A \<notin> set crd \<and> crd \<noteq> []) certManagerCRDs" by (simp add: certManagerCRDs_def)
  then have crds: "CHR 0x0A \<notin> set crd" "crd \<noteq> []" if "crd \<in> set certManagerCRDs" for crd using that unfolding list_all_iff by blast+
  have lines: "list_ex (\<lambda>crd. list_ex (\<lambda>line. Contains line crd) (GetNonEmptyLines out)) certManagerCRDs
      \<longleftrightarrow> (\<exists>crd \<in> set certManagerCRDs. Contains out crd)" for out
    unfolding list_ex_iff [of _ certManagerCRDs] by (rule bex_cong [OF refl]) (rule Contains_lines [OF crds])
  show ?thesis
    unfolding IsCertManagerCRDsInstalled_def Run_def GetProjectDir_def Let_def
    by (auto simp: lines ensures_def split: prod.split option.split)
qed

text \<open>
  A block of lines that carry the comment prefix, at its first place in the file, is
  replaced by the lines without the prefix, and everything around it stays. The lines are free of line breaks and
  carriage returns at their end and fit the buffer of the scanner, and the block does not end in an empty line.
\<close>

theorem UncommentCode_uncomments:
  assumes "ls \<noteq> []" and "pfx @ last ls \<noteq> ''''"
    and "\<And>l. l \<in> set ls \<Longrightarrow> CHR 0x0A \<notin> set (pfx @ l) \<and> length (pfx @ l) < 65536 \<and> \<not> HasSuffix (pfx @ l) [CHR 0x0D]"
    and "target = Join (map ((@) pfx) ls) nl" and "Index (a @ target @ b) target = int (length a)"
  shows "ensures (UncommentCode S f target pfx) (\<lambda>r s. \<forall>t. s = ReadFile f (Inr (a @ target @ b)) # t \<longrightarrow>
     (\<exists>c. t = [WriteFile f (a @ Join ls nl @ b) c] \<and> isl r = isl c))"
proof -
  let ?ps = "map ((@) pfx) ls"
  have "Split target nl = ?ps" unfolding assms(4) by (rule Split_Join) (use assms(1,3) in auto)
  moreover have "last ?ps \<noteq> ''''" using assms(1,2) by (simp add: last_map)
  moreover have "takeWhile (\<lambda>line. length line < 65536) ?ps = ?ps" using assms(3) by (simp add: takeWhile_eq_all_conv)
  ultimately have "scan_lines target = map drop_cr ?ps" by (simp only: scan_lines_def Let_def if_False)
  also have "\<dots> = ?ps" using assms(3) by (simp add: drop_cr_def TrimSuffix_def)
  finally have found: "scan_lines target = ?ps" .
  have "uncommented ?ps pfx = Join ls nl" by (simp add: uncommented_def comp_def TrimPrefix_def HasPrefix_def)
  with found assms(1,5) show ?thesis unfolding UncommentCode_def Let_def by (intro ensures_intro) auto
qed

definition sample_shell :: "string \<Rightarrow> shell" where
  "sample_shell content = \<lparr>getwd = \<lambda>_. (''/x'', None), chdir = \<lambda>_ _. Inr (), combined_output = \<lambda>_ _ _ _. ('''', None),
     lookup_env = \<lambda>_ _. None, read_file = \<lambda>_ _. Inr content, write_file = \<lambda>_ _ _. Inr ()\<rparr>"

theorem UncommentCode_uncomments_witness:
  "set (calls (snd (run_state (UncommentCode (sample_shell ''a#b#c'') ''f'' ''#b'' ''#'') \<lparr>calls = []\<rparr>)))
     = {ReadFile ''f'' (Inr ''a#b#c''), WriteFile ''f'' ''ab#c'' (Inr ())}"
proof -
  let ?m = "UncommentCode (sample_shell ''a#b#c'') ''f'' ''#b'' ''#''"
  obtain r w where r: "run_state ?m \<lparr>calls = []\<rparr> = (r, w)" by force
  have e: "ensures ?m (\<lambda>r s. \<forall>t. s = ReadFile ''f'' (Inr (''a'' @ ''#b'' @ ''#c'')) # t \<longrightarrow>
     (\<exists>c. t = [WriteFile ''f'' (''a'' @ Join [''b''] nl @ ''#c'') c] \<and> isl r = isl c))"
    by (rule UncommentCode_uncomments) (simp_all add: HasSuffix_def HasPrefix_def)
  have "\<exists>t. calls w = ReadFile ''f'' (Inr ''a#b#c'') # t \<and> r = Inr ()"
    using r by (auto simp: UncommentCode_def run_or_wrap sample_shell_def Let_def HasPrefix_def scan_lines_def Split_char_None)
  then obtain t where t: "calls w = ReadFile ''f'' (Inr ''a#b#c'') # t" "r = Inr ()" by blast
  from ensuresD [OF e r] t obtain c where "t = [WriteFile ''f'' ''ab#c'' c]" "\<not> isl c" by auto
  with t r show ?thesis by (cases c) auto
qed

text \<open>A block that ends in a line break loses it: the line after the block is joined to its last line.\<close>

theorem UncommentCode_joins_lines:
  "calls (snd (run_state (UncommentCode (sample_shell (''#b'' @ nl @ ''c'')) ''f'' (''#b'' @ nl) ''#'') \<lparr>calls = []\<rparr>))
     = [ReadFile ''f'' (Inr (''#b'' @ nl @ ''c'')), WriteFile ''f'' ''bc'' (Inr ())]"
proof -
  have "Split (''#b'' @ nl) nl = [''#b'', '''']"
    using Split_char_append [of "''#b''" "CHR 0x0A" "''''"] by (simp add: Split_char_None)
  then show ?thesis
    by (simp add: UncommentCode_def run_or_wrap sample_shell_def Let_def HasPrefix_def scan_lines_def drop_cr_def TrimSuffix_def HasSuffix_def
      uncommented_def TrimPrefix_def)
qed

end
