(* ===== verification/Spec2Isabelle.thy ===== *)
theory Spec2Isabelle
  imports Sessions Setup Reconcile_Correct E2E_Utils
begin

text \<open>
  The namespace resizer (\<^verbatim>\<open>src/\<close>, Go) is a Kubernetes controller that keeps the limits of
  ResourceQuotas close to what their namespaces need. Every reconciliation samples the usage into a
  rolling window, looks for workloads that were refused, decides whether to grow or to shrink the
  quota, and carries the decision out as a pull request on a GitOps repository: it opens, updates,
  merges or closes one pull request per quota. Its only persistent state is a Lease per quota.

  \<^bold>\<open>How it is modelled.\<close> Pure code is a function. Code that talks to the API server, to the Git
  provider, to GitHub or to the clock is a program of \<open>Effects\<close>: a state monad over the list of the
  calls made so far, each with its answer. The environment is a parameter that answers from this
  history, so that a theorem about all environments covers failures, other writers and any
  interleaving with them. Errors are values; a nil dereference or an index out of range is an error
  value too. Go's integers are integers with the wrap-around written out (\<open>wrap64\<close>), \<^verbatim>\<open>float64\<close>
  is binary64 with rounding to even (\<open>Go_Float\<close>), instants are nanoseconds (\<open>Go_Time\<close>) with the
  textual forms of Go (\<open>Go_Format\<close>), maps are association lists in the order of the iteration.

  \<^bold>\<open>Theories and sources\<close>, in the order of the imports.
  \<^item> \<open>Prelude\<close>, \<open>Go_Float\<close>, \<open>Go_Time\<close>, \<open>Go_Format\<close>: what the source uses of Go and its standard
    library, with round trips of the textual forms and the error bounds of rounding (locale
    \<open>rounding\<close>, interpreted on the rounding of binary64).
  \<^item> \<open>Quantity\<close> (\<^verbatim>\<open>sizing/quantity.go\<close>): rounding of milli-values. \<^verbatim>\<open>resource.Quantity\<close> is the parameter
    \<open>resource_api\<close> with the documented laws \<open>quantity_laws\<close>, shown to be consistent by the exact
    instance \<open>nano_api\<close>.
  \<^item> \<open>Policy\<close> (\<^verbatim>\<open>sizing/policy.go\<close>), \<open>Constants\<close> (\<^verbatim>\<open>config/constants.go\<close>), \<open>Window\<close> (\<^verbatim>\<open>sizing/window.go\<close>),
    \<open>Decide\<close>, \<open>Decide_Safety\<close> and \<open>Accepted\<close> (\<^verbatim>\<open>sizing/decide.go\<close>), \<open>Deficit\<close> (\<^verbatim>\<open>sizing/deficit.go\<close>):
    annotations to a policy, samples to day buckets, policy and window to a decision, events to a demand.
  \<^item> \<open>Cluster\<close>: the objects and calls of the API server, the recorder and the Git provider
    (\<open>client\<close>); \<open>Lease\<close> and \<open>Lease_Correct\<close> (\<^verbatim>\<open>lock/lease.go\<close>, \<^verbatim>\<open>lock/state.go\<close>, \<^verbatim>\<open>lock/gc.go\<close>): the
    state on the Lease. \<^verbatim>\<open>retry.RetryOnConflict\<close> is the parameter \<open>retrier\<close>, assumed to repeat an
    attempt that ended in a conflict a fixed number of times (\<open>retries_on_conflict\<close>).
  \<^item> \<open>Events\<close> and \<open>Events_Correct\<close> (\<^verbatim>\<open>controller/resourcequota_utils.go\<close>, \<^verbatim>\<open>collectDeficits\<close>), \<open>Metrics\<close>
    (\<^verbatim>\<open>controller/metrics.go\<close>), \<open>Observer\<close> (\<^verbatim>\<open>controller/observation.go\<close>, with the slice shared between
    the cache and the window).
  \<^item> \<open>Reconcile\<close>, \<open>Reconcile_Safety\<close>, \<open>Reconcile_Example\<close>, \<open>Reconcile_Correct\<close>
    (\<^verbatim>\<open>controller/resourcequota_controller.go\<close>): the handler, all runs of it described by the calls they make, one run
    computed, and the properties of a single reconciliation.
  \<^item> \<open>Yaml\<close>, \<open>GitHub\<close>, \<open>GitHub_Correct\<close> (\<^verbatim>\<open>git/github.go\<close>): the edit of the manifest, with the decoder and
    the encoder of \<^verbatim>\<open>yaml.v3\<close> as the parameter \<open>yaml_api\<close>, and the provider over the parameter
    \<open>github\<close>, the client library. A pointer to a node is a path into its document.
  \<^item> \<open>Providers\<close> (\<^verbatim>\<open>git/log_provider.go\<close>, \<^verbatim>\<open>controller/fake_git_provider.go\<close>): the contract of a provider as
    the locale \<open>git_provider\<close>, kept by the provider of the dry run.
  \<^item> \<open>Setup\<close> (\<^verbatim>\<open>cmd/main.go\<close>, \<^verbatim>\<open>SetupWithManager\<close>, the constructors of \<^verbatim>\<open>git/github.go\<close>): from the values of the
    flags to the calls on the manager of controller-runtime, the parameter \<open>manager\<close>.
  \<^item> \<open>E2E_Utils\<close> (\<^verbatim>\<open>test/utils/utils.go\<close>): the helpers of the end-to-end tests over the parameter \<open>shell\<close>.

  \<^bold>\<open>Sessions.\<close> The theories above describe one operation in any environment. What the controller does over
  time, in an environment that keeps its promises, is the subject of another layer.
  \<^item> \<open>Crash\<close>: \<open>triple I P m Q\<close> says that \<open>I\<close> holds after every single call of \<open>m\<close>, not only at its end, so that
    it also holds of a run that is killed. One rule per construct.
  \<^item> \<open>Guarded\<close>: a \<open>session\<close> is any sequence of reconciliations and garbage collections, each run to its end or
    killed after any of its calls, the next one started with any memory. The locale \<open>guarded\<close> lists what the
    reconciler needs of its environment for an invariant of the history to hold in every session.
  \<^item> \<open>Hosting\<close>: the contract of the API server and of a host of pull requests as the locales \<open>hosting\<close> (a pull request
    has one direction, which search and creation report) and \<open>exclusive\<close> (a search that finds nothing means that there is
    no open pull request of the quota). Both are instances of \<open>guarded\<close>.
  \<^item> \<open>Hosted\<close> and \<open>Paged\<close>: the GitHub provider of \<open>GitHub\<close>, plugged into the reconciler, keeps these contracts when GitHub
    itself keeps the documented ones (locales \<open>github_host\<close>, \<open>api_server\<close>, \<open>github_paged\<close>: a new pull request has a
    new number and keeps its head, a lock that is read from a Lease was written to one before, the pages list the open pull requests).
    \<open>Dry_Run\<close>: the provider of the dry run keeps them by itself.
  \<^item> \<open>Server\<close>: an executable GitHub and an executable API server that keep those promises, so that the assumptions can be met.
    \<open>Sessions\<close>: the theorems about sessions, and a session of two processes computed on these servers: the first one opens a
    pull request, the second one finds it on the Lease and merges it.

  \<^bold>\<open>What is shown.\<close> Of the sizing: a limit is never proposed below the usage, a shrink takes at most
  the configured step and passes every gate, an applied decision settles, the result does not
  depend on the iteration order, a day with an outage never counts as observed, a complete window
  has a peak behind every day. Of the state: it survives the Lease, concurrent updates are
  serialised, the collector deletes orphans only. Of the event analysis: retries do not add up,
  workloads do, only current events of live objects count. Of the GitHub provider: it writes its own
  branches only, its branch names identify the quota, the search prefers the quota's own pull
  request on whatever page it is, and a shrink is labelled or closed again; the edit of a manifest
  changes \<^verbatim>\<open>spec.hard\<close> only. Of a reconciliation, whatever the environment answers: when it merges, closes,
  updates and creates pull requests, that the limits it sends cover the usage and have the type of their key, and that
  one that succeeds has carried out its decision. Of sessions: GitHub never merges a shrink of the controller, no quota has
  two open pull requests, on GitHub or in the dry run, and in this theory, the switches of the command line hold.
  Of the start-up: one fixed sequence of steps that stops at the first failure.

  \<^bold>\<open>Bounds.\<close> The search over the pages of GitHub takes fuel, one unit a page, and runs out as
  \<^term>\<open>None\<close>; it ends when every page names a later one up to a last page, with fuel for the
  pages there are. The attempts at labelling are counted down from three as in the code. All other
  loops run over finite lists. The laws of a decision hold for usages below two to the power of 53 milli-units,
  above which \<^verbatim>\<open>float64\<close> loses units, and for headrooms of at most 500; an unbounded headroom breaks
  them (\<open>infinite_headroom_shrinks_below_usage\<close>).

  \<^bold>\<open>Not modelled.\<close> Logging and what tests print; the mutexes of the observer and of the dry-run provider, whose
  operations are single steps; the registration of metrics and of API types; the parsing of the command
  line, whose result is the record \<open>setup_env\<close>; constructors that only fill a record. In a session a call of the
  provider is one step: a process killed in the middle of \<^verbatim>\<open>CreatePR\<close> is covered by the theorems of
  \<open>GitHub_Correct\<close> on its calls, not by those on sessions. Reconciliations of one session do not overlap, as
  controller-runtime runs one worker and the leader is elected; other writers of Leases and
  people who close pull requests while the pages are read are covered by the theorems on single
  reconciliations only. The memory of the dry run is lost on a restart, so that its session is one process.
\<close>

section \<open>Properties across the components\<close>

text \<open>
  (C19) A shrink that was closed or merged is not proposed again before the cooldown:
  the release of the lock stamps the Lease, the stamp survives the round trip through the Lease to
  the second, and the decision reads it.
\<close>

theorem closed_shrink_stays_closed:
  assumes "PRDirection st = ''shrink''" and "storable (release_closed status now st)" and "\<not> IsZero (whole_seconds now)"
    and "LastShrink inp = State_LastShrink (stateFromLease (applyStateToLease (release_closed status now st) lease))"
    and "Sub (Now inp) (whole_seconds now) < ShrinkCooldown (Policy_in inp)"
  shows "Direction_of (Decide Q inp) \<noteq> DirectionShrink"
proof
  assume "Direction_of (Decide Q inp) = DirectionShrink"
  from Decide_shrink_open(2) [OF this] have open_gate: "IsZero (LastShrink inp) \<or> ShrinkCooldown (Policy_in inp) \<le> Sub (Now inp) (LastShrink inp)" .
  have "State_LastShrink (release_closed status now st) = now" using assms(1) by (simp add: release_closed_def Let_def)
  then have "LastShrink inp = whole_seconds now" unfolding assms(4) stateFromLease_apply [OF assms(2)] by (simp add: stored_def)
  with open_gate assms(3,5) show False by simp
qed

theorem closed_shrink_stays_closed_witness:
  "Direction_of (Decide nano_api (demo_input\<lparr>Now := 7200000000000,
     LastShrink := State_LastShrink (stateFromLease (applyStateToLease (release_closed demo_status 3600000000000 sample_state) (newLease ''team'' ''compute'')))\<rparr>))
   \<noteq> DirectionShrink"
proof (rule closed_shrink_stays_closed)
  show "PRDirection sample_state = ''shrink''" by (simp add: sample_state_def)
  show "storable (release_closed demo_status 3600000000000 sample_state)"
    by (simp add: storable_def release_closed_def sample_state_def demo_status_def Let_def in64_iff sample_days sample_years)
  show "\<not> IsZero (whole_seconds 3600000000000)" by (simp add: IsZero_def whole_seconds_def second_def zero_time_def)
  show "Sub (Now (demo_input\<lparr>Now := 7200000000000,
     LastShrink := State_LastShrink (stateFromLease (applyStateToLease (release_closed demo_status 3600000000000 sample_state) (newLease ''team'' ''compute'')))\<rparr>)) (whole_seconds 3600000000000)
     < ShrinkCooldown (Policy_in (demo_input\<lparr>Now := 7200000000000,
     LastShrink := State_LastShrink (stateFromLease (applyStateToLease (release_closed demo_status 3600000000000 sample_state) (newLease ''team'' ''compute'')))\<rparr>))"
    by (simp add: Sub_def whole_seconds_def second_def demo_input_def demo_policy_def DefaultPolicy_def hour_def minute_def go_eval)
qed simp


section \<open>The switches of the command line\<close>

text \<open>The controller that \<^verbatim>\<open>main\<close> builds is configured by its flags.\<close>

lemma main_builds:
  "ensures (main mgr L E) (\<lambda>r s. \<forall>spec c. BuildController spec c \<in> set s \<longrightarrow>
     Config_BasePolicy (Reconciles spec) = basePolicy E \<and> Config_AutoMerge (Reconciles spec) = enableAutoMerge E)"
  unfolding main_def register_and_start_def SetupWithManager_def Let_def by (intro ensures_intro) auto

text \<open>The direction of a pull request that one reconciliation creates.\<close>

lemma reconcile_creates_direction:
  assumes rc: "reconcile_calls C ns name r s" and m: "CreatePR q n dir annotations limits c \<in> set s"
  shows "dir = ''grow'' \<or> dir = ''shrink'' \<and> ShrinkEnabled (BasePolicy C)"
proof -
  let ?pol = "\<lambda>annotations. fst (ParsePolicy (Quantities C) annotations (BasePolicy C))"
  obtain quota annotations' window s1 s2 answer scan d where
    s: "s = GetQuota ns name (Inr quota) # GetNamespace ns (Inr annotations') # s1 @ s2" and q1: "list_all quiet s1"
    and dec: "decided C ns quota (?pol annotations') window s (read_state answer) scan d"
    and dn: "Direction_of d \<noteq> DirectionNone"
    and pr: "proposal_calls C ns quota annotations' (?pol annotations') (read_state answer) d r s2"
    by (rule reconcile_proposed [OF rc m]) auto
  have "CreatePR q n dir annotations limits c \<in> set s2" using m s q1 by (auto simp: list_all_iff)
  from proposal_created [OF pr this] have dir: "dir = Direction_String (Direction_of d)" by metis
  have "ShrinkEnabled (BasePolicy C)" if "Direction_of d = DirectionShrink"
  proof -
    from dec that Decide_shrink_open(1) have "ShrinkEnabled (?pol annotations')" unfolding decided_def by fastforce
    then show ?thesis using ParsePolicy_shrink_off by blast
  qed
  with dn dir show ?thesis by (cases "Direction_of d") simp_all
qed

lemma reconcile_merges_switched:
  assumes "reconcile_calls C ns name r s" and "MergePR i how c \<in> set s"
  shows "EnableAutoMerge C"
  by (rule reconcile_managed [OF assms]) (auto simp: active_call_def)

text \<open>Calls that respect the two switches.\<close>

fun switched :: "bool \<Rightarrow> bool \<Rightarrow> 'q call \<Rightarrow> bool" where
  "switched merge shrink (MergePR _ _ _) \<longleftrightarrow> merge"
| "switched merge shrink (CreatePR _ _ dir _ _ _) \<longleftrightarrow> dir = ''grow'' \<or> dir = ''shrink'' \<and> shrink"
| "switched _ _ _ \<longleftrightarrow> True"

lemma mild_switched: "mild e \<Longrightarrow> switched a b e"
  by (cases e) simp_all

lemma only_switched_Reconcile:
  assumes "retries_on_conflict (Retry C)"
  shows "only (switched (EnableAutoMerge C) (ShrinkEnabled (BasePolicy C))) (Reconcile C ns name)"
proof (rule ensures_weaken [OF ensures_Reconcile [OF assms]])
  fix r and s :: "'a call list" assume rc: "reconcile_calls C ns name r s"
  have "switched (EnableAutoMerge C) (ShrinkEnabled (BasePolicy C)) e" if "e \<in> set s" for e
  proof (rule ccontr)
    assume "\<not> switched (EnableAutoMerge C) (ShrinkEnabled (BasePolicy C)) e"
    then show False
      by (rule switched.elims(3)) (use that reconcile_creates_direction [OF rc] reconcile_merges_switched [OF rc] in blast)+
  qed
  then show "list_all (switched (EnableAutoMerge C) (ShrinkEnabled (BasePolicy C))) s" by (simp add: list_all_iff)
qed

text \<open>
  (C9) The switches of the command line hold for good. In no session of a controller that
  \<^verbatim>\<open>main\<close> configured, whatever the namespaces are annotated with, is a pull request merged without
  \<^verbatim>\<open>--enable-auto-merge\<close>, and every pull request it creates is a growth, or a shrink under \<^verbatim>\<open>--enable-shrink\<close>.
\<close>

theorem switches_govern_sessions:
  assumes "run_state (main mgr L E) w = (r, w')" and "calls w = []" and "BuildController spec c \<in> set (calls w')"
    and "BasePolicy C = Config_BasePolicy (Reconciles spec)" and "EnableAutoMerge C = Config_AutoMerge (Reconciles spec)"
    and "retries_on_conflict (Retry C)" and "session C valid t"
  shows "(\<forall>i how x. MergePR i how x \<in> set t \<longrightarrow> enableAutoMerge E)
    \<and> (\<forall>q n dir annotations limits x. CreatePR q n dir annotations limits x \<in> set t \<longrightarrow> dir = ''grow'' \<or> dir = ''shrink'' \<and> enableShrink E)"
proof -
  from ensuresD [OF main_builds assms(1)] assms(2-5) have "EnableAutoMerge C = enableAutoMerge E" "BasePolicy C = basePolicy E" by auto
  then have "list_all (switched (enableAutoMerge E) (enableShrink E)) t"
    using session_only [OF assms(7) only_switched_Reconcile [OF assms(6)] mild_switched] by (simp add: basePolicy_def)
  then show ?thesis by (force simp: list_all_iff)
qed

text \<open>A manager on which everything succeeds, and the controller it runs on the example.\<close>

definition willing :: "nano manager" where
  "willing = \<lparr>new_manager = \<lambda>_ _. Inr (), collector_added = \<lambda>_ _. Inr (), controller_built = \<lambda>_ _. Inr (),
     healthz_added = \<lambda>_ _. Inr (), readyz_added = \<lambda>_ _. Inr (), manager_started = \<lambda>_. Inr ()\<rparr>"

definition dry_controller :: "(nano, unit) Reconciler" where
  "dry_controller = (demo True (demo_lease (Some ''pr-7'') ''grow''))\<lparr>BasePolicy := basePolicy dry_env, EnableAutoMerge := enableAutoMerge dry_env\<rparr>"

theorem switches_govern_sessions_witness:
  "\<not> enableAutoMerge dry_env \<and> (\<forall>i how x. MergePR i how x \<notin> set (calls (snd (run_state (Reconcile dry_controller ''team'' ''compute'') cold))))"
proof -
  obtain r w' where m: "run_state (main willing sample_libs dry_env) \<lparr>calls = [] :: nano setup_call list\<rparr> = (r, w')" by force
  have sel: "selectProvider sample_libs dry_env = Inr StatefulLogProvider"
    by (simp add: selectProvider_def parse_id_def choose_provider_def dry_env_def trueStr_def Let_def)
  have b: "BuildController (started_spec dry_env StatefulLogProvider) (Inr ()) \<in> set (calls w')"
    using m by (auto simp: main_def register_and_start_def SetupWithManager_def or_wrap_def sel willing_def started_spec_def Let_def)
  have "session dry_controller (\<lambda>_. True) (calls (snd (run_state (Reconcile dry_controller ''team'' ''compute'') cold)))"
    by (rule session_run) (simp_all add: cold_def)
  note t = this
  have "BasePolicy dry_controller = Config_BasePolicy (Reconciles (started_spec dry_env StatefulLogProvider))"
    "EnableAutoMerge dry_controller = Config_AutoMerge (Reconciles (started_spec dry_env StatefulLogProvider :: nano controller_spec))"
    "retries_on_conflict (Retry dry_controller)" by (simp_all add: started_spec_def dry_controller_def attempts_retry)
  from switches_govern_sessions [OF m _ b this t]
  have "MergePR i how x \<in> set (calls (snd (run_state (Reconcile dry_controller ''team'' ''compute'') cold))) \<Longrightarrow> enableAutoMerge dry_env" for i how x
    by auto
  moreover have "\<not> enableAutoMerge dry_env" by (simp add: enableAutoMerge_def BoolVar_def dry_env_def trueStr_def)
  ultimately show ?thesis by blast
qed

end
